(* ===== verification/Radio_Prelude.thy ===== *)
theory Radio_Prelude
  imports "HOL-Library.Word" "HOL-Library.Monad_Syntax"
begin

text \<open>
  Shared ground of the development: names for the machine integer types, big-endian byte
  codecs (Rust's \<^verbatim>\<open>to_be_bytes\<close> and \<^verbatim>\<open>from_be_bytes\<close>), saturating arithmetic, byte buffers
  written by index, and the "keep the most recent n" operation that every bounded buffer of the
  program implements.
\<close>

unbundle bit_operations_syntax


type_synonym u8 = "8 word"
type_synonym u16 = "16 word"
type_synonym u32 = "32 word"
type_synonym bytes = "8 word list"

section \<open>Machine arithmetic\<close>

text \<open>Rust's \<^verbatim>\<open>u32::saturating_add\<close>, \<^verbatim>\<open>saturating_mul\<close> and \<^verbatim>\<open>saturating_sub\<close>, on the
  values of the operands.\<close>

definition u32_max :: nat where
  "u32_max = 4294967295"

definition sat_add_u32 :: "nat \<Rightarrow> nat \<Rightarrow> nat" where
  "sat_add_u32 a b = min (a + b) u32_max"

definition sat_mul_u32 :: "nat \<Rightarrow> nat \<Rightarrow> nat" where
  "sat_mul_u32 a b = min (a * b) u32_max"

lemma sat_add_u32_le: "sat_add_u32 a b \<le> u32_max"
  by (simp add: sat_add_u32_def)

lemma sat_add_u32_exact: "a + b \<le> u32_max \<Longrightarrow> sat_add_u32 a b = a + b"
  by (simp add: sat_add_u32_def)

section \<open>Big-endian bytes\<close>

definition u16_to_be :: "u16 \<Rightarrow> u8 \<times> u8" where
  "u16_to_be w = (ucast (drop_bit 8 w), ucast w)"

definition u16_from_be :: "u8 \<Rightarrow> u8 \<Rightarrow> u16" where
  "u16_from_be a b = push_bit 8 (ucast a) OR ucast b"

definition u32_to_be :: "u32 \<Rightarrow> u8 \<times> u8 \<times> u8 \<times> u8" where
  "u32_to_be w =
     (ucast (drop_bit 24 w), ucast (drop_bit 16 w), ucast (drop_bit 8 w), ucast w)"

definition u32_from_be :: "u8 \<Rightarrow> u8 \<Rightarrow> u8 \<Rightarrow> u8 \<Rightarrow> u32" where
  "u32_from_be a b c d =
     push_bit 24 (ucast a) OR push_bit 16 (ucast b) OR push_bit 8 (ucast c) OR ucast d"

lemma bit_u8_ge: "8 \<le> n \<Longrightarrow> bit (b :: u8) n = False"
  by (auto dest: bit_imp_le_length)

lemma u16_be_roundtrip: "(case u16_to_be w of (a, b) \<Rightarrow> u16_from_be a b) = w"
  by (rule bit_word_eqI) (auto simp: u16_to_be_def u16_from_be_def bit_simps)

lemma u32_be_roundtrip: "(case u32_to_be w of (a, b, c, d) \<Rightarrow> u32_from_be a b c d) = w"
proof (rule bit_word_eqI)
  fix n :: nat
  assume n: "n < LENGTH(32)"
  consider "n < 8" | "8 \<le> n" "n < 16" | "16 \<le> n" "n < 24" | "24 \<le> n" "n < 32"
    using n by fastforce
  then show "bit (case u32_to_be w of (a, b, c, d) \<Rightarrow> u32_from_be a b c d) n = bit w n"
    by cases (auto simp: u32_to_be_def u32_from_be_def bit_simps)
qed

lemma u32_from_be_inv: "u32_to_be (u32_from_be a b c d) = (a, b, c, d)"
  by (auto simp: u32_to_be_def u32_from_be_def bit_simps bit_u8_ge
      intro!: bit_word_eqI)

lemma u16_from_be_inv: "u16_to_be (u16_from_be a b) = (a, b)"
  by (auto simp: u16_to_be_def u16_from_be_def bit_simps bit_u8_ge
      intro!: bit_word_eqI)

section \<open>Buffers written by index\<close>

text \<open>Consecutive bytes from an index on; the callers write inside the buffer.\<close>

fun write_at :: "nat \<Rightarrow> bytes \<Rightarrow> bytes \<Rightarrow> bytes" where
  "write_at off [] buf = buf"
| "write_at off (b # bs) buf = write_at (Suc off) bs (buf[off := b])"

lemma length_write_at [simp]: "length (write_at off bs buf) = length buf"
  by (induction off bs buf rule: write_at.induct) simp_all

lemma nth_write_at:
  "off + length bs \<le> length buf \<Longrightarrow> i < length buf \<Longrightarrow>
    write_at off bs buf ! i = (if off \<le> i \<and> i < off + length bs then bs ! (i - off) else buf ! i)"
proof (induction off bs buf rule: write_at.induct)
  case (2 off b bs buf)
  then show ?case
    by (cases "i = off") (auto simp: nth_Cons' nth_list_update)
qed auto

lemma write_at_slice:
  assumes "off + length bs \<le> length buf"
  shows "write_at off bs buf = take off buf @ bs @ drop (off + length bs) buf"
  using assms by (intro nth_equalityI) (auto simp: nth_write_at nth_append)

lemma write_at_append: "write_at off (xs @ ys) buf = write_at (off + length xs) ys (write_at off xs buf)"
  by (induction off xs buf rule: write_at.induct) simp_all

section \<open>Keeping the most recent entries\<close>

definition keep_last :: "nat \<Rightarrow> 'a list \<Rightarrow> 'a list" where
  "keep_last n xs = drop (length xs - n) xs"

lemma length_keep_last [simp]: "length (keep_last n xs) = min n (length xs)"
  by (simp add: keep_last_def)

lemma keep_last_id [simp]: "length xs \<le> n \<Longrightarrow> keep_last n xs = xs"
  by (simp add: keep_last_def)

lemma keep_last_append_keep_last:
  "keep_last n (keep_last n xs @ ys) = keep_last n (xs @ ys)"
proof (cases "length xs \<le> n")
  case True
  then show ?thesis by simp
next
  case False
  then have "length (keep_last n xs @ ys) - n = length ys" by simp
  moreover have "length (xs @ ys) - n = (length xs - n) + length ys"
    using False by simp
  ultimately show ?thesis
    using False by (simp add: keep_last_def add.commute)
qed

lemma keep_last_suffix: "\<exists>old. xs = old @ keep_last n xs"
  by (metis append_take_drop_id keep_last_def)

lemma keep_last_append_le: "n \<le> length ys \<Longrightarrow> keep_last n (xs @ ys) = keep_last n ys"
  by (simp add: keep_last_def)

end
