(* ===== verification/Radio_Float.thy ===== *)
theory Radio_Float
  imports Complex_Main Radio_Prelude
begin

text \<open>
  Rust's \<^verbatim>\<open>f64\<close> and \<^verbatim>\<open>f32\<close> as far as the program computes with them: finite values as
  rationals, infinities and NaN as constructors, every operation as the exact rational result
  followed by IEEE round-to-nearest-even with gradual underflow and overflow to infinity.
  The sign of zero is not represented: no modelled code divides by a zero of known sign or
  otherwise tells \<^verbatim>\<open>-0.0\<close> from \<^verbatim>\<open>0.0\<close>. All definitions evaluate. The lemmas give what the
  numeric code relies on: rounding never crosses a representable value, representable values
  are fixed, and the casts \<^verbatim>\<open>as u32\<close>, \<^verbatim>\<open>as i16\<close> truncate and saturate.
\<close>

datatype fval = Fin rat | Inf bool | NaN

named_theorems float_simps \<open>definitions of the floating-point operations\<close>

section \<open>Rounding\<close>

fun ilog2 :: "int \<Rightarrow> int" where
  "ilog2 n = (if n < 2 then 0 else 1 + ilog2 (n div 2))"

declare ilog2.simps [simp del]

definition exp2_floor :: "rat \<Rightarrow> int" where
  "exp2_floor r =
     (let (n, d) = quotient_of r; e = ilog2 n - ilog2 d
      in if 2 powi e \<le> r then e else e - 1)"

definition round_ties_even :: "rat \<Rightarrow> int" where
  "round_ties_even x =
     (let f = \<lfloor>x\<rfloor>; d = x - of_int f
      in if d < 1/2 then f else if d > 1/2 then f + 1 else if even f then f else f + 1)"

definition ulp_exp :: "int \<Rightarrow> int \<Rightarrow> rat \<Rightarrow> int" where
  "ulp_exp p emin x = max (exp2_floor x - (p - 1)) emin"

definition round_pos :: "int \<Rightarrow> int \<Rightarrow> rat \<Rightarrow> rat" where
  "round_pos p emin x =
     (let q = ulp_exp p emin x in of_int (round_ties_even (x / 2 powi q)) * 2 powi q)"

definition fl_round :: "int \<Rightarrow> int \<Rightarrow> int \<Rightarrow> rat \<Rightarrow> fval" where
  "fl_round p emin emax x =
     (if x = 0 then Fin 0
      else let y = round_pos p emin \<bar>x\<bar>
           in if 2 powi emax \<le> y then Inf (x < 0) else Fin (if x < 0 then - y else y))"

definition f64_round :: "rat \<Rightarrow> fval" where
  "f64_round = fl_round 53 (-1074) 1024"

definition f32_round :: "rat \<Rightarrow> fval" where
  "f32_round = fl_round 24 (-149) 128"

section \<open>Operations\<close>

text \<open>\<^verbatim>\<open>n as f64\<close> for an integer.\<close>

definition f64_of_int :: "int \<Rightarrow> fval" where
  [float_simps]: "f64_of_int n = f64_round (of_int n)"

fun fl_neg :: "fval \<Rightarrow> fval" where
  "fl_neg (Fin x) = Fin (- x)"
| "fl_neg (Inf s) = Inf (\<not> s)"
| "fl_neg NaN = NaN"

fun fl_abs :: "fval \<Rightarrow> fval" where
  "fl_abs (Fin x) = Fin \<bar>x\<bar>"
| "fl_abs (Inf s) = Inf False"
| "fl_abs NaN = NaN"

fun fl_add :: "(rat \<Rightarrow> fval) \<Rightarrow> fval \<Rightarrow> fval \<Rightarrow> fval" where
  "fl_add rnd (Fin x) (Fin y) = rnd (x + y)"
| "fl_add rnd NaN _ = NaN"
| "fl_add rnd _ NaN = NaN"
| "fl_add rnd (Inf s) (Inf t) = (if s = t then Inf s else NaN)"
| "fl_add rnd (Inf s) (Fin _) = Inf s"
| "fl_add rnd (Fin _) (Inf t) = Inf t"

fun fl_mul :: "(rat \<Rightarrow> fval) \<Rightarrow> fval \<Rightarrow> fval \<Rightarrow> fval" where
  "fl_mul rnd (Fin x) (Fin y) = rnd (x * y)"
| "fl_mul rnd NaN _ = NaN"
| "fl_mul rnd _ NaN = NaN"
| "fl_mul rnd (Inf s) (Inf t) = Inf (s \<noteq> t)"
| "fl_mul rnd (Inf s) (Fin y) = (if y = 0 then NaN else Inf (s \<noteq> (y < 0)))"
| "fl_mul rnd (Fin x) (Inf t) = (if x = 0 then NaN else Inf (t \<noteq> (x < 0)))"

fun fl_div :: "(rat \<Rightarrow> fval) \<Rightarrow> fval \<Rightarrow> fval \<Rightarrow> fval" where
  "fl_div rnd (Fin x) (Fin y) =
     (if y = 0 then (if x = 0 then NaN else Inf (x < 0)) else rnd (x / y))"
| "fl_div rnd NaN _ = NaN"
| "fl_div rnd _ NaN = NaN"
| "fl_div rnd (Inf s) (Inf t) = NaN"
| "fl_div rnd (Inf s) (Fin y) = Inf (s \<noteq> (y < 0))"
| "fl_div rnd (Fin x) (Inf t) = Fin 0"

abbreviation f64_add :: "fval \<Rightarrow> fval \<Rightarrow> fval" where
  "f64_add \<equiv> fl_add f64_round"
abbreviation f64_sub :: "fval \<Rightarrow> fval \<Rightarrow> fval" where
  "f64_sub a b \<equiv> fl_add f64_round a (fl_neg b)"
abbreviation f64_mul :: "fval \<Rightarrow> fval \<Rightarrow> fval" where
  "f64_mul \<equiv> fl_mul f64_round"
abbreviation f64_div :: "fval \<Rightarrow> fval \<Rightarrow> fval" where
  "f64_div \<equiv> fl_div f64_round"

text \<open>Comparisons are false as soon as one side is NaN.\<close>

fun fl_less :: "fval \<Rightarrow> fval \<Rightarrow> bool" where
  "fl_less (Fin x) (Fin y) = (x < y)"
| "fl_less (Inf s) (Fin _) = s"
| "fl_less (Fin _) (Inf t) = (\<not> t)"
| "fl_less (Inf s) (Inf t) = (s \<and> \<not> t)"
| "fl_less _ _ = False"

definition fl_le :: "fval \<Rightarrow> fval \<Rightarrow> bool" where
  [float_simps]: "fl_le a b = (fl_less a b \<or> (a = b \<and> a \<noteq> NaN))"

text \<open>\<^verbatim>\<open>f64::clamp\<close> (NaN stays NaN), \<^verbatim>\<open>f64::max\<close> and \<^verbatim>\<open>f64::min\<close> (NaN gives the other side).\<close>

definition fl_clamp :: "fval \<Rightarrow> fval \<Rightarrow> fval \<Rightarrow> fval" where
  [float_simps]: "fl_clamp lo hi x =
     (let x = (if fl_less x lo then lo else x) in if fl_less hi x then hi else x)"

definition fl_max :: "fval \<Rightarrow> fval \<Rightarrow> fval" where
  [float_simps]: "fl_max a b =
     (if a = NaN then b else if b = NaN then a else if fl_less a b then b else a)"

definition fl_min :: "fval \<Rightarrow> fval \<Rightarrow> fval" where
  [float_simps]: "fl_min a b =
     (if a = NaN then b else if b = NaN then a else if fl_less b a then b else a)"

text \<open>Float-to-integer \<^verbatim>\<open>as\<close>: truncation, saturation at the type's bounds, NaN to 0.\<close>

definition trunc :: "rat \<Rightarrow> int" where
  "trunc x = (if 0 \<le> x then \<lfloor>x\<rfloor> else \<lceil>x\<rceil>)"

fun fl_as_int :: "int \<Rightarrow> int \<Rightarrow> fval \<Rightarrow> int" where
  "fl_as_int lo hi (Fin x) = max lo (min hi (trunc x))"
| "fl_as_int lo hi (Inf s) = (if s then lo else hi)"
| "fl_as_int lo hi NaN = 0"

definition f64_as_u32 :: "fval \<Rightarrow> nat" where
  "f64_as_u32 x = nat (fl_as_int 0 4294967295 x)"

definition f64_as_u16 :: "fval \<Rightarrow> nat" where
  "f64_as_u16 x = nat (fl_as_int 0 65535 x)"

definition f64_as_usize :: "fval \<Rightarrow> nat" where
  "f64_as_usize x = nat (fl_as_int 0 18446744073709551615 x)"

definition f64_as_i32 :: "fval \<Rightarrow> int" where
  "f64_as_i32 = fl_as_int (-2147483648) 2147483647"

definition f64_as_i16 :: "fval \<Rightarrow> int" where
  "f64_as_i16 = fl_as_int (-32768) 32767"

section \<open>Lemmas on rounding\<close>

lemma round_ties_even_of_int [simp]: "round_ties_even (of_int k) = k"
  by (simp add: round_ties_even_def)

lemma round_ties_even_floor: "\<lfloor>x\<rfloor> \<le> round_ties_even x" "round_ties_even x \<le> \<lfloor>x\<rfloor> + 1"
  by (auto simp: round_ties_even_def Let_def)

lemma round_ties_even_error: "\<bar>of_int (round_ties_even x) - x\<bar> \<le> 1/2"
proof -
  have "of_int \<lfloor>x\<rfloor> \<le> x" "x < of_int \<lfloor>x\<rfloor> + 1" by linarith+
  then show ?thesis by (auto simp: round_ties_even_def Let_def)
qed

lemma round_ties_even_le: "x \<le> of_int k \<Longrightarrow> round_ties_even x \<le> k"
proof -
  assume x: "x \<le> of_int k"
  show ?thesis
  proof (cases "x = of_int k")
    case False
    with x have "\<lfloor>x\<rfloor> < k" by linarith
    then show ?thesis using round_ties_even_floor(2) [of x] by linarith
  qed simp
qed

lemma round_ties_even_ge: "of_int k \<le> x \<Longrightarrow> k \<le> round_ties_even x"
  using round_ties_even_floor(1) [of x] by (meson le_floor_iff order_trans)

lemma powi2_less_iff: "(2::rat) powi a < 2 powi b \<longleftrightarrow> a < b"
  using power_int_strict_increasing [of a b "2::rat"] power_int_increasing [of b a "2::rat"]
  by (cases "a < b") auto

lemma powi2_le_iff: "(2::rat) powi a \<le> 2 powi b \<longleftrightarrow> a \<le> b"
  using powi2_less_iff [of b a] by (simp add: not_less [symmetric])

lemma ilog2_bounds:
  "0 < n \<Longrightarrow> 2 powi ilog2 n \<le> (of_int n :: rat) \<and> of_int n < (2 powi (ilog2 n + 1) :: rat)"
proof (induction n rule: ilog2.induct)
  case (1 n)
  show ?case
  proof (cases "n < 2")
    case True
    with 1 have "n = 1" by simp
    then show ?thesis by (simp add: ilog2.simps)
  next
    case False
    define h where "h = n div 2"
    define P where "P = (2::rat) powi ilog2 h"
    have IH: "P \<le> of_int h" "of_int h < 2 * P"
      using "1.IH" False by (auto simp: h_def P_def power_int_add mult.commute)
    have "2 * h \<le> n" "n \<le> 2 * h + 1" by (auto simp: h_def)
    then have "2 * of_int h \<le> (of_int n :: rat)" "(of_int n :: rat) \<le> 2 * of_int h + 1"
      using of_int_le_iff [of "2 * h" n, where 'a = rat] of_int_le_iff [of n "2 * h + 1", where 'a = rat]
      by auto
    moreover have "of_int h + 1 \<le> 2 * P"
    proof -
      have "0 \<le> ilog2 m" if "0 < m" for m
        using that by (induction m rule: ilog2.induct) (subst ilog2.simps, auto)
      then have "0 \<le> ilog2 h" using False by (simp add: h_def)
      then have P: "2 * P = of_int (2 ^ nat (ilog2 h + 1))"
        by (simp add: P_def power_int_def nat_add_distrib)
      have "h < 2 ^ nat (ilog2 h + 1)" using IH(2) unfolding P by simp
      then have "h + 1 \<le> 2 ^ nat (ilog2 h + 1)" by simp
      then have "of_int (h + 1) \<le> (of_int (2 ^ nat (ilog2 h + 1)) :: rat)" by (simp only: of_int_le_iff)
      then show ?thesis unfolding P by simp
    qed
    ultimately have "2 * P \<le> of_int n" "of_int n < 4 * P" using IH by linarith+
    moreover have "ilog2 n = 1 + ilog2 h" using False by (subst ilog2.simps) (simp add: h_def)
    ultimately show ?thesis by (simp add: P_def power_int_add)
  qed
qed

lemma exp2_floor_bounds:
  assumes "0 < r"
  shows "2 powi (exp2_floor r) \<le> r" and "r < 2 powi (exp2_floor r + 1)"
proof -
  obtain n d where q: "quotient_of r = (n, d)" by force
  have r: "r = of_int n / of_int d" and d: "0 < d"
    using quotient_of_div [OF q] quotient_of_denom_pos [OF q] by auto
  have n: "0 < n" using assms r d by (simp add: zero_less_divide_iff)
  define a b where "a = ilog2 n" and "b = ilog2 d"
  note nb = ilog2_bounds [OF n, folded a_def] ilog2_bounds [OF d, folded b_def]
  have lo: "2 powi (a - b - 1) \<le> r"
  proof -
    have "(2::rat) powi (a - b - 1) = 2 powi a / 2 powi (b + 1)"
      by (subst power_int_diff [symmetric]) (simp_all add: algebra_simps)
    also have "\<dots> \<le> of_int n / of_int d"
      using nb n d by (intro frac_le) simp_all
    finally show ?thesis by (simp add: r)
  qed
  have hi: "r < 2 powi (a - b + 1)"
  proof -
    have "of_int n / of_int d < (2::rat) powi (a + 1) / 2 powi b"
      using nb n by (intro frac_less) simp_all
    also have "\<dots> = 2 powi (a - b + 1)"
      by (subst power_int_diff [symmetric]) (simp_all add: algebra_simps)
    finally show ?thesis by (simp add: r)
  qed
  have e: "exp2_floor r = (if 2 powi (a - b) \<le> r then a - b else a - b - 1)"
    by (simp add: exp2_floor_def q a_def b_def)
  show "2 powi (exp2_floor r) \<le> r" and "r < 2 powi (exp2_floor r + 1)"
    using lo hi by (auto simp: e)
qed

text \<open>A value is on the grid of a format when it is a significand of at most \<open>p\<close> bits times
  a power of two that the format has.\<close>

definition on_grid :: "int \<Rightarrow> int \<Rightarrow> rat \<Rightarrow> bool" where
  "on_grid p emin g \<longleftrightarrow> (\<exists>m k. g = of_int m * 2 powi k \<and> \<bar>m\<bar> < 2 ^ nat p \<and> emin \<le> k)"

lemma on_grid_of_int: "\<bar>m\<bar> < 2 ^ nat p \<Longrightarrow> emin \<le> 0 \<Longrightarrow> on_grid p emin (of_int m)"
  unfolding on_grid_def by (rule exI [of _ m], rule exI [of _ 0]) simp

lemma on_grid_pow2: "1 < p \<Longrightarrow> emin \<le> k \<Longrightarrow> on_grid p emin (2 powi k)"
  unfolding on_grid_def by (rule exI [of _ 1], rule exI [of _ k]) simp

lemma grid_multiple:
  assumes g: "on_grid p emin g" and le: "2 powi e \<le> g" and p: "0 < p"
  shows "\<exists>j. g = of_int j * 2 powi (max (e - (p - 1)) emin)"
proof -
  obtain m k where m: "g = of_int m * 2 powi k" "\<bar>m\<bar> < 2 ^ nat p" "emin \<le> k"
    using g by (auto simp: on_grid_def)
  have "of_int m < (2 ^ nat p :: rat)"
    using m(2) by (metis abs_less_iff of_int_less_iff of_int_numeral of_int_power)
  then have "g < 2 ^ nat p * 2 powi k" by (simp add: m(1))
  also have "(2 :: rat) ^ nat p = 2 powi p" using p by (simp add: power_int_def)
  also have "2 powi p * 2 powi k = (2 :: rat) powi (p + k)" by (simp add: power_int_add)
  finally have "(2::rat) powi e < 2 powi (p + k)" using le by simp
  then have "e < p + k" by (simp add: powi2_less_iff)
  define q where "q = max (e - (p - 1)) emin"
  have q: "q \<le> k" using \<open>e < p + k\<close> m(3) by (simp add: q_def)
  have "(2::rat) powi k = 2 powi q * 2 powi (k - q)" by (simp add: power_int_add [symmetric])
  also have "2 powi (k - q) = (of_int (2 ^ nat (k - q)) :: rat)" using q by (simp add: power_int_def)
  finally have "g = of_int (m * 2 ^ nat (k - q)) * 2 powi q" by (simp add: m(1))
  then show ?thesis unfolding q_def by blast
qed

lemma round_pos_le:
  assumes "0 < x" "x \<le> g" "on_grid p emin g" "0 < p"
  shows "round_pos p emin x \<le> g"
proof -
  define q where "q = ulp_exp p emin x"
  have "2 powi exp2_floor x \<le> g" using exp2_floor_bounds(1) [OF assms(1)] assms(2) by simp
  from grid_multiple [OF assms(3) this assms(4)] obtain j where
    j: "g = of_int j * 2 powi q" by (auto simp: q_def ulp_exp_def)
  have "x / 2 powi q \<le> of_int j" using assms(2) by (simp add: j divide_le_eq)
  then have "round_ties_even (x / 2 powi q) \<le> j" by (rule round_ties_even_le)
  then have "of_int (round_ties_even (x / 2 powi q)) * 2 powi q \<le> (of_int j * 2 powi q :: rat)"
    by (intro mult_right_mono) auto
  then show ?thesis by (simp add: round_pos_def j q_def Let_def)
qed

lemma round_pos_ge:
  assumes "g \<le> x" "on_grid p emin g" "1 < p" "0 < g"
  shows "g \<le> round_pos p emin x"
proof -
  define e q where "e = exp2_floor x" and "q = ulp_exp p emin x"
  have x: "0 < x" using assms by simp
  have grid: "h \<le> round_pos p emin x" if h: "h \<le> x" "h = of_int j * 2 powi q" for h j
  proof -
    have "of_int j \<le> x / 2 powi q" using h by (simp add: le_divide_eq)
    then have "j \<le> round_ties_even (x / 2 powi q)" by (rule round_ties_even_ge)
    then have "of_int j * 2 powi q \<le> (of_int (round_ties_even (x / 2 powi q)) * 2 powi q :: rat)"
      by (intro mult_right_mono) auto
    then show ?thesis by (simp add: round_pos_def h(2) q_def Let_def)
  qed
  have lo: "2 powi e \<le> x" using exp2_floor_bounds(1) [OF x] by (simp add: e_def)
  show ?thesis
  proof (cases "2 powi e \<le> g")
    case True
    from grid_multiple [OF assms(2) this] assms(3) obtain j where "g = of_int j * 2 powi q"
      by (auto simp: q_def ulp_exp_def e_def)
    with assms(1) show ?thesis by (rule grid)
  next
    case False
    obtain m k where m: "g = of_int m * 2 powi k" "emin \<le> k" using assms(2) by (auto simp: on_grid_def)
    have "(0::rat) < 2 powi k" by simp
    then have "0 < m" using assms(4) by (metis m(1) of_int_0_less_iff zero_less_mult_pos2)
    then have "2 powi emin \<le> g"
      using m power_int_increasing [of emin k "2::rat"] mult_mono [of 1 "of_int m" "2 powi emin" "2 powi k :: rat"]
      by simp
    with False have "(2::rat) powi emin < 2 powi e" by simp
    then have "emin < e" by (simp add: powi2_less_iff)
    then have "on_grid p emin (2 powi e)" using assms(3) by (intro on_grid_pow2) auto
    from grid_multiple [OF this order_refl] assms(3) obtain j where "2 powi e = of_int j * (2::rat) powi q"
      by (auto simp: q_def ulp_exp_def e_def)
    with lo have "2 powi e \<le> round_pos p emin x" by (intro grid) auto
    with False show ?thesis by simp
  qed
qed

lemma round_pos_nonneg: "0 < x \<Longrightarrow> 0 \<le> round_pos p emin x"
  unfolding round_pos_def Let_def
  using round_ties_even_ge [of 0 "x / 2 powi ulp_exp p emin x"]
  by (intro mult_nonneg_nonneg) auto

lemma on_grid_minus [simp]: "on_grid p emin (- g) = on_grid p emin g"
proof -
  have "on_grid p emin (- h)" if "on_grid p emin h" for h
    using that unfolding on_grid_def
    by (metis abs_minus_cancel mult_minus_left of_int_minus)
  from this [of g] this [of "- g"] show ?thesis by auto
qed

theorem fl_round_between:
  assumes x: "a \<le> x" "x \<le> b" and grid: "on_grid p emin a" "on_grid p emin b" and p: "1 < p"
    and range: "- (2 powi emax) < a" "b < 2 powi emax"
  shows "\<exists>y. fl_round p emin emax x = Fin y \<and> a \<le> y \<and> y \<le> b"
proof (cases "x = 0")
  case True
  with x show ?thesis by (simp add: fl_round_def)
next
  case nz: False
  define y where "y = round_pos p emin \<bar>x\<bar>"
  have eq: "fl_round p emin emax x =
      (if 2 powi emax \<le> y then Inf (x < 0) else Fin (if x < 0 then - y else y))"
    by (simp add: fl_round_def y_def nz Let_def)
  have y0: "0 \<le> y" using nz round_pos_nonneg [of "\<bar>x\<bar>"] by (simp add: y_def)
  show ?thesis
  proof (cases "0 < x")
    case True
    then have "y \<le> b" unfolding y_def using x grid p by (intro round_pos_le) auto
    moreover have "a \<le> y"
      using y0 x grid p True by (cases "0 < a") (auto simp: y_def intro: round_pos_ge)
    ultimately show ?thesis using True range by (simp add: eq)
  next
    case False
    with nz have neg: "x < 0" by simp
    then have "y \<le> - a" unfolding y_def using x grid p by (intro round_pos_le) auto
    moreover have "- b \<le> y"
      using y0 x grid p neg by (cases "0 < - b") (auto simp: y_def intro: round_pos_ge)
    ultimately show ?thesis using neg range by (simp add: eq)
  qed
qed

corollary fl_round_exact:
  assumes "on_grid p emin x" "1 < p" "\<bar>x\<bar> < 2 powi emax"
  shows "fl_round p emin emax x = Fin x"
  using fl_round_between [of x x x p emin emax] assms by (auto simp: abs_less_iff)

lemma int_lt_2_1024: "\<bar>k\<bar> < 2 ^ 53 \<Longrightarrow> \<bar>of_int k\<bar> < (2::rat) powi 1024"
proof -
  assume "\<bar>k\<bar> < 2 ^ 53"
  then have "of_int \<bar>k\<bar> < (of_int (2 ^ 53) :: rat)" by (simp only: of_int_less_iff)
  also have "\<dots> = 2 powi 53" by simp
  also have "\<dots> < 2 powi 1024" by (simp only: powi2_less_iff)
  finally show ?thesis by simp
qed

text \<open>The forms the numeric code uses: rounding between integers of at most 53 bits.\<close>

lemma f64_round_between_int:
  assumes "of_int a \<le> x" "x \<le> of_int b" "\<bar>a\<bar> < 2 ^ 53" "\<bar>b\<bar> < 2 ^ 53"
  shows "\<exists>y. f64_round x = Fin y \<and> of_int a \<le> y \<and> y \<le> of_int b"
  unfolding f64_round_def
  using assms int_lt_2_1024 [of a] int_lt_2_1024 [of b]
  by (intro fl_round_between on_grid_of_int) (auto simp: abs_less_iff)

lemma f64_round_of_int: "\<bar>k\<bar> < 2 ^ 53 \<Longrightarrow> f64_round (of_int k) = Fin (of_int k)"
  using f64_round_between_int [of k "of_int k" k] by auto

lemma f64_of_int_exact: "\<bar>k\<bar> < 2 ^ 53 \<Longrightarrow> f64_of_int k = Fin (of_int k)"
  by (simp add: f64_of_int_def f64_round_of_int)

text \<open>Values scaled by a power of two (fixed-point fractions) are exact too.\<close>

lemma f64_round_dyadic:
  assumes "\<bar>m\<bar> < 2 ^ 53" "k \<le> 1000"
  shows "f64_round (of_int m / 2 ^ k) = Fin (of_int m / 2 ^ k)"
  unfolding f64_round_def
proof (rule fl_round_exact)
  have "of_int m / 2 ^ k = (of_int m * 2 powi (- int k) :: rat)"
    by (simp add: power_int_minus field_simps)
  then show "on_grid 53 (- 1074) (of_int m / 2 ^ k)"
    unfolding on_grid_def using assms by (intro exI [of _ m] exI [of _ "- int k"]) auto
  have "\<bar>of_int m / 2 ^ k\<bar> \<le> \<bar>of_int m :: rat\<bar>"
    by (simp add: abs_divide divide_le_eq mult_le_cancel_left1)
  then show "\<bar>of_int m / 2 ^ k\<bar> < (2::rat) powi 1024"
    using int_lt_2_1024 [OF assms(1)] by simp
qed simp

lemma round_pos_error:
  assumes "0 < x"
  shows "\<bar>round_pos p emin x - x\<bar> \<le> 2 powi (ulp_exp p emin x) / 2"
proof -
  define q where "q = ulp_exp p emin x"
  have "round_pos p emin x - x = (of_int (round_ties_even (x / 2 powi q)) - x / 2 powi q) * 2 powi q"
    by (simp add: round_pos_def q_def Let_def left_diff_distrib)
  then have "\<bar>round_pos p emin x - x\<bar> = \<bar>of_int (round_ties_even (x / 2 powi q)) - x / 2 powi q\<bar> * 2 powi q"
    by (simp add: abs_mult)
  also have "\<dots> \<le> 1/2 * 2 powi q"
    by (intro mult_right_mono round_ties_even_error) auto
  finally show ?thesis by (simp add: q_def)
qed

lemma trunc_of_int [simp]: "trunc (of_int k) = k"
  by (simp add: trunc_def)

lemma trunc_bounds: "0 \<le> x \<Longrightarrow> of_int (trunc x) \<le> x \<and> x < of_int (trunc x) + 1"
  unfolding trunc_def by simp linarith

lemma trunc_mono: "x \<le> y \<Longrightarrow> trunc x \<le> trunc y"
  by (auto simp: trunc_def floor_mono ceiling_mono)
    (metis ceiling_le_iff le_floor_iff of_int_0 order.trans linorder_linear)

lemma trunc_between: "of_int a \<le> x \<Longrightarrow> x \<le> of_int b \<Longrightarrow> a \<le> trunc x \<and> trunc x \<le> b"
  using trunc_mono [of "of_int a" x] trunc_mono [of x "of_int b"] by simp

text \<open>Absolute rounding error of a value below \<open>2 powi n\<close> in the normal range.\<close>

lemma f64_round_error:
  assumes x: "\<bar>x\<bar> < 2 powi n" and n: "- 1000 \<le> n" "n \<le> 1000"
  shows "\<exists>y. f64_round x = Fin y \<and> \<bar>y - x\<bar> \<le> 2 powi (n - 54)"
proof (cases "x = 0")
  case True
  then show ?thesis by (simp add: f64_round_def fl_round_def)
next
  case False
  then have pos: "0 < \<bar>x\<bar>" by simp
  define q where "q = ulp_exp 53 (- 1074) \<bar>x\<bar>"
  define y where "y = round_pos 53 (- 1074) \<bar>x\<bar>"
  have "2 powi exp2_floor \<bar>x\<bar> < (2::rat) powi n"
    using exp2_floor_bounds(1) [OF pos] x by linarith
  then have "q \<le> n - 53" using n by (simp add: q_def ulp_exp_def powi2_less_iff)
  then have "(2::rat) powi q \<le> 2 powi (n - 53)" by (simp add: powi2_le_iff)
  moreover have "(2::rat) powi (n - 53) / 2 = 2 powi (n - 54)"
    by (simp add: power_int_diff field_simps)
  ultimately have err: "\<bar>y - \<bar>x\<bar>\<bar> \<le> 2 powi (n - 54)"
    using round_pos_error [OF pos, of 53 "- 1074"] by (simp add: y_def q_def)
  have "2 powi n + 2 powi (n - 54) \<le> (2::rat) powi (n + 1)"
    using powi2_le_iff [of "n - 54" n] by (simp add: power_int_add)
  also have "\<dots> \<le> 2 powi 1024" unfolding powi2_le_iff using n by simp
  finally have "y < 2 powi 1024" using err x by linarith
  then have "f64_round x = Fin (if x < 0 then - y else y)"
    using False by (simp add: f64_round_def fl_round_def y_def Let_def)
  then show ?thesis using err by (auto split: if_splits)
qed

text \<open>The form the audio and timing code uses: values below \<open>2 ^ 26\<close> are rounded by less than 1e-5.\<close>

lemma f64_round_close:
  assumes "- (2 ^ 26) < x" "x < 2 ^ 26"
  shows "\<exists>y. f64_round x = Fin y \<and> x - 1 / 100000 \<le> y \<and> y \<le> x + 1 / 100000"
proof -
  obtain y where y: "f64_round x = Fin y" "\<bar>y - x\<bar> \<le> 2 powi (26 - 54)"
    using f64_round_error [of x 26] assms by (auto simp: abs_less_iff)
  note yx = y(2)
  have "(2::rat) powi (26 - 54) \<le> 1 / 100000" by (simp add: power_int_def power_divide)
  with yx have "\<bar>y - x\<bar> \<le> 1 / 100000" by linarith
  then have "x - 1 / 100000 \<le> y" "y \<le> x + 1 / 100000" unfolding abs_le_iff by linarith+
  with y(1) show ?thesis by blast
qed

end
