(* ===== verification/Keyer_Config.thy ===== *)
theory Keyer_Config
  imports Radio_Float
begin

text \<open>
  \<^verbatim>\<open>crates/radio-utils-keyer/src/config.rs\<close>: the keyer's settings and the element durations
  computed from them, in microseconds. Small integers keep their width (\<open>u8\<close>, \<open>u32\<close>); the
  durations are \<open>nat\<close>, and \<open>durations_fit_u32\<close> shows that no product or sum the code forms
  on \<^verbatim>\<open>u32\<close> can overflow. The weighting, dynamic-ratio and Farnsworth formulas are computed in
  \<^verbatim>\<open>f64\<close>, operation by operation. The serialisation attributes and the millisecond getters'
  display use are left out.
\<close>

datatype KeyerMode = Straight | IambicA | IambicB | Bug | Ultimatic | SinglePaddle

datatype SerialPin = CTS | DSR | DCD | RI

datatype UsbEmitStyle = Paddle | Keyed

datatype MidiBindKind = NoteOn | ControlChange

record MidiBinding =
  mb_channel :: u8
  mb_kind :: MidiBindKind
  mb_number :: u8

text \<open>A Rust \<^verbatim>\<open>char\<close> is a Unicode scalar value.\<close>

type_synonym rchar = nat

record KeyerConfig =
  mode :: KeyerMode
  speed_wpm :: u8
  weight :: u8
  sidetone_freq :: u32
  sidetone_volume :: fval
  sidetone_delay_ms :: int
  hang_time_ms :: u32
  keys_reversed :: bool
  auto_spacing :: bool
  serial_port :: "rchar list option"
  dit_pin :: SerialPin
  dash_pin :: SerialPin
  dit_key :: "rchar option"
  dash_key :: "rchar option"
  midi_device :: "rchar list option"
  midi_dit :: "MidiBinding option"
  midi_dah :: "MidiBinding option"
  iambic_b_timing_percent :: u8
  farnsworth_wpm :: u8
  keying_compensation_ms :: u8
  dynamic_ratio :: bool
  dynamic_ratio_low_wpm :: u8
  dynamic_ratio_high_wpm :: u8
  macros :: "rchar list list"
  usb_emit_style :: UsbEmitStyle
  decoder_enabled :: bool

definition default_config :: KeyerConfig where
  "default_config = \<lparr>
     mode = IambicB,
     speed_wpm = 18,
     weight = 50,
     sidetone_freq = 600,
     sidetone_volume = f32_round (7/10),
     sidetone_delay_ms = 0,
     hang_time_ms = 300,
     keys_reversed = False,
     auto_spacing = False,
     serial_port = None,
     dit_pin = CTS,
     dash_pin = DSR,
     dit_key = Some (of_char (CHR ''z'')),
     dash_key = Some (of_char (CHR ''x'')),
     midi_device = None,
     midi_dit = None,
     midi_dah = None,
     iambic_b_timing_percent = 33,
     farnsworth_wpm = 0,
     keying_compensation_ms = 0,
     dynamic_ratio = False,
     dynamic_ratio_low_wpm = 30,
     dynamic_ratio_high_wpm = 70,
     macros = replicate 8 [],
     usb_emit_style = Paddle,
     decoder_enabled = True\<rparr>"

section \<open>Durations in microseconds\<close>

definition dot_duration_us :: "KeyerConfig \<Rightarrow> nat" where
  "dot_duration_us c = 1200000 div unat (max (speed_wpm c) 1)"

text \<open>\<^verbatim>\<open>u8::saturating_add(1)\<close>.\<close>

definition sat_inc_u8 :: "u8 \<Rightarrow> u8" where
  "sat_inc_u8 w = (if w = 255 then 255 else w + 1)"

text \<open>The \<^verbatim>\<open>f64\<close> factors of the dah length: the dynamic ratio between 3.0 and 2.4, or the
  ratio given by the weight.\<close>

definition dynamic_ratio_f64 :: "KeyerConfig \<Rightarrow> fval" where
  "dynamic_ratio_f64 c =
     (let low = f64_of_int (uint (dynamic_ratio_low_wpm c));
          high = f64_of_int (uint (max (dynamic_ratio_high_wpm c)
                                       (sat_inc_u8 (dynamic_ratio_low_wpm c))));
          t = fl_clamp (Fin 0) (Fin 1)
                (f64_div (f64_sub (f64_of_int (uint (speed_wpm c))) low) (f64_sub high low))
      in f64_sub (Fin 3) (f64_mul (f64_round (6/10)) t))"

definition weight_ratio_f64 :: "KeyerConfig \<Rightarrow> fval" where
  "weight_ratio_f64 c =
     (let w = f64_div (f64_of_int (uint (weight c))) (Fin 50)
      in f64_add (Fin 1) (f64_mul (Fin 2) w))"

definition dash_duration_us :: "KeyerConfig \<Rightarrow> nat" where
  "dash_duration_us c =
     (let dot = f64_of_int (int (dot_duration_us c))
      in if dynamic_ratio c \<and> speed_wpm c > dynamic_ratio_low_wpm c
         then f64_as_u32 (f64_mul dot (dynamic_ratio_f64 c))
         else f64_as_u32 (f64_mul dot (weight_ratio_f64 c)))"

definition effective_dot_duration_us :: "KeyerConfig \<Rightarrow> nat" where
  "effective_dot_duration_us c = dot_duration_us c + unat (keying_compensation_ms c) * 1000"

definition effective_dash_duration_us :: "KeyerConfig \<Rightarrow> nat" where
  "effective_dash_duration_us c = dash_duration_us c + unat (keying_compensation_ms c) * 1000"

definition element_gap_us :: "KeyerConfig \<Rightarrow> nat" where
  "element_gap_us c = dot_duration_us c"

definition farnsworth_gap_unit_us :: "KeyerConfig \<Rightarrow> nat option" where
  "farnsworth_gap_unit_us c =
     (if farnsworth_wpm c = 0 \<or> farnsworth_wpm c \<ge> speed_wpm c then None
      else let t_char = f64_div (Fin 1200000) (f64_of_int (uint (speed_wpm c)));
               t_total = f64_div (Fin 1200000) (f64_of_int (uint (farnsworth_wpm c)));
               gap_unit = f64_div (f64_sub (f64_mul (Fin 50) t_total) (f64_mul (Fin 31) t_char))
                            (Fin 19)
           in Some (f64_as_u32 (fl_max gap_unit t_char)))"

definition letter_gap_us :: "KeyerConfig \<Rightarrow> nat" where
  "letter_gap_us c =
     (case farnsworth_gap_unit_us c of
        Some gap_unit \<Rightarrow> gap_unit * 3
      | None \<Rightarrow> dot_duration_us c * 3)"

definition word_gap_us :: "KeyerConfig \<Rightarrow> nat" where
  "word_gap_us c =
     (case farnsworth_gap_unit_us c of
        Some gap_unit \<Rightarrow> gap_unit * 7
      | None \<Rightarrow> dot_duration_us c * 7)"

section \<open>Millisecond getters\<close>

definition dot_duration_ms :: "KeyerConfig \<Rightarrow> nat" where
  "dot_duration_ms c = dot_duration_us c div 1000"

definition dash_duration_ms :: "KeyerConfig \<Rightarrow> nat" where
  "dash_duration_ms c = dash_duration_us c div 1000"

definition effective_dot_duration_ms :: "KeyerConfig \<Rightarrow> nat" where
  "effective_dot_duration_ms c = effective_dot_duration_us c div 1000"

definition effective_dash_duration_ms :: "KeyerConfig \<Rightarrow> nat" where
  "effective_dash_duration_ms c = effective_dash_duration_us c div 1000"

definition element_gap_ms :: "KeyerConfig \<Rightarrow> nat" where
  "element_gap_ms c = element_gap_us c div 1000"

definition letter_gap_ms :: "KeyerConfig \<Rightarrow> nat" where
  "letter_gap_ms c = letter_gap_us c div 1000"

definition word_gap_ms :: "KeyerConfig \<Rightarrow> nat" where
  "word_gap_ms c = word_gap_us c div 1000"

section \<open>Bounds of the durations\<close>

lemma dot_duration_le: "dot_duration_us c \<le> 1200000"
  by (simp add: dot_duration_us_def div_le_dividend)

lemma dot_duration_pos: "0 < dot_duration_us c"
proof -
  have "unat (max (speed_wpm c) 1) < 256" using unsigned_less [of "max (speed_wpm c) 1", where 'a = nat] by simp
  moreover have "0 < unat (max (speed_wpm c) 1)"
    by (auto simp: max_def unat_gt_0)
  ultimately show ?thesis by (simp add: dot_duration_us_def div_greater_zero_iff)
qed

lemma uint_u8_bounds: "0 \<le> uint (w :: u8)" "uint w \<le> 255"
  using uint_lt2p [of w] by simp_all

lemma f64_of_u8: "f64_of_int (uint (w :: u8)) = Fin (unsigned w)"
  using uint_u8_bounds [of w] f64_of_int_exact [of "uint w"] by simp

lemma unsigned_u8_bounds: "0 \<le> (unsigned (w :: u8) :: rat)" "(unsigned (w :: u8) :: rat) \<le> 255"
  using uint_u8_bounds [of w, unfolded of_int_le_iff [where 'a = rat, symmetric]] by simp_all

text \<open>A product of a duration and a ratio between two integers, cast to \<^verbatim>\<open>u32\<close>.\<close>

lemma f64_mul_as_u32_between:
  assumes d: "d \<le> 1200000" and lo: "rat_of_nat lo \<le> rat_of_nat d * \<rho>"
    and hi: "rat_of_nat d * \<rho> \<le> rat_of_nat hi" "hi < 2 ^ 32"
  shows "lo \<le> f64_as_u32 (f64_mul (f64_of_int (int d)) (Fin \<rho>))
    \<and> f64_as_u32 (f64_mul (f64_of_int (int d)) (Fin \<rho>)) \<le> hi"
proof -
  have dot: "f64_of_int (int d) = Fin (rat_of_nat d)"
    using d f64_of_int_exact [of "int d"] by simp
  have lohi: "lo \<le> hi" using lo hi(1) by (metis of_nat_le_iff order.trans)
  obtain y where y: "f64_round (rat_of_nat d * \<rho>) = Fin y" "of_int (int lo) \<le> y" "y \<le> of_int (int hi)"
    using f64_round_between_int [of "int lo" "rat_of_nat d * \<rho>" "int hi"] lo hi lohi by auto
  have "int lo \<le> trunc y \<and> trunc y \<le> int hi" using y(2,3) by (rule trunc_between)
  with hi show ?thesis by (auto simp: dot y(1) f64_as_u32_def nat_le_iff le_nat_iff)
qed

lemma weight_ratio_bounds: "\<exists>\<rho>. weight_ratio_f64 c = Fin \<rho> \<and> 1 \<le> \<rho> \<and> \<rho> \<le> 13"
proof -
  let ?w = "unsigned (weight c) :: rat"
  have "0 \<le> ?w / 50" "?w / 50 \<le> 6"
    using unsigned_u8_bounds [of "weight c"] by simp_all
  then obtain q where q: "f64_round (?w / 50) = Fin q" "0 \<le> q" "q \<le> 6"
    using f64_round_between_int [of 0 "?w / 50" 6] by auto
  obtain r where r: "f64_round (2 * q) = Fin r" "0 \<le> r" "r \<le> 12"
    using f64_round_between_int [of 0 "2 * q" 12] q by auto
  obtain z where z: "f64_round (1 + r) = Fin z" "1 \<le> z" "z \<le> 13"
    using f64_round_between_int [of 1 "1 + r" 13] r by auto
  show ?thesis by (simp add: weight_ratio_f64_def f64_of_u8 q(1) r(1) z)
qed

lemma weight_ratio_50: "weight c = 50 \<Longrightarrow> weight_ratio_f64 c = Fin 3"
  using f64_of_int_exact [of 50] f64_round_of_int [of 1] f64_round_of_int [of 2] f64_round_of_int [of 3]
  by (simp add: weight_ratio_f64_def)

text \<open>The literal 0.6 and the smallest ratio, 3.0 - 0.6, as \<^verbatim>\<open>f64\<close> values.\<close>

lemma f64_six_tenths: "f64_round (6 / 10) = Fin (5404319552844595 / 9007199254740992)"
  by code_simp

lemma f64_two_point_four: "f64_round (3 - 5404319552844595 / 9007199254740992)
    = Fin (5404319552844595 / 2251799813685248)"
  by code_simp

lemma on_grid_f64_dyadic: "\<bar>m\<bar> < 2 ^ 53 \<Longrightarrow> k \<le> 1000 \<Longrightarrow> on_grid 53 (- 1074) (of_int m / 2 ^ k)"
  unfolding on_grid_def
  by (intro exI [of _ m] exI [of _ "- int k"]) (simp add: power_int_minus field_simps)

lemma f64_round_between:
  "a \<le> x \<Longrightarrow> x \<le> b \<Longrightarrow> on_grid 53 (- 1074) a \<Longrightarrow> on_grid 53 (- 1074) b \<Longrightarrow>
    \<bar>a\<bar> < 2 powi 1024 \<Longrightarrow> \<bar>b\<bar> < 2 powi 1024 \<Longrightarrow>
    \<exists>y. f64_round x = Fin y \<and> a \<le> y \<and> y \<le> b"
  unfolding f64_round_def by (rule fl_round_between) (auto simp: abs_less_iff)

lemma fl_clamp_unit: "\<exists>t. fl_clamp (Fin 0) (Fin 1) (Fin x) = Fin t \<and> 0 \<le> t \<and> t \<le> 1"
  by (auto simp: fl_clamp_def Let_def)

lemma word_le_255: "(w :: u8) \<le> 255"
  using uint_u8_bounds [of w] by (simp add: word_le_def)

lemma sat_inc_u8_gt: "w < 255 \<Longrightarrow> w < sat_inc_u8 w"
  using uint_u8_bounds [of w] by (auto simp: sat_inc_u8_def word_less_def uint_word_ariths)

lemma dynamic_ratio_bounds:
  assumes "speed_wpm c > dynamic_ratio_low_wpm c"
  shows "\<exists>\<rho>. dynamic_ratio_f64 c = Fin \<rho> \<and> 5404319552844595 / 2251799813685248 \<le> \<rho> \<and> \<rho> \<le> 3"
proof -
  define s l h where "s = uint (speed_wpm c)" and "l = uint (dynamic_ratio_low_wpm c)"
    and "h = uint (max (dynamic_ratio_high_wpm c) (sat_inc_u8 (dynamic_ratio_low_wpm c)))"
  have low: "dynamic_ratio_low_wpm c < 255"
    using assms by (rule less_le_trans) (rule word_le_255)
  have lh: "l < h"
    using sat_inc_u8_gt [OF low] by (auto simp: l_def h_def max_def word_less_def word_le_def)
  have ls: "l < s" using assms by (simp add: l_def s_def word_less_def)
  have range: "0 \<le> l" "s \<le> 255" "h \<le> 255" by (simp_all only: l_def s_def h_def uint_u8_bounds)
  define a b where "a = rat_of_int s - rat_of_int l" and "b = rat_of_int h - rat_of_int l"
  have sub: "f64_round a = Fin a" "f64_round b = Fin b"
    using f64_round_of_int [of "s - l"] f64_round_of_int [of "h - l"] range ls lh
    by (auto simp: a_def b_def)
  have f64: "f64_of_int s = Fin (of_int s)" "f64_of_int l = Fin (of_int l)" "f64_of_int h = Fin (of_int h)"
    using range ls lh by (auto intro!: f64_of_int_exact)
  have sl: "0 < a" "a \<le> 255" "1 \<le> b"
    using ls lh range of_int_le_iff [of "s - l" 255, where 'a = rat] of_int_le_iff [of 1 "h - l", where 'a = rat]
    by (simp_all add: a_def b_def)
  have "a / b \<le> a / 1"
    using sl by (intro divide_left_mono) auto
  then obtain x where x: "f64_round (a / b) = Fin x"
    using f64_round_between_int [of 0 "a / b" 255] sl by auto
  obtain t where t: "fl_clamp (Fin 0) (Fin 1) (Fin x) = Fin t" "0 \<le> t" "t \<le> 1"
    using fl_clamp_unit by blast
  let ?k = "5404319552844595 / 9007199254740992 :: rat"
  have grid: "on_grid 53 (- 1074) ?k" "on_grid 53 (- 1074) (0::rat)"
    using on_grid_f64_dyadic [of 5404319552844595 53] on_grid_f64_dyadic [of 0 0] by simp_all
  have p1024: "(4::rat) < 2 powi 1024" using powi2_less_iff [of 2 1024] by simp
  have "0 \<le> ?k * t" using t(2) by simp
  moreover have "?k * t \<le> ?k" using t(3) by simp
  ultimately obtain m where m: "f64_round (?k * t) = Fin m" "0 \<le> m" "m \<le> ?k"
    using f64_round_between [of 0 "?k * t" ?k] grid p1024 by fastforce
  obtain \<rho>0 where r0: "f64_round (3 - ?k) = Fin \<rho>0" "\<rho>0 = 5404319552844595 / 2251799813685248"
    using f64_two_point_four by blast
  have g24: "on_grid 53 (- 1074) (5404319552844595 / 2251799813685248)" "on_grid 53 (- 1074) (3 :: rat)"
    using on_grid_f64_dyadic [of 5404319552844595 51] on_grid_f64_dyadic [of 3 0] by simp_all
  have "5404319552844595 / 2251799813685248 \<le> 3 - m" "3 - m \<le> (3::rat)" using m by simp_all
  then obtain z where z: "f64_round (3 - m) = Fin z" "5404319552844595 / 2251799813685248 \<le> z" "z \<le> 3"
    using f64_round_between [of "5404319552844595 / 2251799813685248" "3 - m" 3] g24 p1024
    by fastforce
  have "dynamic_ratio_f64 c = Fin z"
    using sl(3) ls lh range
    by (simp add: dynamic_ratio_f64_def f64 sub x t(1) f64_six_tenths [simplified] m(1) [simplified] z(1)
        flip: s_def l_def h_def a_def b_def)
  then show ?thesis using z by blast
qed

theorem dash_duration_weighted:
  assumes "\<not> (dynamic_ratio c \<and> speed_wpm c > dynamic_ratio_low_wpm c)"
  shows "dot_duration_us c \<le> dash_duration_us c \<and> dash_duration_us c \<le> 13 * dot_duration_us c"
proof -
  obtain \<rho> where r: "weight_ratio_f64 c = Fin \<rho>" "1 \<le> \<rho>" "\<rho> \<le> 13"
    using weight_ratio_bounds by blast
  define d where "d = dot_duration_us c"
  have d: "d \<le> 1200000" by (simp add: d_def dot_duration_le)
  have "rat_of_nat d * 1 \<le> rat_of_nat d * \<rho>" "rat_of_nat d * \<rho> \<le> rat_of_nat d * 13"
    using r by (intro mult_left_mono; simp)+
  then have "d \<le> f64_as_u32 (f64_mul (f64_of_int (int d)) (Fin \<rho>))
      \<and> f64_as_u32 (f64_mul (f64_of_int (int d)) (Fin \<rho>)) \<le> 13 * d"
    using d by (intro f64_mul_as_u32_between) (auto simp: mult.commute)
  with assms show ?thesis by (auto simp: dash_duration_us_def r(1) d_def)
qed

theorem dash_duration_standard_weight:
  assumes "\<not> (dynamic_ratio c \<and> speed_wpm c > dynamic_ratio_low_wpm c)" and "weight c = 50"
  shows "dash_duration_us c = 3 * dot_duration_us c"
proof -
  define d where "d = dot_duration_us c"
  have "d \<le> 1200000" by (simp add: d_def dot_duration_le)
  then have "3 * d \<le> f64_as_u32 (f64_mul (f64_of_int (int d)) (Fin 3))
      \<and> f64_as_u32 (f64_mul (f64_of_int (int d)) (Fin 3)) \<le> 3 * d"
    by (intro f64_mul_as_u32_between) auto
  then have "f64_as_u32 (f64_mul (f64_of_int (int d)) (Fin 3)) = 3 * d" by simp
  with assms show ?thesis by (auto simp: dash_duration_us_def weight_ratio_50 d_def)
qed

theorem dash_duration_dynamic:
  assumes "dynamic_ratio c" and "speed_wpm c > dynamic_ratio_low_wpm c"
  shows "12 * dot_duration_us c div 5 - 1 \<le> dash_duration_us c
    \<and> dash_duration_us c \<le> 3 * dot_duration_us c"
proof -
  obtain \<rho> where r: "dynamic_ratio_f64 c = Fin \<rho>" "5404319552844595 / 2251799813685248 \<le> \<rho>" "\<rho> \<le> 3"
    using dynamic_ratio_bounds [OF assms(2)] by blast
  define d where "d = dot_duration_us c"
  have d: "d \<le> 1200000" "0 < d" by (simp_all add: d_def dot_duration_le dot_duration_pos)
  define k where "k = 12 * d div 5 - 1"
  have k: "5 * k + 5 \<le> 12 * d" unfolding k_def using d by (cases "12 * d div 5") auto
  have "rat_of_nat k \<le> rat_of_nat d * (5404319552844595 / 2251799813685248)"
  proof -
    have "rat_of_nat (5 * k + 5) \<le> rat_of_nat (12 * d)" using k by (simp only: of_nat_le_iff)
    moreover have "rat_of_nat d \<le> 1200000" using of_nat_le_iff [of d 1200000, where 'a = rat] d by simp
    ultimately show ?thesis by simp
  qed
  also have "\<dots> \<le> rat_of_nat d * \<rho>" using r by (intro mult_left_mono) auto
  finally have lo: "rat_of_nat k \<le> rat_of_nat d * \<rho>" .
  have "rat_of_nat d * \<rho> \<le> rat_of_nat d * 3" using r by (intro mult_left_mono) auto
  with lo have "k \<le> f64_as_u32 (f64_mul (f64_of_int (int d)) (Fin \<rho>))
      \<and> f64_as_u32 (f64_mul (f64_of_int (int d)) (Fin \<rho>)) \<le> 3 * d"
    using d by (intro f64_mul_as_u32_between) (auto simp: mult.commute)
  with assms show ?thesis by (auto simp: dash_duration_us_def r(1) d_def k_def)
qed

section \<open>Farnsworth spacing\<close>

lemma farnsworth_unit:
  assumes f: "farnsworth_wpm c \<noteq> 0" "farnsworth_wpm c < speed_wpm c"
  shows "\<exists>g. farnsworth_gap_unit_us c = Some g \<and> dot_duration_us c \<le> g \<and> g \<le> 3200000 \<and>
    \<bar>31 * (1200000 / unsigned (speed_wpm c)) + 19 * rat_of_nat g
      - 50 * (1200000 / unsigned (farnsworth_wpm c))\<bar> < 20"
proof -
  define s f where "s = (unsigned (speed_wpm c) :: rat)" and "f = (unsigned (farnsworth_wpm c) :: rat)"
  have "0 < uint (farnsworth_wpm c)" using f(1) by (metis uint_0_iff uint_nonnegative order_le_less)
  with f(2) have su: "1 \<le> uint (farnsworth_wpm c)" "uint (farnsworth_wpm c) + 1 \<le> uint (speed_wpm c)"
    by (simp_all add: word_less_def)
  then have sf: "1 \<le> f" "f + 1 \<le> s" "s \<le> 255"
    unfolding s_def f_def
    using uint_u8_bounds(2) [of "speed_wpm c"] 
    by (simp_all flip: of_int_le_iff [where 'a = rat])
  define C T where "C = 1200000 / s" and "T = 1200000 / f"
  have CT: "0 < C" "T \<le> 1200000" "C \<le> 600000"
    using sf by (auto simp: C_def T_def divide_le_eq)
  have "1 \<le> 1200000 / (255 * 255 :: rat)" by simp
  also have "\<dots> \<le> 1200000 / (s * f)" using sf by (intro divide_left_mono mult_mono) auto
  also have "\<dots> \<le> 1200000 * (s - f) / (s * f)" using sf by (intro divide_right_mono) auto
  also have "\<dots> = T - C" using sf by (simp add: C_def T_def field_simps)
  finally have TC: "1 \<le> T - C" .
  obtain tc where tc: "f64_round C = Fin tc" "C - 1 / 100000 \<le> tc" "tc \<le> C + 1 / 100000"
    using f64_round_close [of C] CT by auto
  obtain tt where tt: "f64_round T = Fin tt" "T - 1 / 100000 \<le> tt" "tt \<le> T + 1 / 100000"
    using f64_round_close [of T] CT TC by auto
  have "- (2 ^ 26) < 50 * tt" "50 * tt < 2 ^ 26" using CT TC tt by simp_all
  then obtain a where a: "f64_round (50 * tt) = Fin a" "50 * tt - 1 / 100000 \<le> a" "a \<le> 50 * tt + 1 / 100000"
    using f64_round_close by blast
  have "- (2 ^ 26) < 31 * tc" "31 * tc < 2 ^ 26" using CT TC tc by simp_all
  then obtain b where b: "f64_round (31 * tc) = Fin b" "31 * tc - 1 / 100000 \<le> b" "b \<le> 31 * tc + 1 / 100000"
    using f64_round_close by blast
  have "- (2 ^ 26) < a - b" "a - b < 2 ^ 26" using CT TC tc tt a b by simp_all
  then obtain d where d: "f64_round (a - b) = Fin d" "a - b - 1 / 100000 \<le> d" "d \<le> a - b + 1 / 100000"
    using f64_round_close by blast
  have "- (2 ^ 26) < d / 19" "d / 19 < 2 ^ 26" using CT TC tc tt a b d by simp_all
  then obtain g where g: "f64_round (d / 19) = Fin g" "d / 19 - 1 / 100000 \<le> g" "g \<le> d / 19 + 1 / 100000"
    using f64_round_close by blast
  have err: "19 * g + 31 * C - 50 * T \<le> 1 / 100" "- 1 / 100 \<le> 19 * g + 31 * C - 50 * T"
    using tc tt a b d g by simp_all
  have gt: "tc < g" "C < g" "g \<le> 3200000" using err TC CT tc by simp_all
  define n where "n = f64_as_u32 (Fin g)"
  have dot: "rat_of_nat (dot_duration_us c) \<le> C"
  proof -
    have m: "max (speed_wpm c) 1 = speed_wpm c"
      using su by (simp add: max_def word_le_def)
    have s: "s = rat_of_nat (unat (speed_wpm c))" by (simp add: s_def)
    have "dot_duration_us c * unat (speed_wpm c) \<le> 1200000"
      by (simp add: dot_duration_us_def m)
    then have "rat_of_nat (dot_duration_us c * unat (speed_wpm c)) \<le> rat_of_nat 1200000"
      by (simp only: of_nat_le_iff)
    then have "rat_of_nat (dot_duration_us c) * s \<le> 1200000" unfolding s by simp
    then show ?thesis using sf by (simp add: C_def le_divide_eq)
  qed
  have tr: "int (dot_duration_us c) \<le> trunc g \<and> trunc g \<le> 3200000"
    using dot gt by (intro trunc_between) auto
  have gpos: "0 \<le> g" using gt CT by simp
  have n: "n = nat (trunc g)" "0 \<le> trunc g" using tr by (auto simp: n_def f64_as_u32_def)
  then have ng: "rat_of_nat n \<le> g" "g < rat_of_nat n + 1"
    using trunc_bounds [OF gpos] by simp_all
  have "farnsworth_gap_unit_us c = Some n"
    using f gt(1) sf
    by (simp add: farnsworth_gap_unit_us_def f64_of_u8 not_le fl_max_def n_def
        tc(1) [unfolded C_def] tt(1) [unfolded T_def] a(1) b(1) d(1) g(1) flip: s_def f_def)
  moreover have "dot_duration_us c \<le> n" "n \<le> 3200000" using tr n by auto
  moreover have "\<bar>31 * C + 19 * rat_of_nat n - 50 * T\<bar> < 20"
    using err ng by (simp add: abs_less_iff)
  ultimately show ?thesis by (simp add: C_def T_def s_def f_def)
qed
lemma farnsworth_unit_Some:
  assumes "farnsworth_gap_unit_us c = Some g"
  shows "dot_duration_us c \<le> g" "g \<le> 3200000"
proof -
  from assms have "farnsworth_wpm c \<noteq> 0" "farnsworth_wpm c < speed_wpm c"
    by (auto simp: farnsworth_gap_unit_us_def split: if_splits)
  from farnsworth_unit [OF this] assms show "dot_duration_us c \<le> g" "g \<le> 3200000" by auto
qed

lemma letter_gap_bounds: "3 * dot_duration_us c \<le> letter_gap_us c" "letter_gap_us c \<le> 9600000"
  using dot_duration_le [of c] farnsworth_unit_Some [of c]
  by (auto simp: letter_gap_us_def split: option.splits)

lemma word_gap_bounds: "7 * dot_duration_us c \<le> word_gap_us c" "word_gap_us c \<le> 22400000"
  using dot_duration_le [of c] farnsworth_unit_Some [of c]
  by (auto simp: word_gap_us_def split: option.splits)

lemma dash_duration_le: "dash_duration_us c \<le> 15600000"
  using dash_duration_weighted [of c] dash_duration_dynamic [of c] dot_duration_le [of c]
  by (cases "dynamic_ratio c \<and> speed_wpm c > dynamic_ratio_low_wpm c") auto

lemma keying_compensation_le: "unat (keying_compensation_ms c) * 1000 \<le> 255000"
  using unsigned_less [of "keying_compensation_ms c", where 'a = nat] by simp

lemma effective_duration_le:
  "effective_dot_duration_us c \<le> 1455000" "effective_dash_duration_us c \<le> 15855000"
  using dot_duration_le [of c] dash_duration_le [of c] keying_compensation_le [of c]
  by (simp_all add: effective_dot_duration_us_def effective_dash_duration_us_def)

text \<open>Every sum and product of the \<^verbatim>\<open>u32\<close> arithmetic is exact, whatever the configuration.\<close>

lemma durations_fit_u32:
  "dot_duration_us c * 7 < 2 ^ 32" "effective_dot_duration_us c < 2 ^ 32" "effective_dash_duration_us c < 2 ^ 32"
  "farnsworth_gap_unit_us c = Some g \<Longrightarrow> g * 7 < 2 ^ 32"
  using dot_duration_le [of c] effective_duration_le [of c] farnsworth_unit_Some(2) [of c g] by simp_all

end
