(* ===== verification/Keyer_Morse.thy ===== *)
theory Keyer_Morse
  imports Keyer_Config
begin

text \<open>
  \<^verbatim>\<open>crates/radio-utils-keyer/src/morse.rs\<close>: the ITU code table and the conversion of text to
  the element sequence the keyer sends. \<open>text_elements_spec\<close> is an independent description
  (letters joined by letter gaps, words joined by word gaps), and \<open>text_to_elements_correct\<close>
  shows that the loop of the code, with its pops of trailing gaps, computes it.
\<close>

datatype MorseElement = Dit | Dash | ElementGap | LetterGap | WordGap

definition MORSE_TABLE :: "(rchar \<times> string) list" where
  "MORSE_TABLE = map (\<lambda>(c, m). (of_char c, m))
    [(CHR ''A'', ''.-''),
     (CHR ''B'', ''-...''),
     (CHR ''C'', ''-.-.''),
     (CHR ''D'', ''-..''),
     (CHR ''E'', ''.''),
     (CHR ''F'', ''..-.''),
     (CHR ''G'', ''--.''),
     (CHR ''H'', ''....''),
     (CHR ''I'', ''..''),
     (CHR ''J'', ''.---''),
     (CHR ''K'', ''-.-''),
     (CHR ''L'', ''.-..''),
     (CHR ''M'', ''--''),
     (CHR ''N'', ''-.''),
     (CHR ''O'', ''---''),
     (CHR ''P'', ''.--.''),
     (CHR ''Q'', ''--.-''),
     (CHR ''R'', ''.-.''),
     (CHR ''S'', ''...''),
     (CHR ''T'', ''-''),
     (CHR ''U'', ''..-''),
     (CHR ''V'', ''...-''),
     (CHR ''W'', ''.--''),
     (CHR ''X'', ''-..-''),
     (CHR ''Y'', ''-.--''),
     (CHR ''Z'', ''--..''),
     (CHR ''0'', ''-----''),
     (CHR ''1'', ''.----''),
     (CHR ''2'', ''..---''),
     (CHR ''3'', ''...--''),
     (CHR ''4'', ''....-''),
     (CHR ''5'', ''.....''),
     (CHR ''6'', ''-....''),
     (CHR ''7'', ''--...''),
     (CHR ''8'', ''---..''),
     (CHR ''9'', ''----.''),
     (CHR ''.'', ''.-.-.-''),
     (CHR '','', ''--..--''),
     (CHR ''?'', ''..--..''),
     (CHR 0x27, ''.----.''),
     (CHR ''!'', ''-.-.--''),
     (CHR ''/'', ''-..-.''),
     (CHR ''('', ''-.--.''),
     (CHR '')'', ''-.--.-''),
     (CHR ''&'', ''.-...''),
     (CHR '':'', ''---...''),
     (CHR '';'', ''-.-.-.''),
     (CHR ''='', ''-...-''),
     (CHR ''+'', ''.-.-.''),
     (CHR ''-'', ''-....-''),
     (CHR ''_'', ''..--.-''),
     (CHR 0x22, ''.-..-.''),
     (CHR ''$'', ''...-..-''),
     (CHR ''@'', ''.--.-.'')]"

text \<open>\<^verbatim>\<open>char::to_ascii_uppercase\<close>.\<close>

definition to_ascii_uppercase :: "rchar \<Rightarrow> rchar" where
  "to_ascii_uppercase c = (if 97 \<le> c \<and> c \<le> 122 then c - 32 else c)"

definition char_to_morse :: "rchar \<Rightarrow> string option" where
  "char_to_morse c =
     (let upper = to_ascii_uppercase c
      in map_option snd (find (\<lambda>(ch, _). ch = upper) MORSE_TABLE))"

text \<open>\<^verbatim>\<open>while elements.last() is a gap { elements.pop(); }\<close>\<close>

definition pop_while :: "('a \<Rightarrow> bool) \<Rightarrow> 'a list \<Rightarrow> 'a list" where
  "pop_while p xs = rev (dropWhile p (rev xs))"

definition is_letter_or_element_gap :: "MorseElement \<Rightarrow> bool" where
  "is_letter_or_element_gap e \<longleftrightarrow> e = LetterGap \<or> e = ElementGap"

fun push_symbols :: "nat \<Rightarrow> string \<Rightarrow> MorseElement list \<Rightarrow> MorseElement list" where
  "push_symbols i [] elements = elements"
| "push_symbols i (symbol # rest) elements =
     (let elements = (if i > 0 then elements @ [ElementGap] else elements);
          elements = (if symbol = CHR ''.'' then elements @ [Dit]
                      else if symbol = CHR ''-'' then elements @ [Dash]
                      else elements)
      in push_symbols (Suc i) rest elements)"

definition text_step :: "rchar \<Rightarrow> MorseElement list \<times> bool \<Rightarrow> MorseElement list \<times> bool" where
  "text_step c st =
     (let (elements, first_char) = st in
      if c = of_char (CHR '' '')
      then (pop_while is_letter_or_element_gap elements @ [WordGap], True)
      else case char_to_morse c of
        None \<Rightarrow> (elements, first_char)
      | Some pattern \<Rightarrow>
          let elements =
                (if first_char then elements
                 else (if elements \<noteq> [] \<and> last elements = ElementGap
                       then butlast elements else elements) @ [LetterGap])
          in (push_symbols 0 pattern elements, False))"

definition text_to_elements :: "rchar list \<Rightarrow> MorseElement list" where
  "text_to_elements text =
     pop_while is_letter_or_element_gap (fst (fold text_step text ([], True)))"

section \<open>What the element sequence should be\<close>

definition mark :: "char \<Rightarrow> MorseElement" where
  "mark symbol = (if symbol = CHR ''.'' then Dit else Dash)"

fun join :: "'a \<Rightarrow> 'a list list \<Rightarrow> 'a list" where
  "join sep [] = []"
| "join sep [x] = x"
| "join sep (x # y # ys) = x @ sep # join sep (y # ys)"

definition letter_elements :: "string \<Rightarrow> MorseElement list" where
  "letter_elements pattern = join ElementGap (map (\<lambda>s. [mark s]) pattern)"

definition word_elements :: "rchar list \<Rightarrow> MorseElement list" where
  "word_elements w = join LetterGap (map letter_elements (List.map_filter char_to_morse w))"

fun split_on :: "'a \<Rightarrow> 'a list \<Rightarrow> 'a list list" where
  "split_on sep [] = [[]]"
| "split_on sep (x # xs) =
     (if x = sep then [] # split_on sep xs
      else case split_on sep xs of w # ws \<Rightarrow> (x # w) # ws | [] \<Rightarrow> [[x]])"

definition text_elements_spec :: "rchar list \<Rightarrow> MorseElement list" where
  "text_elements_spec text = join WordGap (map word_elements (split_on (of_char (CHR '' '')) text))"

section \<open>The table\<close>

definition symbols_ok :: "string \<Rightarrow> bool" where
  "symbols_ok p \<longleftrightarrow> p \<noteq> [] \<and> list_all (\<lambda>s. s = CHR ''.'' \<or> s = CHR ''-'') p"

lemma morse_table_patterns: "list_all (\<lambda>(c, p). symbols_ok p) MORSE_TABLE"
  by (simp add: MORSE_TABLE_def symbols_ok_def)

lemma morse_table_distinct: "distinct (map fst MORSE_TABLE)" "distinct (map snd MORSE_TABLE)"
  by (simp_all add: MORSE_TABLE_def)

lemma find_SomeD: "find P xs = Some x \<Longrightarrow> x \<in> set xs \<and> P x"
  by (induction xs) (auto split: if_splits)

lemma char_to_morse_table: "char_to_morse c = Some p \<Longrightarrow> (to_ascii_uppercase c, p) \<in> set MORSE_TABLE"
  by (auto simp: char_to_morse_def Let_def dest!: find_SomeD)

lemma char_to_morse_symbols: "char_to_morse c = Some p \<Longrightarrow> symbols_ok p"
  using morse_table_patterns char_to_morse_table by (fastforce simp: list_all_iff)

lemma morse_table_lookup: "(c, p) \<in> set MORSE_TABLE \<Longrightarrow> char_to_morse c = Some p \<and> to_ascii_uppercase c = c"
proof -
  have up: "list_all (\<lambda>(c, p). to_ascii_uppercase c = c) MORSE_TABLE"
    by (simp add: MORSE_TABLE_def to_ascii_uppercase_def)
  assume cp: "(c, p) \<in> set MORSE_TABLE"
  with up have c: "to_ascii_uppercase c = c" by (auto simp: list_all_iff)
  have "find (\<lambda>(ch, _). ch = c) MORSE_TABLE \<noteq> None"
    using cp by (auto simp: find_None_iff)
  then obtain c' p' where f: "find (\<lambda>(ch, _). ch = c) MORSE_TABLE = Some (c', p')" by auto
  then have "c' = c" "(c', p') \<in> set MORSE_TABLE" by (auto dest!: find_SomeD)
  with cp morse_table_distinct(1) have "p' = p" by (metis eq_key_imp_eq_value)
  with f c show ?thesis by (simp add: char_to_morse_def)
qed

lemma char_to_morse_injective:
  assumes "char_to_morse a = Some p" "char_to_morse b = Some p"
  shows "to_ascii_uppercase a = to_ascii_uppercase b"
proof -
  let ?T = "map (\<lambda>(c, p). (p, c)) MORSE_TABLE"
  from assms [THEN char_to_morse_table]
  have "(p, to_ascii_uppercase a) \<in> set ?T" "(p, to_ascii_uppercase b) \<in> set ?T"
    by (force simp: image_iff)+
  moreover have "distinct (map fst ?T)"
    using morse_table_distinct(2) by (simp add: comp_def case_prod_beta)
  ultimately show ?thesis by (metis eq_key_imp_eq_value)
qed

section \<open>The loop computes the description\<close>

definition no_gap_end :: "MorseElement list \<Rightarrow> bool" where
  "no_gap_end es \<longleftrightarrow> es = [] \<or> \<not> is_letter_or_element_gap (last es)"

lemma pop_while_no_gap: "no_gap_end es \<Longrightarrow> pop_while is_letter_or_element_gap es = es"
  by (cases es rule: rev_cases) (auto simp: no_gap_end_def pop_while_def)

lemma join_snoc: "join sep (xs @ [x]) = (if xs = [] then x else join sep xs @ sep # x)"
  by (induction sep xs rule: join.induct) auto

lemma join_no_gap:
  "list_all no_gap_end xs \<Longrightarrow> \<not> is_letter_or_element_gap sep \<or> list_all (\<lambda>x. x \<noteq> []) xs \<Longrightarrow>
    no_gap_end (join sep xs)"
  by (induction xs rule: rev_induct) (auto simp: join_snoc no_gap_end_def)

lemma push_symbols_Suc:
  "list_all (\<lambda>s. s = CHR ''.'' \<or> s = CHR ''-'') p \<Longrightarrow>
    push_symbols (Suc i) p es = es @ concat (map (\<lambda>s. [ElementGap, mark s]) p)"
  by (induction p arbitrary: i es) (auto simp: mark_def)

lemma letter_elements_Cons:
  "letter_elements (s # p) = mark s # concat (map (\<lambda>s. [ElementGap, mark s]) p)"
  by (induction p arbitrary: s) (simp_all add: letter_elements_def)

lemma push_symbols_letter: "symbols_ok p \<Longrightarrow> push_symbols 0 p es = es @ letter_elements p"
  by (cases p) (auto simp: symbols_ok_def push_symbols_Suc letter_elements_Cons mark_def)

lemma letter_elements_no_gap:
  "symbols_ok p \<Longrightarrow> letter_elements p \<noteq> [] \<and> no_gap_end (letter_elements p)"
  by (cases p rule: rev_cases)
    (auto simp: symbols_ok_def letter_elements_def join_snoc no_gap_end_def
      is_letter_or_element_gap_def mark_def)

lemma encodable_symbols: "p \<in> set (List.map_filter char_to_morse w) \<Longrightarrow> symbols_ok p"
  by (auto simp: map_filter_def char_to_morse_symbols)

lemma word_elements_no_gap: "no_gap_end (word_elements w)"
  unfolding word_elements_def
  by (rule join_no_gap) (auto simp: list_all_iff dest!: encodable_symbols letter_elements_no_gap)

lemma word_elements_empty: "word_elements w = [] \<longleftrightarrow> List.map_filter char_to_morse w = []"
proof (cases "List.map_filter char_to_morse w" rule: rev_cases)
  case (snoc ps p)
  then have "symbols_ok p" using encodable_symbols [of p w] by simp
  with letter_elements_no_gap [of p] show ?thesis
    by (auto simp: snoc word_elements_def join_snoc)
qed (simp add: word_elements_def)

lemma word_elements_snoc:
  "word_elements (w @ [c]) =
     (case char_to_morse c of
        None \<Rightarrow> word_elements w
      | Some p \<Rightarrow> (if word_elements w = [] then letter_elements p
                  else word_elements w @ LetterGap # letter_elements p))"
  unfolding word_elements_empty
  by (auto simp: word_elements_def map_filter_def join_snoc split: option.splits)

lemma split_on_nonempty [simp]: "split_on sep xs \<noteq> []"
  by (cases xs) (auto split: list.splits)

lemma split_on_snoc:
  "split_on sep (xs @ [c]) =
     (if c = sep then split_on sep xs @ [[]]
      else butlast (split_on sep xs) @ [last (split_on sep xs) @ [c]])"
  by (induction xs) (auto split: list.splits)

lemma text_spec_no_gap: "no_gap_end (text_elements_spec t)"
  unfolding text_elements_spec_def
  by (rule join_no_gap) (auto simp: list_all_iff word_elements_no_gap is_letter_or_element_gap_def)

lemma text_loop_invariant:
  "fold text_step t ([], True) =
     (text_elements_spec t, word_elements (last (split_on (of_char (CHR '' '')) t)) = [])"
proof (induction t rule: rev_induct)
  case Nil
  show ?case by (simp add: text_elements_spec_def word_elements_def)
next
  case (snoc c t)
  let ?sp = "32 :: rchar"
  obtain ws w where ws: "split_on ?sp t = ws @ [w]"
    by (metis split_on_nonempty rev_exhaust)
  have spec: "text_elements_spec t = (if ws = [] then word_elements w
      else join WordGap (map word_elements ws) @ WordGap # word_elements w)"
    by (simp add: text_elements_spec_def ws join_snoc)
  have fold: "fold text_step (t @ [c]) ([], True)
      = text_step c (text_elements_spec t, word_elements (last (split_on ?sp t)) = [])"
    using snoc.IH by simp
  have "text_step c (text_elements_spec t, word_elements (last (split_on ?sp t)) = [])
      = (text_elements_spec (t @ [c]), word_elements (last (split_on ?sp (t @ [c]))) = [])"
  proof (cases "c = ?sp")
    case True
    then show ?thesis
      using text_spec_no_gap [of t]
      by (simp add: text_step_def pop_while_no_gap split_on_snoc text_elements_spec_def
          join_snoc word_elements_def)
  next
    case False
    have "text_elements_spec (t @ [c]) = (if ws = [] then word_elements (w @ [c])
        else join WordGap (map word_elements ws) @ WordGap # word_elements (w @ [c]))"
      using False by (simp add: text_elements_spec_def ws split_on_snoc join_snoc)
    moreover have "text_elements_spec t = [] \<or> last (text_elements_spec t) \<noteq> ElementGap"
      using text_spec_no_gap [of t] by (auto simp: no_gap_end_def is_letter_or_element_gap_def)
    moreover have "word_elements (w @ [c]) = [] \<longleftrightarrow> word_elements w = [] \<and> char_to_morse c = None"
      using letter_elements_no_gap char_to_morse_symbols [of c]
      by (auto simp: word_elements_snoc split: option.splits)
    ultimately show ?thesis
      using False char_to_morse_symbols [of c]
      by (auto simp: text_step_def split_on_snoc ws spec word_elements_snoc
          push_symbols_letter split: option.splits)
  qed
  with fold show ?case by simp
qed

lemma text_to_elements_spec: "text_to_elements t = text_elements_spec t"
  by (simp add: text_to_elements_def text_loop_invariant pop_while_no_gap text_spec_no_gap)

end
