(* ===== verification/Radio_Interfaces.thy ===== *)
theory Radio_Interfaces
  imports Radio_Prelude
begin

text \<open>
  The interfaces between components. \<open>evicting_log\<close> is the contract of every bounded buffer of
  the program (the keyer's transition ring, the decoder's history, the IQ accumulator, the
  loop-mode recorder): pushing keeps the most recent \<open>cap\<close> entries, oldest first.
  \<open>roundtrip_codec\<close> is the contract between an encoder and the decoder on the other side of a
  wire. The record \<open>deque_ops\<close> stands for the operations of \<^verbatim>\<open>heapless::Deque\<close>, a crate that
  is not part of the repository: it is an argument of the definitions that use it, and
  \<open>deque_laws\<close> is its documented behaviour.
\<close>

section \<open>Bounded logs that drop their oldest entries\<close>

locale evicting_log =
  fixes push :: "'a list \<Rightarrow> 's \<Rightarrow> 's"
    and contents :: "'s \<Rightarrow> 'a list"
    and cap :: "'s \<Rightarrow> nat"
    and valid :: "'s \<Rightarrow> bool"
  assumes push_contents: "valid s \<Longrightarrow> contents (push xs s) = keep_last (cap s) (contents s @ xs)"
    and push_cap: "valid s \<Longrightarrow> cap (push xs s) = cap s"
    and push_valid: "valid s \<Longrightarrow> valid (push xs s)"
begin

lemma push_bounded: "valid s \<Longrightarrow> length (contents (push xs s)) \<le> cap s"
  by (simp add: push_contents)

lemma push_push: "valid s \<Longrightarrow> contents (push ys (push xs s)) = contents (push (xs @ ys) s)"
  by (simp add: push_contents push_cap push_valid keep_last_append_keep_last)

lemma push_all:
  "valid s \<Longrightarrow> length (contents s) \<le> cap s \<Longrightarrow>
    contents (fold push xss s) = keep_last (cap s) (contents s @ concat xss)"
proof (induction xss arbitrary: s)
  case Nil
  then show ?case by simp
next
  case (Cons xs xss)
  have "length (contents (push xs s)) \<le> cap (push xs s)"
    using Cons.prems by (simp add: push_contents push_cap)
  with Cons have "contents (fold push xss (push xs s)) =
      keep_last (cap s) (contents (push xs s) @ concat xss)"
    by (simp add: push_cap push_valid)
  with Cons.prems show ?case by (simp add: push_contents keep_last_append_keep_last)
qed

lemma push_all_valid: "valid s \<Longrightarrow> valid (fold push xss s)"
  by (induction xss arbitrary: s) (simp_all add: push_valid)

lemma push_all_cap: "valid s \<Longrightarrow> cap (fold push xss s) = cap s"
  by (induction xss arbitrary: s) (simp_all add: push_valid push_cap)

lemma push_fits: "valid s \<Longrightarrow> length (contents s) + length xs \<le> cap s \<Longrightarrow>
    contents (push xs s) = contents s @ xs"
  by (simp add: push_contents)

lemma push_overflow: "valid s \<Longrightarrow> cap s \<le> length xs \<Longrightarrow>
    contents (push xs s) = keep_last (cap s) xs"
  by (simp add: push_contents keep_last_append_le)

end

section \<open>Encoders and decoders\<close>

locale roundtrip_codec =
  fixes enc :: "'a \<Rightarrow> 'b"
    and dec :: "'b \<Rightarrow> 'a option"
    and ok :: "'a \<Rightarrow> bool"
  assumes dec_enc: "ok x \<Longrightarrow> dec (enc x) = Some x"
begin

lemma enc_injective: "ok x \<Longrightarrow> ok y \<Longrightarrow> enc x = enc y \<Longrightarrow> x = y"
  by (metis dec_enc option.inject)

lemma enc_inj_on: "inj_on enc {x. ok x}"
  by (auto intro!: inj_onI dest: enc_injective)

lemma dec_all: "list_all ok xs \<Longrightarrow> List.map_filter (dec \<circ> enc) xs = xs"
  by (induction xs) (simp_all add: map_filter_simps dec_enc)

end

section \<open>The double-ended queue of the heapless crate\<close>

text \<open>\<open>dq_pop_front\<close> returns the removed element, \<open>dq_push_back\<close> whether it was accepted
  (\<^verbatim>\<open>Ok\<close>), \<open>dq_iter\<close> the elements from the front.\<close>

record ('a, 'd) deque_ops =
  dq_new :: 'd
  dq_len :: "'d \<Rightarrow> nat"
  dq_is_empty :: "'d \<Rightarrow> bool"
  dq_is_full :: "'d \<Rightarrow> bool"
  dq_pop_front :: "'d \<Rightarrow> 'a option \<times> 'd"
  dq_push_back :: "'a \<Rightarrow> 'd \<Rightarrow> bool \<times> 'd"
  dq_clear :: "'d \<Rightarrow> 'd"
  dq_iter :: "'d \<Rightarrow> 'a list"

definition deque_laws :: "('a, 'd) deque_ops \<Rightarrow> nat \<Rightarrow> bool" where
  "deque_laws D n \<longleftrightarrow>
     0 < n \<and>
     dq_iter D (dq_new D) = [] \<and>
     (\<forall>d. dq_len D d = length (dq_iter D d)) \<and>
     (\<forall>d. dq_is_empty D d = (dq_iter D d = [])) \<and>
     (\<forall>d. dq_is_full D d = (n \<le> length (dq_iter D d))) \<and>
     (\<forall>d. case dq_iter D d of
        [] \<Rightarrow> fst (dq_pop_front D d) = None \<and> dq_iter D (snd (dq_pop_front D d)) = []
      | x # xs \<Rightarrow> fst (dq_pop_front D d) = Some x \<and> dq_iter D (snd (dq_pop_front D d)) = xs) \<and>
     (\<forall>d x. if length (dq_iter D d) < n
        then fst (dq_push_back D x d) \<and> dq_iter D (snd (dq_push_back D x d)) = dq_iter D d @ [x]
        else \<not> fst (dq_push_back D x d) \<and> dq_iter D (snd (dq_push_back D x d)) = dq_iter D d) \<and>
     (\<forall>d. dq_iter D (dq_clear D d) = [])"

text \<open>A list with a capacity satisfies the laws; the witnesses run the model with it.\<close>

definition list_deque :: "nat \<Rightarrow> ('a, 'a list) deque_ops" where
  "list_deque n = \<lparr>
     dq_new = [],
     dq_len = length,
     dq_is_empty = (\<lambda>d. d = []),
     dq_is_full = (\<lambda>d. n \<le> length d),
     dq_pop_front = (\<lambda>d. case d of [] \<Rightarrow> (None, []) | x # xs \<Rightarrow> (Some x, xs)),
     dq_push_back = (\<lambda>x d. if length d < n then (True, d @ [x]) else (False, d)),
     dq_clear = (\<lambda>_. []),
     dq_iter = (\<lambda>d. d)\<rparr>"

lemma list_deque_laws: "0 < n \<Longrightarrow> deque_laws (list_deque n) n"
  by (auto simp: deque_laws_def list_deque_def split: list.splits)

lemma deque_lawsD:
  assumes "deque_laws D n"
  shows "0 < n"
    and "dq_iter D (dq_new D) = []"
    and "dq_len D d = length (dq_iter D d)"
    and "dq_is_empty D d = (dq_iter D d = [])"
    and "dq_is_full D d = (n \<le> length (dq_iter D d))"
    and "dq_iter D (dq_clear D d) = []"
    and "length (dq_iter D d) < n \<Longrightarrow> dq_iter D (snd (dq_push_back D x d)) = dq_iter D d @ [x]"
    and "dq_iter D (snd (dq_pop_front D d)) = tl (dq_iter D d)"
    and "fst (dq_pop_front D d) = (case dq_iter D d of [] \<Rightarrow> None | x # xs \<Rightarrow> Some x)"
proof -
  from assms have pop: "case dq_iter D d of
        [] \<Rightarrow> fst (dq_pop_front D d) = None \<and> dq_iter D (snd (dq_pop_front D d)) = []
      | x # xs \<Rightarrow> fst (dq_pop_front D d) = Some x \<and> dq_iter D (snd (dq_pop_front D d)) = xs"
    and push: "if length (dq_iter D d) < n
        then fst (dq_push_back D x d) \<and> dq_iter D (snd (dq_push_back D x d)) = dq_iter D d @ [x]
        else \<not> fst (dq_push_back D x d) \<and> dq_iter D (snd (dq_push_back D x d)) = dq_iter D d"
    unfolding deque_laws_def by blast+
  show "dq_iter D (snd (dq_pop_front D d)) = tl (dq_iter D d)"
    "fst (dq_pop_front D d) = (case dq_iter D d of [] \<Rightarrow> None | x # xs \<Rightarrow> Some x)"
    using pop by (auto split: list.splits)
  show "length (dq_iter D d) < n \<Longrightarrow> dq_iter D (snd (dq_push_back D x d)) = dq_iter D d @ [x]"
    using push by simp
qed (use assms in \<open>simp_all add: deque_laws_def\<close>)

text \<open>The idiom of both crates that use it: evict the front when full, then push.\<close>

definition ring_push :: "('a, 'd) deque_ops \<Rightarrow> 'a \<Rightarrow> 'd \<Rightarrow> 'd" where
  "ring_push D x d =
     (let d = (if dq_is_full D d then snd (dq_pop_front D d) else d)
      in snd (dq_push_back D x d))"

lemma ring_push_iter:
  assumes "deque_laws D n" and "length (dq_iter D d) \<le> n"
  shows "dq_iter D (ring_push D x d) = keep_last n (dq_iter D d @ [x])"
proof (cases "n \<le> length (dq_iter D d)")
  case True
  with assms have len: "length (dq_iter D d) = n" by simp
  with deque_lawsD(1) [OF assms(1)] obtain y ys where y: "dq_iter D d = y # ys"
    by (cases "dq_iter D d") auto
  have "length (tl (dq_iter D d)) < n" using len y by simp
  then have "dq_iter D (ring_push D x d) = tl (dq_iter D d) @ [x]"
    using True by (simp add: ring_push_def deque_lawsD [OF assms(1)])
  then show ?thesis using len y by (simp add: keep_last_def)
next
  case False
  then show ?thesis by (simp add: ring_push_def deque_lawsD [OF assms(1)])
qed

text \<open>Emptying a deque from the front, the loop \<^verbatim>\<open>while let Some(t) = d.pop_front()\<close>.\<close>

partial_function (option) deque_drain ::
  "('a, 'd) deque_ops \<Rightarrow> 'a list \<Rightarrow> 'd \<Rightarrow> ('a list \<times> 'd) option" where
  "deque_drain D out d =
     (case dq_pop_front D d of
        (None, d') \<Rightarrow> Some (out, d')
      | (Some x, d') \<Rightarrow> deque_drain D (out @ [x]) d')"

lemma deque_drain_iter:
  assumes D: "deque_laws D n"
  shows "\<exists>d'. deque_drain D out d = Some (out @ dq_iter D d, d') \<and> dq_iter D d' = []"
proof (induction "dq_iter D d" arbitrary: out d)
  case Nil
  obtain o' d' where "dq_pop_front D d = (o', d')" by force
  then show ?case
    using Nil deque_lawsD(8,9) [OF D, of d] by (simp add: deque_drain.simps)
next
  case (Cons x xs)
  obtain o' d' where pop: "dq_pop_front D d = (o', d')" by force
  with Cons.hyps(2) deque_lawsD(8,9) [OF D, of d] have "o' = Some x" "xs = dq_iter D d'"
    by (auto split: list.splits)
  with Cons.hyps(1) [of d' "out @ [x]"] Cons.hyps(2) [symmetric] pop show ?case
    by (simp add: deque_drain.simps [of D out d])
qed

end
