(* ===== verification/Keyer_Engine.thy ===== *)
theory Keyer_Engine
  imports Keyer_Morse Radio_Interfaces
begin

text \<open>
  \<^verbatim>\<open>crates/radio-utils-keyer/src/engine.rs\<close>: the keyer's state machine. \<open>KeyerEngine\<close> is the
  struct, one definition per method; a method that returns a value and changes the engine gives
  the pair of both. The transition ring is a \<^verbatim>\<open>heapless::Deque\<close>, whose operations are the
  argument \<open>D\<close>. Times are natural numbers of microseconds: \<open>elapsed_us\<close> and \<open>phase_end_us\<close>
  are \<^verbatim>\<open>u64\<close> in the code and stay within \<open>22400000\<close> of each other (\<open>phase_end_bound\<close>), the
  saturating counters saturate as in the code. This theory holds the operations; the safety of
  the key line, its timing and its liveness are in the theories that follow.
\<close>

section \<open>State\<close>

datatype KeyerOutput = KeyDown | KeyUp | PttRequest bool

datatype KeyerState = Idle | StraightKey | SendDit | SendDash | DitDelay | DashDelay | LetterSpace

record KeyTransition =
  key_down :: bool
  timestamp_us :: nat

definition STRAIGHT_KEY_RELEASE_DEBOUNCE_MS :: nat where
  "STRAIGHT_KEY_RELEASE_DEBOUNCE_MS = 20"

definition MAX_RECORDED_TRANSITIONS :: nat where
  "MAX_RECORDED_TRANSITIONS = 64"

record 'd KeyerEngine =
  config :: KeyerConfig
  state :: KeyerState
  dit_held :: bool
  dash_held :: bool
  dit_memory :: bool
  dash_memory :: bool
  last_paddle :: "bool option"
  single_paddle_decided :: bool
  phase_end_us :: nat
  element_duration_us :: nat
  hang_counter_us :: nat
  ptt_active :: bool
  key_active :: bool
  text_queue :: "MorseElement list"
  text_sending :: bool
  elapsed_us :: nat
  transitions :: 'd
  straight_release_grace_us :: nat
  tick_us :: nat

type_synonym 'd ring = "(KeyTransition, 'd) deque_ops"
type_synonym 'd emit = "KeyerOutput option \<times> 'd KeyerEngine"

section \<open>Construction and inputs\<close>

text \<open>\<open>None\<close> is the panic of the assertion.\<close>

definition new_with_tick :: "'d ring \<Rightarrow> KeyerConfig \<Rightarrow> nat \<Rightarrow> 'd KeyerEngine option" where
  "new_with_tick D cfg tick =
     (if tick > 0
      then Some \<lparr>
        config = cfg,
        state = Idle,
        dit_held = False,
        dash_held = False,
        dit_memory = False,
        dash_memory = False,
        last_paddle = None,
        single_paddle_decided = False,
        phase_end_us = 0,
        element_duration_us = 0,
        hang_counter_us = 0,
        ptt_active = False,
        key_active = False,
        text_queue = [],
        text_sending = False,
        elapsed_us = 0,
        transitions = dq_new D,
        straight_release_grace_us = 0,
        tick_us = tick\<rparr>
      else None)"

definition new_engine :: "'d ring \<Rightarrow> KeyerConfig \<Rightarrow> 'd KeyerEngine option" where
  "new_engine D cfg = new_with_tick D cfg 1000"

definition update_config :: "KeyerConfig \<Rightarrow> 'd KeyerEngine \<Rightarrow> 'd KeyerEngine" where
  "update_config cfg s = s\<lparr>config := cfg\<rparr>"

definition in_memory_window :: "'d KeyerEngine \<Rightarrow> bool" where
  "in_memory_window s =
     (let pct = min (unat (iambic_b_timing_percent (config s))) 100;
          threshold_us = element_duration_us s * pct div 100;
          remaining = phase_end_us s - elapsed_us s
      in remaining > threshold_us)"

definition is_mode_b :: "'d KeyerEngine \<Rightarrow> bool" where
  "is_mode_b s \<longleftrightarrow> mode (config s) = IambicB \<or> mode (config s) = Ultimatic"

definition abort_text :: "'d KeyerEngine \<Rightarrow> 'd KeyerEngine" where
  "abort_text s = s\<lparr>text_queue := [], text_sending := False\<rparr>"

definition set_paddle :: "bool \<Rightarrow> bool \<Rightarrow> 'd KeyerEngine \<Rightarrow> 'd KeyerEngine" where
  "set_paddle dit dash s =
     (let (d, h) = (if keys_reversed (config s) then (dash, dit) else (dit, dash));
          in_element = (state s = SendDit \<or> state s = SendDash);
          gate_open = (\<not> in_element \<or> \<not> is_mode_b s \<or> in_memory_window s);
          s = (if \<not> text_sending s \<and> gate_open
               then let s = (if d \<and> \<not> dit_held s then s\<lparr>dit_memory := True\<rparr> else s)
                    in (if h \<and> \<not> dash_held s then s\<lparr>dash_memory := True\<rparr> else s)
               else s);
          s = (if d \<and> \<not> dit_held s then s\<lparr>last_paddle := Some False\<rparr> else s);
          s = (if h \<and> \<not> dash_held s then s\<lparr>last_paddle := Some True\<rparr> else s);
          s = s\<lparr>dit_held := d, dash_held := h\<rparr>
      in if (d \<or> h) \<and> text_sending s then abort_text s else s)"

definition send_text :: "rchar list \<Rightarrow> 'd KeyerEngine \<Rightarrow> 'd KeyerEngine" where
  "send_text text s =
     s\<lparr>text_queue := text_queue s @ text_to_elements text, text_sending := True\<rparr>"

text \<open>The loop that empties the ring; \<open>None\<close> would mean that it never returns.\<close>

definition drain_transitions ::
  "'d ring \<Rightarrow> 'd KeyerEngine \<Rightarrow> (KeyTransition list \<times> 'd KeyerEngine) option" where
  "drain_transitions D s =
     map_option (\<lambda>(out, d). (out, s\<lparr>transitions := d\<rparr>)) (deque_drain D [] (transitions s))"

definition is_active :: "'d KeyerEngine \<Rightarrow> bool" where
  "is_active s \<longleftrightarrow> state s \<noteq> Idle \<or> ptt_active s \<or> text_queue s \<noteq> []"

section \<open>Emitting\<close>

definition record_transition :: "'d ring \<Rightarrow> bool \<Rightarrow> 'd KeyerEngine \<Rightarrow> 'd KeyerEngine" where
  "record_transition D down s =
     (let t = \<lparr>key_down = down, timestamp_us = elapsed_us s\<rparr>
      in s\<lparr>transitions := ring_push D t (transitions s)\<rparr>)"

definition emit_key_down :: "'d ring \<Rightarrow> 'd KeyerEngine \<Rightarrow> KeyerOutput \<times> 'd KeyerEngine" where
  "emit_key_down D s =
     (let s = s\<lparr>key_active := True\<rparr>;
          s = s\<lparr>hang_counter_us := 0\<rparr>;
          s = record_transition D True s
      in (KeyDown, s))"

definition emit_key_up :: "'d ring \<Rightarrow> 'd KeyerEngine \<Rightarrow> KeyerOutput \<times> 'd KeyerEngine" where
  "emit_key_up D s =
     (let s = s\<lparr>key_active := False\<rparr>;
          s = record_transition D False s
      in (KeyUp, s))"

definition schedule_phase :: "nat \<Rightarrow> 'd KeyerEngine \<Rightarrow> 'd KeyerEngine" where
  "schedule_phase duration_us s =
     (let base = (if phase_end_us s + tick_us s > elapsed_us s
                  then phase_end_us s else elapsed_us s)
      in s\<lparr>phase_end_us := base + duration_us\<rparr>)"

definition phase_expired :: "'d KeyerEngine \<Rightarrow> bool" where
  "phase_expired s \<longleftrightarrow> elapsed_us s \<ge> phase_end_us s"

definition maybe_emit_ptt :: "bool \<Rightarrow> 'd KeyerEngine \<Rightarrow> 'd emit" where
  "maybe_emit_ptt on s =
     (if on \<and> \<not> ptt_active s then (Some (PttRequest True), s\<lparr>ptt_active := True\<rparr>)
      else if \<not> on \<and> ptt_active s then (Some (PttRequest False), s\<lparr>ptt_active := False\<rparr>)
      else (None, s))"

text \<open>\<open>Some\<close> of an emitted output.\<close>

definition emitted :: "KeyerOutput \<times> 'd KeyerEngine \<Rightarrow> 'd emit" where
  "emitted r = (Some (fst r), snd r)"

definition start_dit :: "'d KeyerEngine \<Rightarrow> 'd KeyerEngine" where
  "start_dit s =
     (let s = s\<lparr>state := SendDit\<rparr>;
          dur_us = effective_dot_duration_us (config s);
          s = schedule_phase dur_us s
      in s\<lparr>element_duration_us := dur_us, dit_memory := False\<rparr>)"

definition start_dash :: "'d KeyerEngine \<Rightarrow> 'd KeyerEngine" where
  "start_dash s =
     (let s = s\<lparr>state := SendDash\<rparr>;
          dur_us = effective_dash_duration_us (config s);
          s = schedule_phase dur_us s
      in s\<lparr>element_duration_us := dur_us, dash_memory := False\<rparr>)"

text \<open>"PTT first if needed, else key down".\<close>

definition ptt_or_key_down :: "'d ring \<Rightarrow> 'd KeyerEngine \<Rightarrow> 'd emit" where
  "ptt_or_key_down D s =
     (case maybe_emit_ptt True s of
        (Some ptt, s) \<Rightarrow> (Some ptt, s)
      | (None, s) \<Rightarrow> emitted (emit_key_down D s))"

definition start_element_keyed :: "'d ring \<Rightarrow> bool \<Rightarrow> 'd KeyerEngine \<Rightarrow> 'd emit" where
  "start_element_keyed D is_dash s =
     ptt_or_key_down D (if is_dash then start_dash s else start_dit s)"

fun dispatch_text_element :: "'d ring \<Rightarrow> MorseElement \<Rightarrow> 'd KeyerEngine \<Rightarrow> 'd emit" where
  "dispatch_text_element D Dit s =
     start_element_keyed D False (s\<lparr>single_paddle_decided := True\<rparr>)"
| "dispatch_text_element D Dash s =
     start_element_keyed D True (s\<lparr>single_paddle_decided := True\<rparr>)"
| "dispatch_text_element D ElementGap s =
     (None, (schedule_phase (element_gap_us (config s)) (s\<lparr>single_paddle_decided := True\<rparr>))
        \<lparr>state := DitDelay\<rparr>)"
| "dispatch_text_element D LetterGap s =
     (None, (schedule_phase (letter_gap_us (config s)) (s\<lparr>single_paddle_decided := True\<rparr>))
        \<lparr>state := DitDelay\<rparr>)"
| "dispatch_text_element D WordGap s =
     (None, (schedule_phase (word_gap_us (config s)) (s\<lparr>single_paddle_decided := True\<rparr>))
        \<lparr>state := DitDelay\<rparr>)"

definition handle_hang_time :: "'d KeyerEngine \<Rightarrow> 'd emit" where
  "handle_hang_time s =
     (if ptt_active s \<and> \<not> key_active s
      then let s = s\<lparr>hang_counter_us := sat_add_u32 (hang_counter_us s) (tick_us s)\<rparr>
           in if hang_counter_us s \<ge> sat_mul_u32 (unat (hang_time_ms (config s))) 1000
              then maybe_emit_ptt False s else (None, s)
      else (None, s))"

definition enter_idle_from_delay :: "'d KeyerEngine \<Rightarrow> 'd KeyerEngine" where
  "enter_idle_from_delay s = s\<lparr>
     state := Idle,
     hang_counter_us := 0,
     text_sending := False,
     last_paddle := None,
     single_paddle_decided := False,
     dit_memory := False,
     dash_memory := False\<rparr>"

section \<open>Straight key and bug\<close>

definition tick_straight :: "'d ring \<Rightarrow> 'd KeyerEngine \<Rightarrow> 'd emit" where
  "tick_straight D s =
     (let any_held = (dit_held s \<or> dash_held s) in
      case state s of
        Idle \<Rightarrow>
          if any_held
          then ptt_or_key_down D (s\<lparr>state := StraightKey, straight_release_grace_us := 0\<rparr>)
          else if ptt_active s \<and> \<not> key_active s
          then let s = s\<lparr>hang_counter_us := sat_add_u32 (hang_counter_us s) (tick_us s)\<rparr>
               in if hang_counter_us s \<ge> sat_mul_u32 (unat (hang_time_ms (config s))) 1000
                  then maybe_emit_ptt False s else (None, s)
          else (None, s)
      | StraightKey \<Rightarrow>
          if \<not> key_active s then emitted (emit_key_down D s)
          else if \<not> any_held
          then let s = s\<lparr>straight_release_grace_us :=
                           sat_add_u32 (straight_release_grace_us s) (tick_us s)\<rparr>
               in if straight_release_grace_us s
                       \<ge> sat_mul_u32 STRAIGHT_KEY_RELEASE_DEBOUNCE_MS 1000
                  then emitted (emit_key_up D (s\<lparr>straight_release_grace_us := 0,
                         state := Idle, hang_counter_us := 0\<rparr>))
                  else (None, s)
          else (None, s\<lparr>straight_release_grace_us := 0\<rparr>)
      | _ \<Rightarrow> (None, s))"

section \<open>Single paddle\<close>

definition tick_single_paddle :: "'d ring \<Rightarrow> 'd KeyerEngine \<Rightarrow> 'd emit" where
  "tick_single_paddle D s =
     (let any_held = (dit_held s \<or> dash_held s) in
      case state s of
        Idle \<Rightarrow>
          if any_held
          then start_element_keyed D False (s\<lparr>single_paddle_decided := False\<rparr>)
          else (case text_queue s of
              elem # queue \<Rightarrow>
                dispatch_text_element D elem (s\<lparr>text_sending := True, text_queue := queue\<rparr>)
            | [] \<Rightarrow> handle_hang_time s)
      | SendDit \<Rightarrow>
          if \<not> key_active s then emitted (emit_key_down D s)
          else if \<not> single_paddle_decided s
          then if \<not> any_held
               then emitted (emit_key_up D (schedule_phase (element_gap_us (config s))
                      (s\<lparr>single_paddle_decided := True, state := DitDelay\<rparr>)))
               else if phase_expired s
               then let remaining_dash_us = effective_dash_duration_us (config s)
                                              - effective_dot_duration_us (config s);
                        s = schedule_phase remaining_dash_us
                              (s\<lparr>single_paddle_decided := True, state := SendDash\<rparr>)
                    in (None, s\<lparr>element_duration_us := effective_dash_duration_us (config s)\<rparr>)
               else (None, s)
          else if phase_expired s
          then emitted (emit_key_up D
                 (if text_sending s then s\<lparr>state := Idle\<rparr>
                  else schedule_phase (element_gap_us (config s)) (s\<lparr>state := DitDelay\<rparr>)))
          else (None, s)
      | SendDash \<Rightarrow>
          if \<not> key_active s then emitted (emit_key_down D s)
          else if phase_expired s
          then emitted (emit_key_up D
                 (if text_sending s then s\<lparr>state := Idle\<rparr>
                  else schedule_phase (element_gap_us (config s)) (s\<lparr>state := DashDelay\<rparr>)))
          else (None, s)
      | LetterSpace \<Rightarrow>
          if any_held then (None, s\<lparr>state := Idle, phase_end_us := elapsed_us s\<rparr>)
          else if phase_expired s then (None, s\<lparr>state := Idle\<rparr>)
          else (None, s)
      | StraightKey \<Rightarrow> (None, s\<lparr>state := Idle\<rparr>)
      | _ \<Rightarrow> \<comment> \<open>\<open>DitDelay\<close> and \<open>DashDelay\<close>\<close>
          let s = (if any_held \<and> text_sending s then abort_text s else s)
          in if phase_expired s
             then if any_held
                  then start_element_keyed D False (s\<lparr>single_paddle_decided := False\<rparr>)
                  else if text_sending s \<and> text_queue s \<noteq> []
                  then (None, s\<lparr>state := Idle\<rparr>)
                  else (None, enter_idle_from_delay s)
             else (None, s))"

section \<open>Iambic and Ultimatic\<close>

definition resolve_ultimatic :: "'d ring \<Rightarrow> bool \<Rightarrow> 'd KeyerEngine \<Rightarrow> 'd emit" where
  "resolve_ultimatic D after_dit s =
     (let dit_active = (dit_held s \<or> dit_memory s);
          dash_active = (dash_held s \<or> dash_memory s)
      in if \<not> dit_active \<and> \<not> dash_active then (None, s)
         else if last_paddle s = Some True \<and> after_dit \<and> dash_active then start_element_keyed D True s
         else if last_paddle s = Some False \<and> \<not> after_dit \<and> dit_active then start_element_keyed D False s
         else if last_paddle s = Some True \<and> dash_active then start_element_keyed D True s
         else if last_paddle s = Some False \<and> dit_active then start_element_keyed D False s
         else if dit_held s then start_element_keyed D False s
         else if dash_held s then start_element_keyed D True s
         else (None, s))"

definition resolve_delay_tail :: "bool \<Rightarrow> 'd KeyerEngine \<Rightarrow> 'd emit" where
  "resolve_delay_tail mode_b s =
     (if text_sending s \<and> text_queue s \<noteq> [] then (None, s\<lparr>state := Idle\<rparr>)
      else let remaining_us = letter_gap_us (config s) - element_gap_us (config s)
           in if auto_spacing (config s) \<and> remaining_us > 0
              then (None, schedule_phase remaining_us (s\<lparr>state := LetterSpace\<rparr>))
              else (None, enter_idle_from_delay
                     (if \<not> mode_b then s\<lparr>dit_memory := False, dash_memory := False\<rparr> else s)))"

definition resolve_after_dit_delay :: "'d ring \<Rightarrow> bool \<Rightarrow> 'd KeyerEngine \<Rightarrow> 'd emit" where
  "resolve_after_dit_delay D bug_mode s =
     (let mode_b = is_mode_b s in
      if mode (config s) = Ultimatic
      then (case resolve_ultimatic D True s of
              (Some out, s) \<Rightarrow> (Some out, s)
            | (None, s) \<Rightarrow> resolve_delay_tail mode_b s)
      else if mode_b \<and> dash_memory s \<and> \<not> bug_mode then start_element_keyed D True s
      else if dash_held s \<and> \<not> bug_mode then start_element_keyed D True s
      else if mode_b \<and> dit_memory s then start_element_keyed D False s
      else if dit_held s then start_element_keyed D False s
      else resolve_delay_tail mode_b s)"

definition resolve_after_dash_delay :: "'d ring \<Rightarrow> bool \<Rightarrow> 'd KeyerEngine \<Rightarrow> 'd emit" where
  "resolve_after_dash_delay D bug_mode s =
     (let mode_b = is_mode_b s in
      if mode (config s) = Ultimatic
      then (case resolve_ultimatic D False s of
              (Some out, s) \<Rightarrow> (Some out, s)
            | (None, s) \<Rightarrow> resolve_delay_tail mode_b s)
      else if mode_b \<and> dit_memory s then start_element_keyed D False s
      else if dit_held s then start_element_keyed D False s
      else if mode_b \<and> dash_memory s \<and> \<not> bug_mode then start_element_keyed D True s
      else if dash_held s \<and> \<not> bug_mode then start_element_keyed D True s
      else resolve_delay_tail mode_b s)"

definition tick_iambic_inner :: "'d ring \<Rightarrow> bool \<Rightarrow> 'd KeyerEngine \<Rightarrow> 'd emit" where
  "tick_iambic_inner D bug_mode s =
     (case state s of
        Idle \<Rightarrow>
          if dit_held s \<or> dit_memory s then start_element_keyed D False s
          else if (dash_held s \<or> dash_memory s) \<and> \<not> bug_mode then start_element_keyed D True s
          else if \<not> dit_held s \<and> \<not> dash_held s \<and> text_queue s \<noteq> []
          then dispatch_text_element D (hd (text_queue s))
                 (s\<lparr>text_sending := True, text_queue := tl (text_queue s)\<rparr>)
          else handle_hang_time s
      | SendDit \<Rightarrow>
          if \<not> key_active s then emitted (emit_key_down D s)
          else let s = (if dash_held s \<and> (\<not> is_mode_b s \<or> in_memory_window s)
                        then s\<lparr>dash_memory := True\<rparr> else s)
               in if phase_expired s
                  then emitted (emit_key_up D
                         (if text_sending s then s\<lparr>state := Idle\<rparr>
                          else schedule_phase (element_gap_us (config s)) (s\<lparr>state := DitDelay\<rparr>)))
                  else (None, s)
      | SendDash \<Rightarrow>
          if \<not> key_active s then emitted (emit_key_down D s)
          else let s = (if dit_held s \<and> (\<not> is_mode_b s \<or> in_memory_window s)
                        then s\<lparr>dit_memory := True\<rparr> else s)
               in if phase_expired s
                  then emitted (emit_key_up D
                         (if text_sending s then s\<lparr>state := Idle\<rparr>
                          else schedule_phase (element_gap_us (config s)) (s\<lparr>state := DashDelay\<rparr>)))
                  else (None, s)
      | DitDelay \<Rightarrow>
          let s = (if (dit_held s \<or> dash_held s) \<and> text_sending s then abort_text s else s)
          in if phase_expired s then resolve_after_dit_delay D bug_mode s
             else (None, if dash_held s then s\<lparr>dash_memory := True\<rparr> else s)
      | DashDelay \<Rightarrow>
          let s = (if (dit_held s \<or> dash_held s) \<and> text_sending s then abort_text s else s)
          in if phase_expired s then resolve_after_dash_delay D bug_mode s
             else (None, if dit_held s then s\<lparr>dit_memory := True\<rparr> else s)
      | LetterSpace \<Rightarrow>
          if dit_held s \<or> dash_held s
          then (None, s\<lparr>state := Idle, phase_end_us := elapsed_us s\<rparr>)
          else if phase_expired s then (None, s\<lparr>state := Idle\<rparr>)
          else (None, s)
      | StraightKey \<Rightarrow> (None, s\<lparr>state := Idle\<rparr>))"

definition tick_iambic :: "'d ring \<Rightarrow> 'd KeyerEngine \<Rightarrow> 'd emit" where
  "tick_iambic D s = tick_iambic_inner D False s"

definition tick_bug :: "'d ring \<Rightarrow> 'd KeyerEngine \<Rightarrow> 'd emit" where
  "tick_bug D s =
     (if dash_held s \<and> \<not> dit_held s \<and> state s = Idle
      then ptt_or_key_down D (s\<lparr>state := StraightKey\<rparr>)
      else if state s = StraightKey
      then if \<not> key_active s then emitted (emit_key_down D s)
           else if \<not> dash_held s
           then emitted (emit_key_up D (s\<lparr>state := Idle, hang_counter_us := 0\<rparr>))
           else (None, s)
      else tick_iambic_inner D True s)"

definition tick :: "'d ring \<Rightarrow> 'd KeyerEngine \<Rightarrow> 'd emit" where
  "tick D s =
     (let s = s\<lparr>elapsed_us := elapsed_us s + tick_us s\<rparr>
      in case mode (config s) of
           Straight \<Rightarrow> tick_straight D s
         | Bug \<Rightarrow> tick_bug D s
         | SinglePaddle \<Rightarrow> tick_single_paddle D s
         | _ \<Rightarrow> tick_iambic D s)"

end
