(* ===== verification/Engine_Safety.thy ===== *)
theory Engine_Safety
  imports Keyer_Engine "HOL-Library.Code_Target_Nat"
begin

text \<open>
  The key line as seen by the transmitter. \<open>line_step\<close> is the abstract protocol of the outputs
  over the pair (PTT, key): a key is pressed only under PTT, released only when pressed, PTT
  changes are real changes and PTT is never dropped under a pressed key. In the strict protocol
  a pressed key is not pressed again. Every operation of the engine refines the loose protocol,
  whatever the mode changes; while a mode changes only in a state the new mode handles it refines
  the strict one. \<open>keyed_line\<close> is the interface: an operation-driven component whose outputs
  follow the protocol.
\<close>

section \<open>The protocol of the outputs\<close>

fun line_step :: "bool \<Rightarrow> bool \<times> bool \<Rightarrow> KeyerOutput \<Rightarrow> (bool \<times> bool) option" where
  "line_step strict (p, k) KeyDown = (if p \<and> (strict \<longrightarrow> \<not> k) then Some (p, True) else None)"
| "line_step strict (p, k) KeyUp = (if p \<and> k then Some (p, False) else None)"
| "line_step strict (p, k) (PttRequest on) = (if p \<noteq> on \<and> \<not> k then Some (on, k) else None)"

fun line_run :: "bool \<Rightarrow> bool \<times> bool \<Rightarrow> KeyerOutput list \<Rightarrow> (bool \<times> bool) option" where
  "line_run strict v [] = Some v"
| "line_run strict v (out # outs) =
     (case line_step strict v out of None \<Rightarrow> None | Some v' \<Rightarrow> line_run strict v' outs)"

text \<open>A component driven by operations, with the outputs it emits in order.\<close>

fun run_ops :: "('op \<Rightarrow> 's \<Rightarrow> 'o option \<times> 's) \<Rightarrow> 'op list \<Rightarrow> 's \<Rightarrow> 'o list \<times> 's" where
  "run_ops step [] s = ([], s)"
| "run_ops step (op # ops) s =
     (let (out, s') = step op s;
          (outs, s'') = run_ops step ops s'
      in (case out of None \<Rightarrow> outs | Some x \<Rightarrow> x # outs, s''))"

fun ops_allowed :: "('op \<Rightarrow> 's \<Rightarrow> 'o option \<times> 's) \<Rightarrow> ('op \<Rightarrow> 's \<Rightarrow> bool) \<Rightarrow> 'op list \<Rightarrow> 's \<Rightarrow> bool" where
  "ops_allowed step allowed [] s \<longleftrightarrow> True"
| "ops_allowed step allowed (op # ops) s \<longleftrightarrow>
     allowed op s \<and> ops_allowed step allowed ops (snd (step op s))"

locale keyed_line =
  fixes strict :: bool
    and step :: "'op \<Rightarrow> 's \<Rightarrow> KeyerOutput option \<times> 's"
    and allowed :: "'op \<Rightarrow> 's \<Rightarrow> bool"
    and ok :: "'s \<Rightarrow> bool"
    and view :: "'s \<Rightarrow> bool \<times> bool"
  assumes step_ok: "ok s \<Longrightarrow> allowed op s \<Longrightarrow> ok (snd (step op s))"
    and step_silent: "ok s \<Longrightarrow> allowed op s \<Longrightarrow> fst (step op s) = None \<Longrightarrow> view (snd (step op s)) = view s"
    and step_emits: "ok s \<Longrightarrow> allowed op s \<Longrightarrow> fst (step op s) = Some out \<Longrightarrow>
      line_step strict (view s) out = Some (view (snd (step op s)))"
begin

lemma run_ok: "ok s \<Longrightarrow> ops_allowed step allowed ops s \<Longrightarrow> ok (snd (run_ops step ops s))"
  by (induction ops arbitrary: s) (auto simp: case_prod_beta dest: step_ok)

lemma run_follows:
  "ok s \<Longrightarrow> ops_allowed step allowed ops s \<Longrightarrow>
    line_run strict (view s) (fst (run_ops step ops s)) = Some (view (snd (run_ops step ops s)))"
proof (induction ops arbitrary: s)
  case (Cons op ops)
  then have IH: "line_run strict (view (snd (step op s))) (fst (run_ops step ops (snd (step op s))))
      = Some (view (snd (run_ops step ops (snd (step op s)))))"
    by (auto dest: step_ok)
  with Cons.prems step_silent [of s op] step_emits [of s op] show ?case
    by (cases "fst (step op s)") (auto simp: case_prod_beta)
qed simp

end

section \<open>The engine follows it\<close>

definition line_view :: "'d KeyerEngine \<Rightarrow> bool \<times> bool" where
  "line_view s = (ptt_active s, key_active s)"

definition keying_state :: "KeyerState \<Rightarrow> bool" where
  "keying_state st \<longleftrightarrow> st = StraightKey \<or> st = SendDit \<or> st = SendDash"

text \<open>The states each mode's tick handles.\<close>

definition mode_state_ok :: "KeyerMode \<Rightarrow> KeyerState \<Rightarrow> bool" where
  "mode_state_ok m st \<longleftrightarrow>
     (m = Straight \<longrightarrow> st = Idle \<or> st = StraightKey) \<and>
     (st = StraightKey \<longrightarrow> m = Straight \<or> m = Bug)"

text \<open>Where the deadline of the current phase can be.\<close>

definition phase_ok :: "'d KeyerEngine \<Rightarrow> bool" where
  "phase_ok s \<longleftrightarrow> 0 < tick_us s \<and>
     (state s = Idle \<or> state s = StraightKey \<longrightarrow> phase_end_us s \<le> elapsed_us s) \<and>
     (state s = SendDit \<longrightarrow> phase_end_us s \<le> elapsed_us s + 1455000) \<and>
     phase_end_us s \<le> elapsed_us s + 22400000"

definition line_ok :: "bool \<Rightarrow> 'd KeyerEngine \<Rightarrow> bool" where
  "line_ok strict s \<longleftrightarrow>
     phase_ok s \<and>
     (keying_state (state s) \<longrightarrow> ptt_active s) \<and>
     (key_active s \<longrightarrow> ptt_active s) \<and>
     (strict \<longrightarrow> (key_active s \<longrightarrow> keying_state (state s)) \<and>
       mode_state_ok (mode (config s)) (state s))"

text \<open>What an operation may change only through its output: the line, the recorded transitions;
  and what a tick does not change at all.\<close>

definition key_event :: "nat \<Rightarrow> KeyerOutput \<Rightarrow> KeyTransition option" where
  "key_event now out = (case out of
     KeyDown \<Rightarrow> Some \<lparr>key_down = True, timestamp_us = now\<rparr>
   | KeyUp \<Rightarrow> Some \<lparr>key_down = False, timestamp_us = now\<rparr>
   | PttRequest _ \<Rightarrow> None)"

definition recorded :: "'d ring \<Rightarrow> nat \<Rightarrow> KeyerOutput option \<Rightarrow> 'd \<Rightarrow> 'd" where
  "recorded D now out d =
     (case out of None \<Rightarrow> d | Some x \<Rightarrow>
       (case key_event now x of None \<Rightarrow> d | Some t \<Rightarrow> ring_push D t d))"

definition same_frame :: "'d KeyerEngine \<Rightarrow> 'd KeyerEngine \<Rightarrow> bool" where
  "same_frame s s' \<longleftrightarrow> config s' = config s \<and> elapsed_us s' = elapsed_us s \<and> tick_us s' = tick_us s \<and>
     transitions s' = transitions s \<and> line_view s' = line_view s"

definition follows :: "'d ring \<Rightarrow> bool \<Rightarrow> 'd KeyerEngine \<Rightarrow> 'd emit \<Rightarrow> bool" where
  "follows D strict s r \<longleftrightarrow> line_ok strict (snd r) \<and>
     config (snd r) = config s \<and> elapsed_us (snd r) = elapsed_us s \<and> tick_us (snd r) = tick_us s \<and>
     transitions (snd r) = recorded D (elapsed_us s) (fst r) (transitions s) \<and>
     (case fst r of
        None \<Rightarrow> line_view (snd r) = line_view s
      | Some out \<Rightarrow> line_step strict (line_view s) out = Some (line_view (snd r)))"

lemma follows_frame: "same_frame s s' \<Longrightarrow> follows D st s' r \<longleftrightarrow> follows D st s r"
  by (cases "fst r") (simp_all add: follows_def same_frame_def)

lemmas line_defs = follows_def line_ok_def phase_ok_def line_view_def mode_state_ok_def
  keying_state_def recorded_def key_event_def same_frame_def

lemmas emit_defs = schedule_phase_def emitted_def emit_key_up_def emit_key_down_def
  record_transition_def ptt_or_key_down_def maybe_emit_ptt_def handle_hang_time_def
  enter_idle_from_delay_def start_dit_def start_dash_def start_element_keyed_def abort_text_def

text \<open>Every duration the engine schedules.\<close>

lemma durations_le:
  "effective_dot_duration_us c \<le> 1455000" "effective_dash_duration_us c \<le> 15855000"
  "element_gap_us c \<le> 1200000" "letter_gap_us c \<le> 9600000" "word_gap_us c \<le> 22400000"
  by (simp_all add: effective_duration_le letter_gap_bounds word_gap_bounds element_gap_us_def
      dot_duration_le)

lemma start_emits: "\<exists>out s'. start_element_keyed D d s = (Some out, s')"
  by (auto simp: start_element_keyed_def ptt_or_key_down_def maybe_emit_ptt_def emitted_def)

lemma ultimatic_cases:
  "resolve_ultimatic D b s = (None, s) \<or> (\<exists>d. resolve_ultimatic D b s = start_element_keyed D d s)"
  unfolding resolve_ultimatic_def Let_def by (simp split: if_split) blast

lemma schedule_phase_fields [simp]:
  "ptt_active (schedule_phase d s) = ptt_active s"
  "key_active (schedule_phase d s) = key_active s"
  "config (schedule_phase d s) = config s"
  "state (schedule_phase d s) = state s"
  "elapsed_us (schedule_phase d s) = elapsed_us s"
  "tick_us (schedule_phase d s) = tick_us s"
  "transitions (schedule_phase d s) = transitions s"
  "line_view (schedule_phase d s) = line_view s"
  by (simp_all add: schedule_phase_def Let_def line_view_def)

lemma schedule_phase_le:
  "phase_end_us s \<le> elapsed_us s + a \<Longrightarrow> phase_end_us (schedule_phase d s) \<le> elapsed_us s + a + d"
  by (simp add: schedule_phase_def Let_def)

lemma line_view_elapsed [simp]: "line_view (s\<lparr>elapsed_us := t\<rparr>) = line_view s"
  by (simp add: line_view_def)

text \<open>A state in which an element may start.\<close>

definition may_start :: "bool \<Rightarrow> 'd KeyerEngine \<Rightarrow> bool" where
  "may_start strict s \<longleftrightarrow> (key_active s \<longrightarrow> ptt_active s) \<and>
     (strict \<longrightarrow> \<not> key_active s \<and> mode (config s) \<noteq> Straight) \<and>
     0 < tick_us s \<and> phase_end_us s \<le> elapsed_us s"

lemma start_follows: "may_start st s \<Longrightarrow> follows D st s (start_element_keyed D d s)"
  using durations_le [of "config s"]
  by (cases d) (auto simp: may_start_def emit_defs Let_def line_defs)

lemma dispatch_follows:
  assumes "may_start st s"
  shows "follows D st s (dispatch_text_element D e s)"
proof -
  let ?d = "s\<lparr>single_paddle_decided := True\<rparr>"
  have d: "may_start st ?d" "same_frame s ?d"
    using assms by (simp_all add: may_start_def same_frame_def line_view_def)
  have "follows D st s (start_element_keyed D dash ?d)" for dash
    using start_follows [OF d(1), of D dash] follows_frame [OF d(2), of D st] by simp
  moreover have "follows D st s (None, (schedule_phase g ?d)\<lparr>state := DitDelay\<rparr>)" if "g \<le> 22400000" for g
    using schedule_phase_le [of ?d 0 g] that assms
    by (auto simp: may_start_def line_defs schedule_phase_def)
  ultimately show ?thesis
    using durations_le [of "config s"] by (cases e) simp_all
qed

lemma hang_follows: "line_ok st s \<Longrightarrow> state s = Idle \<Longrightarrow> follows D st s (handle_hang_time s)"
  by (auto simp: emit_defs Let_def line_defs)

lemma tail_follows: "may_start st s \<Longrightarrow> follows D st s (resolve_delay_tail b s)"
  using durations_le [of "config s"]
  by (auto simp: may_start_def resolve_delay_tail_def emit_defs Let_def line_defs)

lemma straight_follows:
  assumes "line_ok st s" "mode (config s) = Straight"
  shows "follows D st s (tick_straight D s)"
  using assms by (cases "state s") (auto simp: tick_straight_def emit_defs Let_def line_defs)

lemma ultimatic_tail_follows:
  assumes "may_start st s"
  shows "follows D st s (case resolve_ultimatic D b s of
           (Some out, s) \<Rightarrow> (Some out, s) | (None, s) \<Rightarrow> resolve_delay_tail m s)"
  using ultimatic_cases [of D b s] start_emits [of D _ s] start_follows [OF assms, of D]
    tail_follows [OF assms, of D m]
  by (metis (mono_tags, lifting) case_prod_conv option.simps(4,5))

lemma after_delay_follows:
  assumes "may_start st s"
  shows "follows D st s (resolve_after_dit_delay D b s)"
    "follows D st s (resolve_after_dash_delay D b s)"
  unfolding resolve_after_dit_delay_def resolve_after_dash_delay_def Let_def
  using ultimatic_tail_follows [OF assms] start_follows [OF assms] tail_follows [OF assms]
  by simp_all

lemma emit_down_follows:
  "line_ok st s \<Longrightarrow> \<not> key_active s \<Longrightarrow> keying_state (state s) \<Longrightarrow>
    follows D st s (emitted (emit_key_down D s))"
  by (auto simp: line_defs emit_defs Let_def)

lemma emit_up_follows:
  "ptt_active s \<Longrightarrow> key_active s \<Longrightarrow> st \<longrightarrow> mode (config s) \<noteq> Straight \<Longrightarrow> state s \<noteq> StraightKey \<Longrightarrow>
    phase_ok s \<Longrightarrow> follows D st s (emitted (emit_key_up D s))"
  by (auto simp: line_defs emit_defs Let_def)

text \<open>The end of an element: key up, then the gap (or the text queue).\<close>

lemma expire_follows:
  assumes "line_ok st s" "key_active s" "st \<longrightarrow> mode (config s) \<noteq> Straight"
    and delay: "delay = DitDelay \<or> delay = DashDelay"
  shows "follows D st s
    (if phase_expired s
     then emitted (emit_key_up D (if text_sending s then s\<lparr>state := Idle\<rparr>
            else schedule_phase (element_gap_us (config s)) (s\<lparr>state := delay\<rparr>)))
     else (None, s))"
proof (cases "phase_expired s")
  case True
  let ?i = "s\<lparr>state := Idle\<rparr>"
  let ?g = "schedule_phase (element_gap_us (config s)) (s\<lparr>state := delay\<rparr>)"
  have "phase_end_us ?g \<le> elapsed_us s + 0 + element_gap_us (config s)"
    using schedule_phase_le [of "s\<lparr>state := delay\<rparr>" 0] True by (simp add: phase_expired_def)
  then have p: "phase_ok ?i" "phase_ok ?g"
    using True assms(1) delay durations_le(3) [of "config s"]
    by (auto simp: phase_ok_def line_ok_def phase_expired_def)
  have f: "same_frame s ?i" "same_frame s ?g" by (simp_all add: same_frame_def line_view_def)
  have "follows D st s (emitted (emit_key_up D ?i))" "follows D st s (emitted (emit_key_up D ?g))"
    using assms p follows_frame [OF f(1), of D st] follows_frame [OF f(2), of D st]
      emit_up_follows [of ?i st D] emit_up_follows [of ?g st D]
    by (auto simp: line_ok_def)
  with True show ?thesis by simp
qed (use assms in \<open>simp add: follows_def recorded_def\<close>)

lemma send_follows:
  assumes "line_ok st s" "st \<longrightarrow> mode (config s) \<noteq> Straight" "state s = SendDit \<or> state s = SendDash"
    and "delay = DitDelay \<or> delay = DashDelay"
    and s': "line_ok st s'" "same_frame s s'"
  shows "follows D st s
    (if \<not> key_active s then emitted (emit_key_down D s)
     else if phase_expired s'
     then emitted (emit_key_up D (if text_sending s' then s'\<lparr>state := Idle\<rparr>
            else schedule_phase (element_gap_us (config s')) (s'\<lparr>state := delay\<rparr>)))
     else (None, s'))"
proof (cases "key_active s")
  case True
  with s'(2) have "key_active s'" "config s' = config s" by (simp_all add: line_view_def same_frame_def)
  with expire_follows [OF s'(1), of delay D] assms True follows_frame [OF s'(2), of D st]
  show ?thesis by simp
next
  case False
  with assms emit_down_follows [of st s D] show ?thesis by (auto simp: keying_state_def)
qed

lemma inner_follows:
  assumes ok: "line_ok st s" and m: "st \<longrightarrow> mode (config s) \<noteq> Straight \<and> state s \<noteq> StraightKey"
  shows "follows D st s (tick_iambic_inner D b s)"
proof (cases "state s")
  case Idle
  let ?q = "s\<lparr>text_sending := True, text_queue := tl (text_queue s)\<rparr>"
  have s: "may_start st s"
    using ok m Idle by (auto simp: may_start_def line_ok_def keying_state_def phase_ok_def)
  then have q: "may_start st ?q" "same_frame s ?q"
    by (simp_all add: may_start_def same_frame_def line_view_def)
  from dispatch_follows [OF q(1), of D "hd (text_queue s)"] follows_frame [OF q(2), of D st]
    start_follows [OF s, of D] hang_follows [OF ok Idle] Idle
  show ?thesis unfolding tick_iambic_inner_def by simp
next
  case SendDit
  define s' where "s' = (if dash_held s \<and> (\<not> is_mode_b s \<or> in_memory_window s)
      then s\<lparr>dash_memory := True\<rparr> else s)"
  have s': "line_ok st s'" "same_frame s s'"
    using ok by (simp_all add: s'_def line_ok_def phase_ok_def same_frame_def line_view_def)
  have "tick_iambic_inner D b s = (if \<not> key_active s then emitted (emit_key_down D s)
      else if phase_expired s' then emitted (emit_key_up D (if text_sending s' then s'\<lparr>state := Idle\<rparr>
        else schedule_phase (element_gap_us (config s')) (s'\<lparr>state := DitDelay\<rparr>)))
      else (None, s'))"
    by (simp only: tick_iambic_inner_def SendDit KeyerState.case Let_def s'_def)
  with send_follows [OF ok _ _ _ s', of DitDelay D] m SendDit show ?thesis by simp
next
  case SendDash
  define s' where "s' = (if dit_held s \<and> (\<not> is_mode_b s \<or> in_memory_window s)
      then s\<lparr>dit_memory := True\<rparr> else s)"
  have s': "line_ok st s'" "same_frame s s'"
    using ok by (simp_all add: s'_def line_ok_def phase_ok_def same_frame_def line_view_def)
  have "tick_iambic_inner D b s = (if \<not> key_active s then emitted (emit_key_down D s)
      else if phase_expired s' then emitted (emit_key_up D (if text_sending s' then s'\<lparr>state := Idle\<rparr>
        else schedule_phase (element_gap_us (config s')) (s'\<lparr>state := DashDelay\<rparr>)))
      else (None, s'))"
    by (simp only: tick_iambic_inner_def SendDash KeyerState.case Let_def s'_def)
  with send_follows [OF ok _ _ _ s', of DashDelay D] m SendDash show ?thesis by simp
next
  case DitDelay
  define s' where "s' = (if (dit_held s \<or> dash_held s) \<and> text_sending s then abort_text s else s)"
  have s': "same_frame s s'" "line_ok st s'" "phase_expired s' \<Longrightarrow> may_start st s'"
    using ok m DitDelay
    by (auto simp: s'_def may_start_def line_defs abort_text_def phase_expired_def)
  have "tick_iambic_inner D b s = (if phase_expired s' then resolve_after_dit_delay D b s'
      else (None, if dash_held s' then s'\<lparr>dash_memory := True\<rparr> else s'))"
    by (simp only: tick_iambic_inner_def DitDelay KeyerState.case Let_def s'_def)
  moreover have "follows D st s' (None, if dash_held s' then s'\<lparr>dash_memory := True\<rparr> else s')"
    using s'(2) by (simp add: line_defs)
  ultimately show ?thesis
    using after_delay_follows(1) [of st s' D b] s'(3) follows_frame [OF s'(1), of D st] by simp
next
  case DashDelay
  define s' where "s' = (if (dit_held s \<or> dash_held s) \<and> text_sending s then abort_text s else s)"
  have s': "same_frame s s'" "line_ok st s'" "phase_expired s' \<Longrightarrow> may_start st s'"
    using ok m DashDelay
    by (auto simp: s'_def may_start_def line_defs abort_text_def phase_expired_def)
  have "tick_iambic_inner D b s = (if phase_expired s' then resolve_after_dash_delay D b s'
      else (None, if dit_held s' then s'\<lparr>dit_memory := True\<rparr> else s'))"
    by (simp only: tick_iambic_inner_def DashDelay KeyerState.case Let_def s'_def)
  moreover have "follows D st s' (None, if dit_held s' then s'\<lparr>dit_memory := True\<rparr> else s')"
    using s'(2) by (simp add: line_defs)
  ultimately show ?thesis
    using after_delay_follows(2) [of st s' D b] s'(3) follows_frame [OF s'(1), of D st] by simp
next
  case StraightKey
  have "\<not> st" using m StraightKey by blast
  with StraightKey ok show ?thesis by (auto simp: tick_iambic_inner_def line_defs)
qed (use ok m in \<open>auto simp: tick_iambic_inner_def line_defs phase_expired_def\<close>)

lemma single_delay_follows:
  assumes ok: "line_ok st s" and m: "mode (config s) \<noteq> Straight"
    and d: "state s = DitDelay \<or> state s = DashDelay"
  shows "follows D st s
      (let s = (if any \<and> text_sending s then abort_text s else s)
       in if phase_expired s
          then if any then start_element_keyed D False (s\<lparr>single_paddle_decided := False\<rparr>)
               else if text_sending s \<and> text_queue s \<noteq> [] then (None, s\<lparr>state := Idle\<rparr>)
               else (None, enter_idle_from_delay s)
          else (None, s))"
proof -
  define s' where "s' = (if any \<and> text_sending s then abort_text s else s)"
  let ?d = "s'\<lparr>single_paddle_decided := False\<rparr>"
  have ok': "line_ok st s'" "same_frame s s'" "same_frame s ?d"
    using ok by (simp_all add: s'_def line_ok_def phase_ok_def same_frame_def line_view_def abort_text_def)
  have d': "state s' = DitDelay \<or> state s' = DashDelay" "mode (config s') \<noteq> Straight"
    using d m by (simp_all add: s'_def abort_text_def)
  have "may_start st ?d" if "phase_expired s'"
    using that ok'(1) d' by (auto simp: may_start_def line_defs phase_expired_def)
  with start_follows [of st ?d D False] follows_frame [OF ok'(3), of D st]
  have "follows D st s (start_element_keyed D False ?d)" if "phase_expired s'" using that by simp
  moreover have "follows D st s' (None, s')" "phase_expired s' \<Longrightarrow> follows D st s' (None, s'\<lparr>state := Idle\<rparr>)"
    "phase_expired s' \<Longrightarrow> follows D st s' (None, enter_idle_from_delay s')"
    using ok'(1) d' by (auto simp: line_defs enter_idle_from_delay_def phase_expired_def)
  ultimately show ?thesis using follows_frame [OF ok'(2), of D st] by (simp flip: s'_def add: Let_def)
qed

text \<open>The undecided dit of the single-paddle mode: released early, or grown into a dash.\<close>

lemma single_undecided_follows:
  assumes ok: "line_ok st s" and m: "mode (config s) \<noteq> Straight"
    and k: "key_active s" "state s = SendDit"
  shows "follows D st s (emitted (emit_key_up D (schedule_phase (element_gap_us (config s))
      (s\<lparr>single_paddle_decided := True, state := DitDelay\<rparr>))))" (is "?up")
    and "phase_expired s \<Longrightarrow> follows D st s (None, (schedule_phase
      (effective_dash_duration_us (config s) - effective_dot_duration_us (config s))
      (s\<lparr>single_paddle_decided := True, state := SendDash\<rparr>))
        \<lparr>element_duration_us := effective_dash_duration_us (config s)\<rparr>)"
proof -
  let ?d = "s\<lparr>single_paddle_decided := True, state := DitDelay\<rparr>"
  let ?g = "schedule_phase (element_gap_us (config s)) ?d"
  have "phase_end_us ?g \<le> elapsed_us s + 1455000 + element_gap_us (config s)"
    using schedule_phase_le [of ?d 1455000] ok k by (simp add: line_ok_def phase_ok_def)
  then have g: "phase_ok ?g" "same_frame s ?g"
    using ok durations_le(3) [of "config s"]
    by (simp_all add: line_ok_def phase_ok_def same_frame_def line_view_def)
  show ?up
    using emit_up_follows [OF _ _ _ _ g(1), of st D] follows_frame [OF g(2), of D st] k ok m
    by (simp add: line_ok_def)
next
  let ?s = "s\<lparr>single_paddle_decided := True, state := SendDash\<rparr>"
  let ?r = "effective_dash_duration_us (config s) - effective_dot_duration_us (config s)"
  let ?u = "(schedule_phase ?r ?s)\<lparr>element_duration_us := effective_dash_duration_us (config s)\<rparr>"
  assume "phase_expired s"
  then have "phase_end_us ?u \<le> elapsed_us s + 15855000"
    using schedule_phase_le [of ?s 0 ?r] durations_le(2) [of "config s"]
    by (simp add: phase_expired_def)
  then have "line_ok st ?u" using k ok m
    by (simp add: line_ok_def phase_ok_def keying_state_def mode_state_ok_def)
  then show "follows D st s (None, ?u)" by (simp add: follows_def recorded_def line_view_def)
qed

lemma single_follows:
  assumes ok: "line_ok st s" and m: "mode (config s) = SinglePaddle"
  shows "follows D st s (tick_single_paddle D s)"
proof (cases "state s")
  case Idle
  let ?q = "s\<lparr>text_sending := True, text_queue := tl (text_queue s)\<rparr>"
  let ?d = "s\<lparr>single_paddle_decided := False\<rparr>"
  have s: "may_start st ?q" "may_start st ?d" "same_frame s ?q" "same_frame s ?d"
    using ok m Idle by (auto simp: may_start_def line_ok_def keying_state_def line_view_def
        same_frame_def phase_ok_def)
  then show ?thesis
    using Idle start_follows [OF s(2), of D] hang_follows [OF ok Idle]
      dispatch_follows [OF s(1), of D "hd (text_queue s)"]
      follows_frame [OF s(3), of D st] follows_frame [OF s(4), of D st]
    by (auto simp add: tick_single_paddle_def split: list.splits)
next
  case SendDit
  have "follows D st s (None, s)" using ok by (simp add: follows_def recorded_def)
  then show ?thesis
    using send_follows [OF ok _ _ _ ok, of DitDelay D] ok m SendDit single_undecided_follows [OF ok, of D]
    by (cases "key_active s"; cases "single_paddle_decided s")
      (simp_all add: tick_single_paddle_def same_frame_def Let_def)
next
  case SendDash
  with send_follows [OF ok _ _ _ ok, of DashDelay D] ok m show ?thesis
    by (simp add: tick_single_paddle_def same_frame_def)
next
  case StraightKey
  with ok m show ?thesis by (auto simp: tick_single_paddle_def line_defs)
next
  case LetterSpace
  with ok m show ?thesis by (auto simp: tick_single_paddle_def line_defs phase_expired_def)
next
  case DitDelay
  with single_delay_follows [OF ok, of D "dit_held s \<or> dash_held s"] m show ?thesis
    by (simp only: tick_single_paddle_def KeyerState.case Let_def) simp
next
  case DashDelay
  with single_delay_follows [OF ok, of D "dit_held s \<or> dash_held s"] m show ?thesis
    by (simp only: tick_single_paddle_def KeyerState.case Let_def) simp
qed

lemma bug_key_follows:
  assumes ok: "line_ok st s" and m: "mode (config s) = Bug"
  shows "state s = Idle \<Longrightarrow> follows D st s (ptt_or_key_down D (s\<lparr>state := StraightKey\<rparr>))"
    and "state s = StraightKey \<Longrightarrow> key_active s \<Longrightarrow>
      follows D st s (emitted (emit_key_up D (s\<lparr>state := Idle, hang_counter_us := 0\<rparr>)))"
  using ok m by (auto simp: emit_defs Let_def line_defs)

lemma silent_follows: "line_ok st s \<Longrightarrow> follows D st s (None, s)"
  by (simp add: follows_def recorded_def)

lemma bug_follows:
  assumes ok: "line_ok st s" and m: "mode (config s) = Bug"
  shows "follows D st s (tick_bug D s)"
proof (cases "state s = StraightKey")
  case True
  note up = bug_key_follows(2) [OF ok m True, of D]
  note down = emit_down_follows [OF ok, of D, unfolded keying_state_def True]
  show ?thesis
    unfolding tick_bug_def using up down silent_follows [OF ok, of D] True by simp
next
  case False
  note key = bug_key_follows(1) [OF ok m, of D]
  have "follows D st s (tick_iambic_inner D True s)"
    using ok m False by (intro inner_follows) auto
  with key False show ?thesis unfolding tick_bug_def by simp
qed

lemma phase_ok_later: "phase_ok s \<Longrightarrow> phase_ok (s\<lparr>elapsed_us := elapsed_us s + d\<rparr>)"
  by (cases "state s") (simp_all add: phase_ok_def)

lemma tick_follows:
  assumes ok: "line_ok st s"
  shows "follows D st (s\<lparr>elapsed_us := elapsed_us s + tick_us s\<rparr>) (tick D s)"
proof -
  let ?s = "s\<lparr>elapsed_us := elapsed_us s + tick_us s\<rparr>"
  have e: "line_ok st ?s" using ok by (simp add: line_ok_def phase_ok_later)
  have inner: "follows D st ?s (tick_iambic_inner D False ?s)"
    if "mode (config s) \<noteq> Straight" "mode (config s) \<noteq> Bug"
    using that ok by (intro inner_follows [OF e]) (auto simp: line_ok_def mode_state_ok_def)
  have other: "mode (config s) = Straight \<Longrightarrow> follows D st ?s (tick_straight D ?s)"
    "mode (config s) = Bug \<Longrightarrow> follows D st ?s (tick_bug D ?s)"
    "mode (config s) = SinglePaddle \<Longrightarrow> follows D st ?s (tick_single_paddle D ?s)"
    by (simp_all add: straight_follows [OF e] bug_follows [OF e] single_follows [OF e])
  have "tick D s = (case mode (config s) of Straight \<Rightarrow> tick_straight D ?s | Bug \<Rightarrow> tick_bug D ?s
      | SinglePaddle \<Rightarrow> tick_single_paddle D ?s | _ \<Rightarrow> tick_iambic_inner D False ?s)"
    by (cases "mode (config s)") (simp_all add: tick_def tick_iambic_def)
  with inner other show ?thesis by (cases "mode (config s)") simp_all
qed

section \<open>Operations\<close>

datatype KeyerOp = Tick | SetPaddle bool bool | SendText "rchar list" | AbortText
  | UpdateConfig KeyerConfig | DrainTransitions

text \<open>One call on the engine by its host. Draining always returns (\<open>drain_all\<close>).\<close>

fun engine_op :: "'d ring \<Rightarrow> KeyerOp \<Rightarrow> 'd KeyerEngine \<Rightarrow> 'd emit" where
  "engine_op D Tick s = tick D s"
| "engine_op D (SetPaddle dit dash) s = (None, set_paddle dit dash s)"
| "engine_op D (SendText t) s = (None, send_text t s)"
| "engine_op D AbortText s = (None, abort_text s)"
| "engine_op D (UpdateConfig cfg) s = (None, update_config cfg s)"
| "engine_op D DrainTransitions s =
     (None, case drain_transitions D s of Some (_, s') \<Rightarrow> s' | None \<Rightarrow> s)"

text \<open>The strict protocol needs a change of mode to come in a state that the new mode handles.\<close>

fun op_allowed :: "bool \<Rightarrow> KeyerOp \<Rightarrow> 'd KeyerEngine \<Rightarrow> bool" where
  "op_allowed strict (UpdateConfig cfg) s \<longleftrightarrow> strict \<longrightarrow> mode_state_ok (mode cfg) (state s)"
| "op_allowed strict _ s \<longleftrightarrow> True"

lemma set_paddle_fields [simp]:
  "config (set_paddle a b s) = config s" "state (set_paddle a b s) = state s"
  "phase_end_us (set_paddle a b s) = phase_end_us s" "elapsed_us (set_paddle a b s) = elapsed_us s"
  "tick_us (set_paddle a b s) = tick_us s" "ptt_active (set_paddle a b s) = ptt_active s"
  "key_active (set_paddle a b s) = key_active s" "transitions (set_paddle a b s) = transitions s"
  "hang_counter_us (set_paddle a b s) = hang_counter_us s"
  "straight_release_grace_us (set_paddle a b s) = straight_release_grace_us s"
  by (simp_all add: set_paddle_def abort_text_def Let_def case_prod_beta)

lemma drain_fields:
  assumes "drain_transitions D s = Some (ts, s')"
  shows "\<exists>d. s' = s\<lparr>transitions := d\<rparr>"
  using assms by (auto simp: drain_transitions_def)

lemma line_ok_updates [simp]:
  "line_ok st (set_paddle a b s) = line_ok st s"
  "line_ok st (abort_text s) = line_ok st s"
  "line_ok st (send_text t s) = line_ok st s"
  "line_ok st (s\<lparr>transitions := d\<rparr>) = line_ok st s"
  "line_view (set_paddle a b s) = line_view s"
  "line_view (abort_text s) = line_view s"
  "line_view (send_text t s) = line_view s"
  "line_view (update_config cfg s) = line_view s"
  "line_view (s\<lparr>transitions := d\<rparr>) = line_view s"
  by (simp_all add: line_ok_def phase_ok_def abort_text_def send_text_def line_view_def update_config_def)

lemma line_ok_update_config:
  "line_ok st s \<Longrightarrow> st \<longrightarrow> mode_state_ok (mode cfg) (state s) \<Longrightarrow> line_ok st (update_config cfg s)"
  by (simp add: line_ok_def phase_ok_def update_config_def)

lemma other_ops_ok:
  assumes "line_ok st s" "op_allowed st op s" "op \<noteq> Tick"
  shows "line_ok st (snd (engine_op D op s)) \<and> fst (engine_op D op s) = None
    \<and> line_view (snd (engine_op D op s)) = line_view s"
proof (cases op)
  case DrainTransitions
  then show ?thesis using assms(1)
    by (cases "drain_transitions D s") (auto dest!: drain_fields)
qed (use assms in \<open>simp_all add: line_ok_update_config\<close>)

interpretation engine_line: keyed_line st "engine_op D" "op_allowed st" "line_ok st" line_view
  for st :: bool and D :: "'d ring"
proof
  fix s :: "'d KeyerEngine" and op and out
  assume s: "line_ok st s" "op_allowed st op s"
  have "line_ok st (snd (engine_op D op s))
      \<and> (fst (engine_op D op s) = None \<longrightarrow> line_view (snd (engine_op D op s)) = line_view s)
      \<and> (fst (engine_op D op s) = Some out \<longrightarrow>
          line_step st (line_view s) out = Some (line_view (snd (engine_op D op s))))"
  proof (cases "op = Tick")
    case True
    with tick_follows [OF s(1), of D] show ?thesis
      by (cases "fst (tick D s)") (auto simp: follows_def)
  next
    case False
    from other_ops_ok [OF s False, of D] show ?thesis by simp
  qed
  then show "line_ok st (snd (engine_op D op s))"
    "fst (engine_op D op s) = None \<Longrightarrow> line_view (snd (engine_op D op s)) = line_view s"
    "fst (engine_op D op s) = Some out \<Longrightarrow>
      line_step st (line_view s) out = Some (line_view (snd (engine_op D op s)))"
    by simp_all
qed

lemma new_with_tick_ok:
  assumes "new_with_tick D cfg t = Some s"
  shows "line_ok st s" "line_view s = (False, False)"
  using assms by (auto simp: new_with_tick_def line_defs split: if_splits)

lemma all_allowed: "ops_allowed (engine_op D) (op_allowed False) ops s"
proof (induction ops arbitrary: s)
  case (Cons op ops)
  then show ?case by (cases op) simp_all
qed simp

text \<open>An engine for the witnesses: the default configuration, 1 ms ticks, the ring as a list.\<close>

definition sample_engine :: "KeyTransition list KeyerEngine" where
  "sample_engine = the (new_with_tick (list_deque 64) default_config 1000)"

lemma sample_new: "new_with_tick (list_deque 64) default_config 1000 = Some sample_engine"
  by (simp add: sample_engine_def new_with_tick_def)

lemma sample_press: "fst (run_ops (engine_op (list_deque 64))
    [SetPaddle True False, Tick, Tick] sample_engine) = [PttRequest True, KeyDown]"
  by code_simp

text \<open>C1: Whatever the host does with the engine (ticks, paddle changes, text, aborts, drains and
  configuration changes: to the straight-key mode only in the states \<open>Idle\<close> and \<open>StraightKey\<close>, and
  in \<open>StraightKey\<close> only to that or the bug mode), the outputs obey the strict key-line protocol:
  key-down only under PTT and only when the key is up, key-up only when it is down, PTT requests are real changes and PTT is never dropped under a pressed
  key; and the engine's \<open>ptt_active\<close> and \<open>key_active\<close> are the line's state.\<close>

theorem key_line_protocol:
  assumes "new_with_tick D cfg t = Some s"
    and "ops_allowed (engine_op D) (op_allowed True) ops s"
  shows "line_run True (False, False) (fst (run_ops (engine_op D) ops s))
    = Some (line_view (snd (run_ops (engine_op D) ops s)))"
  using engine_line.run_follows [OF new_with_tick_ok(1) [OF assms(1)] assms(2)]
  by (simp add: new_with_tick_ok [OF assms(1)])

theorem key_line_protocol_witness:
  "line_view (snd (run_ops (engine_op (list_deque 64)) [SetPaddle True False, Tick, Tick] sample_engine))
    = (True, True)"
  using key_line_protocol [OF sample_new, of "[SetPaddle True False, Tick, Tick]"]
  by (simp only: sample_press) simp

text \<open>C2: With arbitrary mode changes at any moment the outputs still obey the loose protocol: the
  carrier is keyed only under PTT and PTT is never dropped under a pressed key.\<close>

theorem carrier_only_under_ptt:
  assumes "new_with_tick D cfg t = Some s"
  shows "line_run False (False, False) (fst (run_ops (engine_op D) ops s))
    = Some (line_view (snd (run_ops (engine_op D) ops s)))"
  using engine_line.run_follows [OF new_with_tick_ok(1) [OF assms(1)] all_allowed]
  by (simp add: new_with_tick_ok [OF assms])

theorem carrier_only_under_ptt_witness:
  "line_view (snd (run_ops (engine_op (list_deque 64))
      [SetPaddle True False, Tick, Tick, UpdateConfig (default_config\<lparr>mode := Straight\<rparr>)] sample_engine))
    = (True, True)"
proof -
  have "fst (run_ops (engine_op (list_deque 64))
      [SetPaddle True False, Tick, Tick, UpdateConfig (default_config\<lparr>mode := Straight\<rparr>)] sample_engine)
      = [PttRequest True, KeyDown]" by code_simp
  with carrier_only_under_ptt [OF sample_new, of
      "[SetPaddle True False, Tick, Tick, UpdateConfig (default_config\<lparr>mode := Straight\<rparr>)]"]
  show ?thesis by (simp only:) simp
qed

end
