(* ===== verification/Engine_Ring.thy ===== *)
theory Engine_Ring
  imports Engine_Safety
begin

text \<open>
  The recorded transitions, the bound of the phase deadline, and the mode change that sticks
  the key. The transition ring is an \<open>evicting_log\<close>: a drain returns the most recent 64
  transitions since the previous drain, oldest first, with the tick times at which the outputs
  were emitted.
\<close>

section \<open>The transition ring\<close>

definition push_transitions :: "'d ring \<Rightarrow> KeyTransition list \<Rightarrow> 'd KeyerEngine \<Rightarrow> 'd KeyerEngine" where
  "push_transitions D ts s = s\<lparr>transitions := fold (ring_push D) ts (transitions s)\<rparr>"

lemma record_transition_push:
  "record_transition D down s = push_transitions D [\<lparr>key_down = down, timestamp_us = elapsed_us s\<rparr>] s"
  by (simp add: record_transition_def push_transitions_def Let_def)

lemma ring_push_all:
  assumes D: "deque_laws D n" and len: "length (dq_iter D d) \<le> n"
  shows "dq_iter D (fold (ring_push D) ts d) = keep_last n (dq_iter D d @ ts)"
  using len
proof (induction ts arbitrary: d)
  case (Cons t ts)
  then show ?case
    by (simp add: ring_push_iter [OF D] keep_last_append_keep_last)
qed simp

definition ring_valid :: "'d ring \<Rightarrow> 'd KeyerEngine \<Rightarrow> bool" where
  "ring_valid D s \<longleftrightarrow> deque_laws D MAX_RECORDED_TRANSITIONS \<and>
     length (dq_iter D (transitions s)) \<le> MAX_RECORDED_TRANSITIONS"

interpretation transition_log: evicting_log "push_transitions D" "\<lambda>s. dq_iter D (transitions s)"
    "\<lambda>_. MAX_RECORDED_TRANSITIONS" "ring_valid D"
  for D :: "'d ring"
  by unfold_locales (auto simp: ring_valid_def push_transitions_def ring_push_all)

text \<open>The transitions emitted by a run, with the times of their ticks.\<close>

definition emitted_events :: "nat \<Rightarrow> KeyerOutput option \<Rightarrow> KeyTransition list" where
  "emitted_events now out =
     (case out of None \<Rightarrow> [] | Some x \<Rightarrow> (case key_event now x of None \<Rightarrow> [] | Some t \<Rightarrow> [t]))"

fun key_log :: "'d ring \<Rightarrow> KeyerOp list \<Rightarrow> 'd KeyerEngine \<Rightarrow> KeyTransition list" where
  "key_log D [] s = []"
| "key_log D (op # ops) s =
     (let (out, s') = engine_op D op s
      in emitted_events (elapsed_us s') out @ key_log D ops s')"

lemma recorded_events:
  "recorded D now out d = fold (ring_push D) (emitted_events now out) d"
  by (simp add: recorded_def emitted_events_def split: option.split)

lemma op_transitions:
  assumes "line_ok False s" "op \<noteq> DrainTransitions"
  shows "transitions (snd (engine_op D op s)) =
    transitions (push_transitions D
      (emitted_events (elapsed_us (snd (engine_op D op s))) (fst (engine_op D op s))) s)"
  using assms tick_follows [OF assms(1), of D]
  by (cases op) (auto simp: follows_def recorded_events push_transitions_def emitted_events_def
      send_text_def abort_text_def update_config_def)

lemma ring_valid_transitions: "transitions s' = transitions s \<Longrightarrow> ring_valid D s' = ring_valid D s"
  by (simp add: ring_valid_def)

lemma run_transitions:
  assumes "ring_valid D s" "line_ok False s" "DrainTransitions \<notin> set ops"
  shows "dq_iter D (transitions (snd (run_ops (engine_op D) ops s)))
    = keep_last MAX_RECORDED_TRANSITIONS (dq_iter D (transitions s) @ key_log D ops s)"
  using assms
proof (induction ops arbitrary: s)
  case Nil
  then show ?case by (simp add: ring_valid_def)
next
  case (Cons op ops)
  let ?s = "snd (engine_op D op s)"
  let ?ts = "emitted_events (elapsed_us ?s) (fst (engine_op D op s))"
  have t: "transitions ?s = transitions (push_transitions D ?ts s)"
    using op_transitions [of s op D] Cons.prems by auto
  have "ring_valid D ?s"
    using ring_valid_transitions [OF t, of D] transition_log.push_valid [OF Cons.prems(1)] by blast
  moreover have "line_ok False ?s"
    using engine_line.run_ok [OF Cons.prems(2) all_allowed, of D "[op]"] by (simp add: case_prod_beta)
  moreover have "dq_iter D (transitions ?s)
      = keep_last MAX_RECORDED_TRANSITIONS (dq_iter D (transitions s) @ ?ts)"
    using transition_log.push_contents [OF Cons.prems(1), of ?ts] t by simp
  ultimately show ?case
    using Cons by (simp add: case_prod_beta keep_last_append_keep_last)
qed

lemma drain_all:
  assumes "deque_laws D n"
  shows "\<exists>d. drain_transitions D s = Some (dq_iter D (transitions s), s\<lparr>transitions := d\<rparr>) \<and>
    dq_iter D d = []"
  using deque_drain_iter [OF assms, of "[]" "transitions s"]
  by (auto simp: drain_transitions_def)

text \<open>C5: Draining the recorded transitions always returns. From an empty ring, after any
  operations without a drain in between, it returns exactly the last 64 key transitions the
  engine emitted, oldest first and each with the time of its tick, and leaves the ring empty.\<close>

theorem drain_returns_last_transitions:
  assumes "deque_laws D MAX_RECORDED_TRANSITIONS"
    and "line_ok False s" and "dq_iter D (transitions s) = []"
    and "DrainTransitions \<notin> set ops"
  shows "\<exists>d. drain_transitions D (snd (run_ops (engine_op D) ops s))
      = Some (keep_last 64 (key_log D ops s),
              (snd (run_ops (engine_op D) ops s))\<lparr>transitions := d\<rparr>)
    \<and> dq_iter D d = []"
proof -
  have "ring_valid D s" using assms by (simp add: ring_valid_def)
  from run_transitions [OF this assms(2,4)] drain_all [OF assms(1), of "snd (run_ops (engine_op D) ops s)"] assms(3)
  show ?thesis
    by (simp add: MAX_RECORDED_TRANSITIONS_def)
qed

theorem drain_returns_last_transitions_witness:
  "\<exists>d. drain_transitions (list_deque 64) (snd (run_ops (engine_op (list_deque 64))
        [SetPaddle True False, Tick, Tick] sample_engine))
      = Some ([\<lparr>key_down = True, timestamp_us = 2000\<rparr>],
          (snd (run_ops (engine_op (list_deque 64)) [SetPaddle True False, Tick, Tick] sample_engine))
            \<lparr>transitions := d\<rparr>)"
proof -
  have log: "keep_last 64 (key_log (list_deque 64) [SetPaddle True False, Tick, Tick] sample_engine)
      = [\<lparr>key_down = True, timestamp_us = 2000\<rparr>]" by code_simp
  have empty: "dq_iter (list_deque 64) (transitions sample_engine) = []"
    by (simp add: sample_engine_def new_with_tick_def list_deque_def)
  have laws: "deque_laws (list_deque 64 :: KeyTransition list ring) MAX_RECORDED_TRANSITIONS"
    by (simp add: MAX_RECORDED_TRANSITIONS_def list_deque_laws)
  show ?thesis
    using drain_returns_last_transitions [OF laws new_with_tick_ok(1) [OF sample_new] empty,
        of "[SetPaddle True False, Tick, Tick]"]
    unfolding log by auto
qed

section \<open>Deadlines\<close>

lemma elapsed_run: "line_ok False s \<Longrightarrow>
    elapsed_us (snd (run_ops (engine_op D) ops s)) =
      elapsed_us s + length (filter (\<lambda>op. op = Tick) ops) * tick_us s \<and>
    tick_us (snd (run_ops (engine_op D) ops s)) = tick_us s"
proof (induction ops arbitrary: s)
  case (Cons op ops)
  let ?s = "snd (engine_op D op s)"
  have "line_ok False ?s"
    using engine_line.run_ok [OF Cons.prems all_allowed, of D "[op]"] by (simp add: case_prod_beta)
  moreover have "elapsed_us ?s = elapsed_us s + (if op = Tick then tick_us s else 0)
      \<and> tick_us ?s = tick_us s"
    using tick_follows [OF Cons.prems, of D]
    by (cases op) (auto simp: follows_def send_text_def abort_text_def update_config_def
        dest!: drain_fields split: option.split)
  ultimately show ?case using Cons.IH [of ?s] by (simp add: case_prod_beta)
qed simp

text \<open>The engine's clock is the number of ticks times the tick quantum, and the deadline of
  the current phase is never more than 22.4 s (the longest gap) ahead of it; so neither
  \<^verbatim>\<open>u64\<close> field can overflow before the clock itself comes within 22.4 s of \<open>2^64\<close>.\<close>

theorem phase_end_bound:
  assumes "new_with_tick D cfg t = Some s"
  shows "elapsed_us (snd (run_ops (engine_op D) ops s)) = length (filter (\<lambda>op. op = Tick) ops) * t
    \<and> phase_end_us (snd (run_ops (engine_op D) ops s))
        \<le> elapsed_us (snd (run_ops (engine_op D) ops s)) + 22400000"
  using engine_line.run_ok [OF new_with_tick_ok(1) [OF assms] all_allowed, of D ops]
    elapsed_run [OF new_with_tick_ok(1) [OF assms], of D ops] assms
  by (auto simp: line_ok_def phase_ok_def new_with_tick_def split: if_splits)

theorem phase_end_bound_witness:
  "elapsed_us (snd (run_ops (engine_op (list_deque 64)) [SetPaddle True False, Tick, Tick] sample_engine))
    = 2000"
  using phase_end_bound [OF sample_new, of "[SetPaddle True False, Tick, Tick]"] by simp

section \<open>The mode change that sticks the key\<close>

text \<open>C6: A change to the straight-key mode while the key is down for an element leaves the key
  down: no tick, paddle change, text or abort ever emits anything again, whatever the paddles
  do, until the configuration is changed back.\<close>

theorem mode_change_sticks_key:
  assumes "state s = SendDit \<or> state s = SendDash" and "key_active s"
    and "mode cfg = Straight" and "\<forall>op\<in>set ops. \<forall>c. op \<noteq> UpdateConfig c"
  shows "fst (run_ops (engine_op D) (UpdateConfig cfg # ops) s) = []
    \<and> key_active (snd (run_ops (engine_op D) (UpdateConfig cfg # ops) s))"
proof -
  have stuck: "fst (run_ops (engine_op D) ops s) = [] \<and> key_active (snd (run_ops (engine_op D) ops s))"
    if "state s = SendDit \<or> state s = SendDash" "key_active s" "mode (config s) = Straight"
      "\<forall>op\<in>set ops. \<forall>c. op \<noteq> UpdateConfig c" for s :: "'a KeyerEngine" and ops
    using that
  proof (induction ops arbitrary: s)
    case (Cons op ops)
    let ?s = "snd (engine_op D op s)"
    have "fst (engine_op D op s) = None \<and> state ?s = state s \<and> key_active ?s \<and> config ?s = config s"
      using Cons.prems
      by (cases op) (auto simp: tick_def tick_straight_def Let_def send_text_def abort_text_def
          dest!: drain_fields split: option.split)
    with Cons show ?case by (auto simp: case_prod_beta)
  qed simp
  have "state (update_config cfg s) = state s" "key_active (update_config cfg s)"
    "mode (config (update_config cfg s)) = Straight"
    using assms by (simp_all add: update_config_def)
  from stuck [of "update_config cfg s" ops] this assms show ?thesis by (simp add: case_prod_beta)
qed

definition sample_keyed :: "KeyTransition list KeyerEngine" where
  "sample_keyed = snd (run_ops (engine_op (list_deque 64)) [SetPaddle True False, Tick, Tick] sample_engine)"

theorem mode_change_sticks_key_witness:
  "key_active (snd (run_ops (engine_op (list_deque 64))
      (UpdateConfig (default_config\<lparr>mode := Straight\<rparr>) # SetPaddle False False # replicate 1000 Tick)
      sample_keyed))"
proof -
  have "state sample_keyed = SendDit" "key_active sample_keyed" by code_simp+
  then show ?thesis
    using mode_change_sticks_key [of sample_keyed "default_config\<lparr>mode := Straight\<rparr>"
        "SetPaddle False False # replicate 1000 Tick"]
    by simp
qed

end
