(* ===== verification/Engine_Timing.thy ===== *)
theory Engine_Timing
  imports Engine_Ring
begin

text \<open>
  When the engine's outputs happen. A phase that is due at \<open>x\<close> ends at the first tick at or
  after \<open>x\<close> (\<open>tick_at\<close>). Dits repeated by a held paddle stay on the ideal grid for ever
  (\<open>held_dit_no_drift\<close>); the marks and gaps of a queued text are each anchored to the tick that
  dispatches them, so every gap lasts two ticks more than its nominal length
  (\<open>text_transmission\<close>, \<open>text_timeline\<close>).
\<close>

text \<open>The number of ticks that cover a duration.\<close>

definition ceil_ticks :: "nat \<Rightarrow> nat \<Rightarrow> nat" where
  "ceil_ticks T d = (d + T - 1) div T"

lemma ceil_ticks_bounds:
  assumes "0 < T"
  shows "d \<le> ceil_ticks T d * T" "0 < d \<Longrightarrow> (ceil_ticks T d - 1) * T < d" "ceil_ticks T d * T < d + T"
proof -
  have m: "(d + T - 1) mod T < T" "(d + T - 1) div T * T + (d + T - 1) mod T = d + T - 1"
    using assms by simp_all
  show "d \<le> ceil_ticks T d * T" "ceil_ticks T d * T < d + T"
    using m assms unfolding ceil_ticks_def by linarith+
  then show "0 < d \<Longrightarrow> (ceil_ticks T d - 1) * T < d"
    by (cases "ceil_ticks T d") auto
qed

lemma ceil_ticks_pos: "0 < T \<Longrightarrow> 0 < d \<Longrightarrow> 0 < ceil_ticks T d"
  using ceil_ticks_bounds(1) [of T d] by (cases "ceil_ticks T d") auto

definition iambic_mode :: "KeyerMode \<Rightarrow> bool" where
  "iambic_mode m \<longleftrightarrow> m = IambicA \<or> m = IambicB \<or> m = Ultimatic \<or> m = Bug"

lemma tick_iambic_mode:
  assumes "iambic_mode (mode (config s))" "\<not> dash_held s" "state s \<noteq> StraightKey"
  shows "tick D s = tick_iambic_inner D (mode (config s) = Bug) (s\<lparr>elapsed_us := elapsed_us s + tick_us s\<rparr>)"
  using assms by (cases "mode (config s)")
    (simp_all add: iambic_mode_def tick_def tick_iambic_def tick_bug_def)

lemma key_log_append:
  "key_log D (ops @ ops') s = key_log D ops s @ key_log D ops' (snd (run_ops (engine_op D) ops s))"
  by (induction ops arbitrary: s) (simp_all add: case_prod_beta)

lemma run_ops_append:
  "snd (run_ops step (ops @ ops') s) = snd (run_ops step ops' (snd (run_ops step ops s)))"
  by (induction ops arbitrary: s) (simp_all add: case_prod_beta)

text \<open>Ticks as a run.\<close>

abbreviation ticks :: "'d ring \<Rightarrow> nat \<Rightarrow> 'd KeyerEngine \<Rightarrow> 'd KeyerEngine" where
  "ticks D n s \<equiv> snd (run_ops (engine_op D) (replicate n Tick) s)"

abbreviation tick_log :: "'d ring \<Rightarrow> nat \<Rightarrow> 'd KeyerEngine \<Rightarrow> KeyTransition list" where
  "tick_log D n s \<equiv> key_log D (replicate n Tick) s"

lemma tick_log_add: "tick_log D (m + n) s = tick_log D m s @ tick_log D n (ticks D m s)"
  by (simp add: replicate_add key_log_append)

lemma ticks_add: "ticks D (m + n) s = ticks D n (ticks D m s)"
  by (simp add: replicate_add run_ops_append)

lemma tick_log_Suc: "tick_log D (Suc n) s =
    emitted_events (elapsed_us (snd (tick D s))) (fst (tick D s)) @ tick_log D n (snd (tick D s))"
  by (simp add: case_prod_beta)

lemma ticks_Suc: "ticks D (Suc n) s = ticks D n (snd (tick D s))"
  by (simp add: case_prod_beta)

lemma ticks_0 [simp]: "ticks D 0 s = s" "tick_log D 0 s = []"
  by simp_all

text \<open>A phase in which nothing happens until its deadline: an element with the key down, or a
  gap, with no paddle of the other side held.\<close>

definition waiting :: "'d KeyerEngine \<Rightarrow> bool" where
  "waiting s \<longleftrightarrow> line_ok False s \<and> iambic_mode (mode (config s)) \<and> \<not> dash_held s \<and>
     (state s = SendDit \<and> key_active s \<or> state s = SendDash \<and> key_active s \<and> \<not> dit_held s \<or>
      state s = DitDelay \<and> (dit_held s \<longrightarrow> \<not> text_sending s) \<or> state s = LetterSpace \<and> \<not> dit_held s)"

lemma tick_waiting:
  assumes "waiting s" "elapsed_us s + tick_us s < phase_end_us s"
  shows "tick D s = (None, s\<lparr>elapsed_us := elapsed_us s + tick_us s\<rparr>)"
proof -
  have "state s \<noteq> StraightKey" "\<not> dash_held s" "iambic_mode (mode (config s))"
    using assms by (auto simp: waiting_def)
  with assms show ?thesis
    by (auto simp: tick_iambic_mode tick_iambic_inner_def waiting_def phase_expired_def)
qed

lemma waiting_elapsed: "waiting s \<Longrightarrow> waiting (s\<lparr>elapsed_us := elapsed_us s + d\<rparr>)"
  by (simp add: waiting_def line_ok_def phase_ok_later)

lemma tick_elapsed: "line_ok False s \<Longrightarrow> elapsed_us (snd (tick D s)) = elapsed_us s + tick_us s"
  using tick_follows [of False s D] by (simp add: follows_def)

lemma ticks_waiting:
  assumes "waiting s" "n = 0 \<or> elapsed_us s + n * tick_us s < phase_end_us s"
  shows "tick_log D n s = [] \<and> ticks D n s = s\<lparr>elapsed_us := elapsed_us s + n * tick_us s\<rparr>"
  using assms
proof (induction n arbitrary: s)
  case (Suc n)
  then have lt: "elapsed_us s + tick_us s + n * tick_us s < phase_end_us s" by simp
  then have t: "tick D s = (None, s\<lparr>elapsed_us := elapsed_us s + tick_us s\<rparr>)"
    using Suc.prems by (intro tick_waiting) auto
  show ?case
    using Suc.IH [of "s\<lparr>elapsed_us := elapsed_us s + tick_us s\<rparr>"] Suc.prems lt
    by (simp add: waiting_elapsed t tick_log_Suc ticks_Suc emitted_events_def ac_simps)
qed simp

text \<open>The last tick of a waiting phase that is due \<open>d\<close> microseconds from now.\<close>

lemma ticks_to_deadline:
  assumes "waiting s" "0 < tick_us s" "phase_end_us s = elapsed_us s + d" "0 < d"
    and n: "n = ceil_ticks (tick_us s) d"
  shows "tick_log D n s = emitted_events (elapsed_us s + n * tick_us s)
      (fst (tick D (s\<lparr>elapsed_us := elapsed_us s + (n - 1) * tick_us s\<rparr>)))"
    and "ticks D n s = snd (tick D (s\<lparr>elapsed_us := elapsed_us s + (n - 1) * tick_us s\<rparr>))"
    and "phase_end_us s \<le> elapsed_us s + n * tick_us s"
    and "elapsed_us s + n * tick_us s < phase_end_us s + tick_us s"
proof -
  obtain m where m: "n = Suc m" using ceil_ticks_pos [of "tick_us s" d] assms(2,4) n by (cases "ceil_ticks (tick_us s) d") auto
  have b: "d \<le> n * tick_us s" "m * tick_us s < d" "n * tick_us s < d + tick_us s"
    using ceil_ticks_bounds [OF assms(2), of d] assms(4) n [symmetric] m by simp_all
  show "phase_end_us s \<le> elapsed_us s + n * tick_us s"
    "elapsed_us s + n * tick_us s < phase_end_us s + tick_us s"
    using b assms(3) by simp_all
  let ?s = "s\<lparr>elapsed_us := elapsed_us s + m * tick_us s\<rparr>"
  have w: "tick_log D m s = []" "ticks D m s = ?s"
    using ticks_waiting [OF assms(1), of m D] b(2) assms(3) by auto
  have e: "elapsed_us (snd (tick D ?s)) = elapsed_us s + n * tick_us s"
    using waiting_elapsed [OF assms(1), of "m * tick_us s"]
    by (simp add: tick_elapsed waiting_def m)
  show "tick_log D n s = emitted_events (elapsed_us s + n * tick_us s)
      (fst (tick D (s\<lparr>elapsed_us := elapsed_us s + (n - 1) * tick_us s\<rparr>)))"
    using tick_log_add [of D m 1 s] w e by (simp add: m case_prod_beta)
  show "ticks D n s = snd (tick D (s\<lparr>elapsed_us := elapsed_us s + (n - 1) * tick_us s\<rparr>))"
    using ticks_add [of D m 1 s] w by (simp add: m case_prod_beta)
qed

section \<open>Queued text\<close>

fun element_us :: "KeyerConfig \<Rightarrow> MorseElement \<Rightarrow> nat" where
  "element_us cfg Dit = effective_dot_duration_us cfg"
| "element_us cfg Dash = effective_dash_duration_us cfg"
| "element_us cfg ElementGap = element_gap_us cfg"
| "element_us cfg LetterGap = letter_gap_us cfg"
| "element_us cfg WordGap = word_gap_us cfg"

definition is_mark :: "MorseElement \<Rightarrow> bool" where
  "is_mark e \<longleftrightarrow> e = Dit \<or> e = Dash"

lemma dot_duration_ge: "4705 \<le> dot_duration_us c"
proof -
  have "unat (max (speed_wpm c) 1) \<le> 255"
    using unsigned_less [of "max (speed_wpm c) 1", where 'a = nat] by simp
  moreover have "0 < unat (max (speed_wpm c) 1)" by (auto simp: max_def unat_gt_0)
  ultimately have "1200000 div 255 \<le> dot_duration_us c"
    unfolding dot_duration_us_def by (intro div_le_mono2)
  then show ?thesis by simp
qed

lemma dash_duration_ge: "dot_duration_us c \<le> dash_duration_us c"
  using dash_duration_weighted [of c] dash_duration_dynamic [of c] dot_duration_ge [of c]
  by (cases "dynamic_ratio c \<and> speed_wpm c > dynamic_ratio_low_wpm c") auto

lemma element_us_pos: "0 < element_us cfg e"
  using dot_duration_ge [of cfg] dash_duration_ge [of cfg] letter_gap_bounds(1) [of cfg]
    word_gap_bounds(1) [of cfg]
  by (cases e) (simp_all add: effective_dot_duration_us_def effective_dash_duration_us_def element_gap_us_def)

text \<open>When a queued text is keyed, from the tick at \<open>now\<close> on.\<close>

fun text_timeline :: "KeyerConfig \<Rightarrow> nat \<Rightarrow> nat \<Rightarrow> MorseElement list \<Rightarrow> KeyTransition list" where
  "text_timeline cfg T now [] = []"
| "text_timeline cfg T now (e # q) =
     (let done = now + T + ceil_ticks T (element_us cfg e) * T
      in (if is_mark e then [\<lparr>key_down = True, timestamp_us = now + T\<rparr>,
                             \<lparr>key_down = False, timestamp_us = done\<rparr>] else [])
         @ text_timeline cfg T done q)"

definition text_ticks :: "KeyerConfig \<Rightarrow> nat \<Rightarrow> MorseElement list \<Rightarrow> nat" where
  "text_ticks cfg T q = sum_list (map (\<lambda>e. Suc (ceil_ticks T (element_us cfg e))) q)"

text \<open>Idle under PTT with a text queued and no paddle pressed or remembered.\<close>

definition text_idle :: "KeyerConfig \<Rightarrow> nat \<Rightarrow> nat \<Rightarrow> MorseElement list \<Rightarrow> 'd KeyerEngine \<Rightarrow> bool" where
  "text_idle cfg T now q s \<longleftrightarrow> line_ok False s \<and> config s = cfg \<and> iambic_mode (mode cfg) \<and>
     tick_us s = T \<and> elapsed_us s = now \<and> state s = Idle \<and> \<not> key_active s \<and> ptt_active s \<and>
     text_queue s = q \<and> \<not> dit_held s \<and> \<not> dash_held s \<and> \<not> dit_memory s \<and> \<not> dash_memory s"

definition text_phase :: "KeyerConfig \<Rightarrow> nat \<Rightarrow> nat \<Rightarrow> nat \<Rightarrow> MorseElement list \<Rightarrow> KeyerState \<Rightarrow> 'd KeyerEngine \<Rightarrow> bool" where
  "text_phase cfg T now d q st s \<longleftrightarrow> line_ok False s \<and> config s = cfg \<and> iambic_mode (mode cfg) \<and>
     tick_us s = T \<and> elapsed_us s = now \<and> phase_end_us s = now + d \<and> state s = st \<and>
     key_active s = (st \<noteq> DitDelay) \<and> ptt_active s \<and> text_sending s \<and>
     text_queue s = q \<and> \<not> dit_held s \<and> \<not> dash_held s \<and> \<not> dit_memory s \<and> \<not> dash_memory s"

definition phase_of :: "MorseElement \<Rightarrow> KeyerState" where
  "phase_of e = (case e of Dit \<Rightarrow> SendDit | Dash \<Rightarrow> SendDash | _ \<Rightarrow> DitDelay)"

lemma text_dispatch:
  assumes s: "text_idle cfg T now (e # q) s"
  shows "fst (tick D s) = (if is_mark e then Some KeyDown else None)"
    and "text_phase cfg T (now + T) (element_us cfg e) q (phase_of e) (snd (tick D s))"
proof -
  let ?s = "s\<lparr>elapsed_us := now + T\<rparr>"
  let ?q = "?s\<lparr>text_sending := True, text_queue := q\<rparr>"
  have ok: "line_ok False (snd (tick D s))"
    using s tick_follows [of False s D] by (simp add: text_idle_def follows_def)
  have "phase_end_us s \<le> now" "0 < T" using s by (auto simp: text_idle_def line_ok_def phase_ok_def)
  then have fresh: "\<not> now + T < phase_end_us s + T" by simp
  have "tick D s = dispatch_text_element D e ?q"
    using s by (simp add: text_idle_def tick_iambic_mode tick_iambic_inner_def)
  moreover from this have "fst (tick D s) = (if is_mark e then Some KeyDown else None)
      \<and> (line_ok False (snd (tick D s)) \<longrightarrow>
          text_phase cfg T (now + T) (element_us cfg e) q (phase_of e) (snd (tick D s)))"
    using s fresh
    by (cases e) (auto simp: text_idle_def text_phase_def phase_of_def is_mark_def emit_defs Let_def)
  ultimately show "fst (tick D s) = (if is_mark e then Some KeyDown else None)"
    "text_phase cfg T (now + T) (element_us cfg e) q (phase_of e) (snd (tick D s))"
    using ok by auto
qed

lemma text_phase_waiting:
  "text_phase cfg T now d q (phase_of e) s \<Longrightarrow> waiting s"
  by (cases e) (auto simp: text_phase_def phase_of_def waiting_def)

lemma text_phase_end:
  assumes "text_phase cfg T now d q (phase_of e) s" "0 < d" "is_mark e \<or> q \<noteq> []"
  shows "tick_log D (ceil_ticks T d) s =
      (if is_mark e then [\<lparr>key_down = False, timestamp_us = now + ceil_ticks T d * T\<rparr>] else [])"
    and "text_idle cfg T (now + ceil_ticks T d * T) q (ticks D (ceil_ticks T d) s)"
proof -
  let ?n = "ceil_ticks T d"
  let ?s = "s\<lparr>elapsed_us := now + (?n - 1) * T\<rparr>"
  have w: "waiting s" by (rule text_phase_waiting) (rule assms(1))
  have T: "0 < T" "tick_us s = T" "elapsed_us s = now" "phase_end_us s = now + d"
    using assms(1) by (auto simp: text_phase_def line_ok_def phase_ok_def)
  note dl = ticks_to_deadline(1,2) [OF w _ _ assms(2) refl, of D, unfolded T, OF T(1) refl]
  note due = ticks_to_deadline(3) [OF w _ _ assms(2) refl, unfolded T, OF T(1) refl]
  obtain m where m: "?n = Suc m" using ceil_ticks_pos [OF T(1) assms(2)] by (cases ?n) auto
  have ok: "line_ok False ?s" using waiting_elapsed [OF w, of "(?n - 1) * T"] T by (simp add: waiting_def)
  have ok': "line_ok False (snd (tick D ?s))" "elapsed_us (snd (tick D ?s)) = now + ?n * T"
    using tick_follows [OF ok, of D] by (auto simp: follows_def T m)
  have exp: "now + d \<le> now + m * T + T" using due by (simp add: m)
  have "fst (tick D ?s) = (if is_mark e then Some KeyUp else None) \<and>
      (line_ok False (snd (tick D ?s)) \<and> elapsed_us (snd (tick D ?s)) = now + ?n * T \<longrightarrow>
       text_idle cfg T (now + ?n * T) q (snd (tick D ?s)))"
    using assms(1,3) exp
    by (cases e) (auto simp: text_phase_def text_idle_def phase_of_def is_mark_def tick_iambic_mode
        tick_iambic_inner_def phase_expired_def emitted_def emit_key_up_def record_transition_def
        resolve_after_dit_delay_def resolve_ultimatic_def resolve_delay_tail_def m Let_def)
  then show "tick_log D ?n s =
      (if is_mark e then [\<lparr>key_down = False, timestamp_us = now + ?n * T\<rparr>] else [])"
    "text_idle cfg T (now + ?n * T) q (ticks D ?n s)"
    using dl(1,2) ok' by (auto simp: emitted_events_def key_event_def)
qed

lemma text_element:
  assumes "text_idle cfg T now (e # q) s" "is_mark e \<or> q \<noteq> []"
  defines "d \<equiv> element_us cfg e"
  shows "tick_log D (Suc (ceil_ticks T d)) s = text_timeline cfg T now [e]"
    and "text_idle cfg T (now + T + ceil_ticks T d * T) q (ticks D (Suc (ceil_ticks T d)) s)"
proof -
  note p = text_dispatch [OF assms(1), of D]
  have d: "0 < d" by (simp add: d_def element_us_pos)
  note q = text_phase_end [OF p(2) [folded d_def] d assms(2), of D]
  have "elapsed_us (snd (tick D s)) = now + T" using p(2) by (simp add: text_phase_def)
  then show "tick_log D (Suc (ceil_ticks T d)) s = text_timeline cfg T now [e]"
    using p(1) q(1) unfolding tick_log_Suc by (simp add: emitted_events_def key_event_def d_def Let_def)
  show "text_idle cfg T (now + T + ceil_ticks T d * T) q (ticks D (Suc (ceil_ticks T d)) s)"
    using q(2) unfolding ticks_Suc .
qed

lemma text_run:
  assumes "text_idle cfg T now q s" "q = [] \<or> is_mark (last q)"
  shows "tick_log D (text_ticks cfg T q) s = text_timeline cfg T now q
    \<and> text_idle cfg T (now + text_ticks cfg T q * T) [] (ticks D (text_ticks cfg T q) s)"
  using assms
proof (induction q arbitrary: now s)
  case Nil
  then show ?case by (simp add: text_ticks_def)
next
  case (Cons e q)
  let ?n = "Suc (ceil_ticks T (element_us cfg e))"
  have "is_mark e \<or> q \<noteq> []" using Cons.prems(2) by auto
  note el = text_element [OF Cons.prems(1) this, of D]
  have "q = [] \<or> is_mark (last q)" using Cons.prems(2) by (cases q) auto
  note IH = Cons.IH [OF el(2) this]
  have n: "text_ticks cfg T (e # q) = ?n + text_ticks cfg T q" by (simp add: text_ticks_def)
  show ?case
    unfolding n tick_log_add ticks_add using IH el(1)
    by (simp add: Let_def algebra_simps)
qed

text \<open>The first mark of a cold start: the PTT request takes the first tick of the element.\<close>

lemma ceil_ticks_minus:
  assumes "0 < T" "k * T \<le> d"
  shows "ceil_ticks T (d - k * T) = ceil_ticks T d - k"
proof -
  have "d + T - 1 = (d - k * T + T - 1) + k * T" using assms by simp
  then have "ceil_ticks T d = (d - k * T + T - 1 + k * T) div T"
    unfolding ceil_ticks_def by (rule arg_cong)
  also have "\<dots> = ceil_ticks T (d - k * T) + k"
    unfolding ceil_ticks_def using assms(1) by (subst div_mult_self1) (auto simp: add.commute)
  finally show ?thesis by simp
qed

definition text_cold :: "KeyerConfig \<Rightarrow> nat \<Rightarrow> nat \<Rightarrow> MorseElement list \<Rightarrow> 'd KeyerEngine \<Rightarrow> bool" where
  "text_cold cfg T now q s \<longleftrightarrow> line_ok False s \<and> config s = cfg \<and> iambic_mode (mode cfg) \<and>
     tick_us s = T \<and> elapsed_us s = now \<and> state s = Idle \<and> \<not> key_active s \<and> \<not> ptt_active s \<and>
     text_queue s = q \<and> \<not> dit_held s \<and> \<not> dash_held s \<and> \<not> dit_memory s \<and> \<not> dash_memory s"

definition ptt_phase :: "KeyerConfig \<Rightarrow> nat \<Rightarrow> nat \<Rightarrow> nat \<Rightarrow> MorseElement list \<Rightarrow> KeyerState \<Rightarrow> 'd KeyerEngine \<Rightarrow> bool" where
  "ptt_phase cfg T now d q st s \<longleftrightarrow> line_ok False s \<and> config s = cfg \<and> iambic_mode (mode cfg) \<and>
     tick_us s = T \<and> elapsed_us s = now \<and> phase_end_us s = now + d \<and> state s = st \<and>
     \<not> key_active s \<and> ptt_active s \<and> text_sending s \<and>
     text_queue s = q \<and> \<not> dit_held s \<and> \<not> dash_held s \<and> \<not> dit_memory s \<and> \<not> dash_memory s"

lemma ptt_phase_key:
  assumes s: "ptt_phase cfg T now d q (phase_of e) s" and e: "is_mark e" and d: "T \<le> d"
  shows "fst (tick D s) = Some KeyDown"
    and "text_phase cfg T (now + T) (d - T) q (phase_of e) (snd (tick D s))"
proof -
  have ok: "line_ok False (snd (tick D s))"
    using s tick_follows [of False s D] by (simp add: ptt_phase_def follows_def)
  have "tick D s = emitted (emit_key_down D (s\<lparr>elapsed_us := now + T\<rparr>))"
    using s e by (cases e) (simp_all add: ptt_phase_def phase_of_def is_mark_def tick_iambic_mode
        tick_iambic_inner_def)
  moreover from this have "line_ok False (snd (tick D s)) \<longrightarrow>
      text_phase cfg T (now + T) (d - T) q (phase_of e) (snd (tick D s))"
    using s e d
    by (cases e) (simp_all add: ptt_phase_def text_phase_def phase_of_def is_mark_def emitted_def
        emit_key_down_def record_transition_def Let_def)
  ultimately show "fst (tick D s) = Some KeyDown"
    "text_phase cfg T (now + T) (d - T) q (phase_of e) (snd (tick D s))"
    using ok by (simp_all add: emitted_def emit_key_down_def Let_def)
qed

lemma text_cold_dispatch:
  assumes s: "text_cold cfg T now (e # q) s" and e: "is_mark e"
  shows "fst (tick D s) = Some (PttRequest True)"
    and "ptt_phase cfg T (now + T) (element_us cfg e) q (phase_of e) (snd (tick D s))"
proof -
  let ?q = "s\<lparr>elapsed_us := now + T, text_sending := True, text_queue := q\<rparr>"
  have ok: "line_ok False (snd (tick D s))"
    using s tick_follows [of False s D] by (simp add: text_cold_def follows_def)
  have "phase_end_us s \<le> now" "0 < T" using s by (auto simp: text_cold_def line_ok_def phase_ok_def)
  then have fresh: "\<not> now + T < phase_end_us s + T" by simp
  have "tick D s = dispatch_text_element D e ?q"
    using s by (simp add: text_cold_def tick_iambic_mode tick_iambic_inner_def)
  moreover from this have "fst (tick D s) = Some (PttRequest True) \<and> (line_ok False (snd (tick D s)) \<longrightarrow>
      ptt_phase cfg T (now + T) (element_us cfg e) q (phase_of e) (snd (tick D s)))"
    using s fresh e
    by (cases e) (auto simp: text_cold_def ptt_phase_def phase_of_def is_mark_def emit_defs Let_def)
  ultimately show "fst (tick D s) = Some (PttRequest True)"
    "ptt_phase cfg T (now + T) (element_us cfg e) q (phase_of e) (snd (tick D s))"
    using ok by auto
qed

lemma text_cold_run:
  assumes s: "text_cold cfg T now (e # q) s" and e: "is_mark e" "is_mark (last (e # q))"
    and T: "2 * T \<le> dot_duration_us cfg"
  shows "tick_log D (text_ticks cfg T (e # q)) s
      = \<lparr>key_down = True, timestamp_us = now + 2 * T\<rparr> # tl (text_timeline cfg T now (e # q))
    \<and> text_idle cfg T (now + text_ticks cfg T (e # q) * T) [] (ticks D (text_ticks cfg T (e # q)) s)"
proof -
  define d where "d = element_us cfg e"
  have d: "2 * T \<le> d" "0 < T"
    using T s e(1) dash_duration_ge [of cfg] unfolding d_def
    by (auto simp: is_mark_def effective_dot_duration_us_def effective_dash_duration_us_def
        text_cold_def line_ok_def phase_ok_def)
  note p0 = text_cold_dispatch [OF s e(1), of D, folded d_def]
  let ?s1 = "snd (tick D s)" let ?s2 = "snd (tick D ?s1)"
  have dT: "0 < d - T" "T \<le> d" "now + T + T = now + 2 * T" using d by auto
  note p = ptt_phase_key [OF p0(2) e(1) dT(2), of D, unfolded dT(3)]
  define n where "n = ceil_ticks T d"
  have n: "ceil_ticks T (d - T) = n - 1" "2 \<le> n"
    using ceil_ticks_minus [of T 1 d] ceil_ticks_bounds(1) [of T d] d
    by (auto simp: n_def) (metis One_nat_def d(1,2) le_trans mult_le_cancel2 less_irrefl)
  note ph = text_phase_end [OF p(2) dT(1) disjI1 [OF e(1)], of D, unfolded n]
  have now: "now + 2 * T + (n - 1) * T = now + T + n * T" using n(2) by (cases n) auto
  have "q = [] \<or> is_mark (last q)" using e(2) by (cases q) auto
  note rest = text_run [OF ph(2) [unfolded now] this, of D]
  have el: "elapsed_us ?s1 = now + T" "elapsed_us ?s2 = now + 2 * T"
    using p(2) p0(2) by (auto simp: text_phase_def ptt_phase_def)
  have ticks: "text_ticks cfg T (e # q) = Suc (Suc ((n - 1) + text_ticks cfg T q))"
    using n(2) by (simp add: text_ticks_def n_def d_def)
  have first: "emitted_events (now + T) (fst (tick D s)) = []"
    "emitted_events (now + 2 * T) (fst (tick D ?s1)) = [\<lparr>key_down = True, timestamp_us = now + 2 * T\<rparr>]"
    using p0(1) p(1) by (simp_all add: emitted_events_def key_event_def)
  have log: "tick_log D (text_ticks cfg T (e # q)) s
      = \<lparr>key_down = True, timestamp_us = now + 2 * T\<rparr> # tl (text_timeline cfg T now (e # q))"
    unfolding ticks tick_log_Suc el first tick_log_add ph(1) rest [THEN conjunct1]
    using e(1) now by (simp add: n_def d_def Let_def)
  have "now + T + n * T + text_ticks cfg T q * T = now + text_ticks cfg T (e # q) * T"
    by (simp add: text_ticks_def n_def d_def algebra_simps)
  with rest log show ?thesis unfolding ticks ticks_Suc ticks_add by simp
qed

text \<open>C3: A text that begins and ends with a keyable character, sent to a fresh keyer (an
  iambic mode, Ultimatic or bug, a tick of at most half a dit, no paddle touched), is keyed exactly: the transitions are those of \<open>text_timeline\<close>, one press and one release for each dit
  and dash of the text in order, each mark lasting its duration rounded up to ticks, each gap its
  duration rounded up plus two ticks (one to dispatch the gap, one to dispatch the next mark);
  the first press is one tick late because the PTT request goes out first. Afterwards the queue
  is empty and the key up.\<close>

theorem text_transmission:
  assumes "new_with_tick D cfg T = Some s" and "iambic_mode (mode cfg)"
    and "2 * T \<le> dot_duration_us cfg"
    and "text_to_elements t = e # q" and "is_mark e" and "is_mark (last (e # q))"
  shows "tick_log D (text_ticks cfg T (e # q)) (send_text t s)
      = \<lparr>key_down = True, timestamp_us = 2 * T\<rparr> # tl (text_timeline cfg T 0 (e # q))
    \<and> text_idle cfg T (text_ticks cfg T (e # q) * T) [] (ticks D (text_ticks cfg T (e # q)) (send_text t s))"
proof -
  have "line_ok False (send_text t s)" using new_with_tick_ok(1) [OF assms(1)] by simp
  then have "text_cold cfg T 0 (e # q) (send_text t s)"
    using assms by (auto simp: text_cold_def new_with_tick_def send_text_def split: if_splits)
  from text_cold_run [OF this assms(5,6,3), of D] show ?thesis by simp
qed

theorem text_transmission_witness:
  "tick_log (list_deque 64) 470 (send_text (map of_char ''ET'') sample_engine) =
     [\<lparr>key_down = True, timestamp_us = 2000\<rparr>, \<lparr>key_down = False, timestamp_us = 68000\<rparr>,
      \<lparr>key_down = True, timestamp_us = 270000\<rparr>, \<lparr>key_down = False, timestamp_us = 470000\<rparr>]"
proof -
  have t: "text_to_elements (map of_char ''ET'') = Dit # [LetterGap, Dash]" by code_simp
  have m: "mode default_config = IambicB" by (simp add: default_config_def)
  have d: "dot_duration_us default_config = 66666" "effective_dot_duration_us default_config = 66666"
    "letter_gap_us default_config = 199998" by code_simp+
  have "effective_dash_duration_us default_config = 199998"
    using dash_duration_standard_weight [of default_config] d(1)
    by (simp add: default_config_def effective_dash_duration_us_def)
  then show ?thesis
    using text_transmission [OF sample_new _ _ t, unfolded d m]
    by (simp add: iambic_mode_def is_mark_def text_ticks_def ceil_ticks_def d Let_def
        del: run_ops.simps key_log.simps)
qed

section \<open>A held dit paddle\<close>

text \<open>The first tick at or after \<open>x\<close>, counting from \<open>now\<close>.\<close>

definition tick_at :: "nat \<Rightarrow> nat \<Rightarrow> nat \<Rightarrow> nat" where
  "tick_at T now x = now + ceil_ticks T (x - now) * T"

lemma tick_at_later:
  assumes "0 < T" "now + k * T \<le> x"
  shows "tick_at T (now + k * T) x = tick_at T now x"
proof -
  have "x - (now + k * T) = (x - now) - k * T" by simp
  then have c: "ceil_ticks T (x - (now + k * T)) = ceil_ticks T (x - now) - k"
    using ceil_ticks_minus [of T k "x - now"] assms by simp
  have "k * T \<le> ceil_ticks T (x - now) * T"
    using ceil_ticks_bounds(1) [OF assms(1), of "x - now"] assms(2) by linarith
  then show ?thesis by (simp add: tick_at_def c diff_mult_distrib)
qed

text \<open>A key that follows a rhythm: the engine is in a phase \<open>st\<close> due at \<open>P\<close>; no tick before
  \<open>P\<close> moves the key, the first tick at or after \<open>P\<close> presses or releases it (or neither) as
  \<open>edge st\<close> says and starts the phase \<open>next_phase st\<close>, due \<open>len\<close> of it after \<open>P\<close> (not after
  the tick).\<close>

definition edge_at :: "bool option \<Rightarrow> nat \<Rightarrow> KeyTransition list" where
  "edge_at e t = (case e of None \<Rightarrow> [] | Some down \<Rightarrow> [\<lparr>key_down = down, timestamp_us = t\<rparr>])"

lemma edge_at_simps [simp]:
  "edge_at None t = []" "edge_at (Some down) t = [\<lparr>key_down = down, timestamp_us = t\<rparr>]"
  by (simp_all add: edge_at_def)

locale rhythm =
  fixes D :: "'d ring" and T :: nat
    and phase :: "nat \<Rightarrow> nat \<Rightarrow> 'p \<Rightarrow> 'd KeyerEngine \<Rightarrow> bool"
    and next_phase :: "'p \<Rightarrow> 'p" and len :: "'p \<Rightarrow> nat" and edge :: "'p \<Rightarrow> bool option"
  assumes clock: "phase now P st s \<Longrightarrow> 0 < T \<and> elapsed_us s = now \<and> T \<le> len (next_phase st)"
    and silent: "phase now P st s \<Longrightarrow> now + T < P \<Longrightarrow>
      emitted_events (now + T) (fst (tick D s)) = [] \<and> phase (now + T) P st (snd (tick D s))"
    and due: "phase now P st s \<Longrightarrow> now < P \<Longrightarrow> P \<le> now + T \<Longrightarrow>
      emitted_events (now + T) (fst (tick D s)) = edge_at (edge st) (now + T) \<and>
      phase (now + T) (P + len (next_phase st)) (next_phase st) (snd (tick D s))"

text \<open>The ideal times of the next \<open>k\<close> transitions, and of the last of them.\<close>

fun rhythm_edges :: "('p \<Rightarrow> 'p) \<Rightarrow> ('p \<Rightarrow> nat) \<Rightarrow> ('p \<Rightarrow> bool option) \<Rightarrow> nat \<Rightarrow> 'p \<Rightarrow> nat \<Rightarrow> KeyTransition list" where
  "rhythm_edges next_phase len edge P st 0 = []"
| "rhythm_edges next_phase len edge P st (Suc k) =
     edge_at (edge st) P @ rhythm_edges next_phase len edge (P + len (next_phase st)) (next_phase st) k"

fun rhythm_end :: "('p \<Rightarrow> 'p) \<Rightarrow> ('p \<Rightarrow> nat) \<Rightarrow> nat \<Rightarrow> 'p \<Rightarrow> nat \<Rightarrow> nat" where
  "rhythm_end next_phase len P st 0 = P"
| "rhythm_end next_phase len P st (Suc k) = rhythm_end next_phase len (P + len (next_phase st)) (next_phase st) k"

lemma rhythm_end_ge: "P \<le> rhythm_end f len P st k"
  by (induction k arbitrary: P st) (simp_all, metis add_leD1)

lemma rhythm_edges_ge: "t \<in> set (rhythm_edges f len e P st k) \<Longrightarrow> P \<le> timestamp_us t"
proof (induction k arbitrary: P st)
  case (Suc k)
  then show ?case by (auto simp: edge_at_def split: option.splits dest!: Suc.IH)
qed simp

text \<open>Transitions as the engine emits them: at the first tick after the ideal time.\<close>

definition ticked :: "nat \<Rightarrow> nat \<Rightarrow> KeyTransition list \<Rightarrow> KeyTransition list" where
  "ticked T now ts = map (\<lambda>t. t\<lparr>timestamp_us := tick_at T now (timestamp_us t)\<rparr>) ts"

lemma ticked_simps [simp]:
  "ticked T now [] = []"
  "ticked T now (t # ts) = t\<lparr>timestamp_us := tick_at T now (timestamp_us t)\<rparr> # ticked T now ts"
  "ticked T now (ts @ us) = ticked T now ts @ ticked T now us"
  by (simp_all add: ticked_def)

lemma ticked_edge_at [simp]: "ticked T now (edge_at e t) = edge_at e (tick_at T now t)"
  by (cases e) simp_all

lemma ticked_later:
  "0 < T \<Longrightarrow> \<forall>t \<in> set ts. now + n * T \<le> timestamp_us t \<Longrightarrow> ticked T (now + n * T) ts = ticked T now ts"
  by (simp add: ticked_def tick_at_later)

context rhythm begin

lemma silent_ticks:
  assumes "phase now P st s" "n = 0 \<or> now + n * T < P"
  shows "tick_log D n s = [] \<and> phase (now + n * T) P st (ticks D n s)"
  using assms
proof (induction n arbitrary: now s)
  case (Suc n)
  have t: "emitted_events (now + T) (fst (tick D s)) = []" "phase (now + T) P st (snd (tick D s))"
    using silent [OF Suc.prems(1)] Suc.prems(2) by auto
  have el: "elapsed_us (snd (tick D s)) = now + T" using clock [OF t(2)] by simp
  from Suc.IH [OF t(2)] Suc.prems(2) show ?case
    unfolding tick_log_Suc ticks_Suc el t(1) by (simp add: ac_simps)
qed simp

lemma phase_ends:
  assumes s: "phase now P st s" and P: "now < P"
  defines "n \<equiv> ceil_ticks T (P - now)"
  shows "tick_log D n s = ticked T now (rhythm_edges next_phase len edge P st 1)"
    and "phase (now + n * T) (P + len (next_phase st)) (next_phase st) (ticks D n s)"
    and "now + n * T < P + len (next_phase st)"
proof -
  have T: "0 < T" "T \<le> len (next_phase st)" using clock [OF s] by auto
  obtain m where m: "n = Suc m" using ceil_ticks_pos [OF T(1), of "P - now"] P by (cases n) (auto simp: n_def)
  have b: "P \<le> now + n * T" "now + m * T < P" "now + n * T < P + T"
    using ceil_ticks_bounds [OF T(1), of "P - now"] P m by (auto simp: n_def [symmetric])
  let ?s = "ticks D m s"
  have w: "tick_log D m s = []" "phase (now + m * T) P st ?s"
    using silent_ticks [OF s, of m] b(2) by auto
  have e: "emitted_events (now + n * T) (fst (tick D ?s)) = edge_at (edge st) (now + n * T)"
    "phase (now + n * T) (P + len (next_phase st)) (next_phase st) (snd (tick D ?s))"
    using due [OF w(2) b(2)] b(1) by (auto simp: m ac_simps)
  show "phase (now + n * T) (P + len (next_phase st)) (next_phase st) (ticks D n s)"
    using e(2) ticks_add [of D m 1 s] by (simp add: m case_prod_beta)
  show "tick_log D n s = ticked T now (rhythm_edges next_phase len edge P st 1)"
    using e(1) clock [OF e(2)] tick_log_add [of D m 1 s] w(1)
    by (simp add: m case_prod_beta tick_at_def n_def [symmetric])
  show "now + n * T < P + len (next_phase st)" using b(3) T(2) by linarith
qed

lemma on_grid:
  assumes "phase now P st s" "now < P"
  shows "tick_log D (ceil_ticks T (rhythm_end next_phase len P st k - now)) s
    = ticked T now (rhythm_edges next_phase len edge P st (Suc k))"
  using assms
proof (induction k arbitrary: now P st s)
  case 0
  then show ?case using phase_ends(1) [OF 0] by simp
next
  case (Suc k)
  define n where "n = ceil_ticks T (P - now)"
  note e = phase_ends [OF Suc.prems, folded n_def]
  note IH = Suc.IH [OF e(2,3)]
  have T: "0 < T" using clock [OF Suc.prems(1)] by auto
  let ?P = "P + len (next_phase st)" and ?st = "next_phase st"
  let ?d = "rhythm_end next_phase len ?P ?st k"
  have d: "now + n * T \<le> ?d" using e(3) rhythm_end_ge [of ?P next_phase len ?st k] by linarith
  have split: "ceil_ticks T (?d - now) = n + ceil_ticks T (?d - (now + n * T))"
  proof -
    have "tick_at T (now + n * T) ?d = tick_at T now ?d" by (rule tick_at_later [OF T d])
    then show ?thesis using T by (simp add: tick_at_def flip: distrib_right)
  qed
  have "ticked T (now + n * T) (rhythm_edges next_phase len edge ?P ?st (Suc k))
      = ticked T now (rhythm_edges next_phase len edge ?P ?st (Suc k))"
    using e(3) rhythm_edges_ge [of _ next_phase len edge ?P ?st "Suc k"]
    by (intro ticked_later [OF T]) (meson less_imp_le order_trans)
  then show ?case
    using e(1) IH by (simp add: split tick_log_add)
qed

end

text \<open>The dit paddle held, the dash paddle free: an element with its key down, or the gap.\<close>

definition held_dit :: "KeyerConfig \<Rightarrow> nat \<Rightarrow> nat \<Rightarrow> nat \<Rightarrow> KeyerState \<Rightarrow> 'd KeyerEngine \<Rightarrow> bool" where
  "held_dit cfg T now P st s \<longleftrightarrow> line_ok False s \<and> config s = cfg \<and> iambic_mode (mode cfg) \<and>
     tick_us s = T \<and> elapsed_us s = now \<and> phase_end_us s = P \<and> state s = st \<and>
     key_active s = (st = SendDit) \<and> ptt_active s \<and> \<not> text_sending s \<and>
     dit_held s \<and> \<not> dash_held s \<and> \<not> dash_memory s"

lemma held_dit_resolves:
  assumes "dit_held s" "\<not> dash_held s" "\<not> dash_memory s"
  shows "resolve_after_dit_delay D b s = start_element_keyed D False s"
proof -
  obtain out s' where "start_element_keyed D False s = (Some out, s')"
    using start_emits [of D False s] by auto
  with assms show ?thesis by (simp add: resolve_after_dit_delay_def resolve_ultimatic_def Let_def)
qed

lemma held_dit_tick:
  assumes "held_dit cfg T now P st s" "st = SendDit \<or> st = DitDelay" "P \<le> now + T"
  shows "tick D s = (if st = SendDit
      then emitted (emit_key_up D (schedule_phase (element_gap_us cfg)
             (s\<lparr>elapsed_us := now + T, state := DitDelay\<rparr>)))
      else start_element_keyed D False (s\<lparr>elapsed_us := now + T\<rparr>))"
  using assms
  by (auto simp: held_dit_def tick_iambic_mode tick_iambic_inner_def phase_expired_def held_dit_resolves)

fun dit_next :: "KeyerState \<Rightarrow> KeyerState" where
  "dit_next SendDit = DitDelay"
| "dit_next _ = SendDit"

text \<open>The key goes up at the end of an element and down at the end of a gap.\<close>

definition key_edge :: "KeyerState \<Rightarrow> bool option" where
  "key_edge st = Some (st = DitDelay \<or> st = DashDelay)"

fun phase_len :: "KeyerConfig \<Rightarrow> KeyerState \<Rightarrow> nat" where
  "phase_len cfg SendDit = effective_dot_duration_us cfg"
| "phase_len cfg SendDash = effective_dash_duration_us cfg"
| "phase_len cfg _ = element_gap_us cfg"

lemma phase_len_ge: "element_gap_us cfg \<le> phase_len cfg st"
  using dash_duration_ge [of cfg]
  by (cases st) (simp_all add: element_gap_us_def effective_dot_duration_us_def effective_dash_duration_us_def)

definition dit_phase :: "KeyerConfig \<Rightarrow> nat \<Rightarrow> nat \<Rightarrow> nat \<Rightarrow> KeyerState \<Rightarrow> 'd KeyerEngine \<Rightarrow> bool" where
  "dit_phase cfg T now P st s \<longleftrightarrow>
     held_dit cfg T now P st s \<and> (st = SendDit \<or> st = DitDelay) \<and> T \<le> element_gap_us cfg"

lemma dit_phase_silent:
  assumes "dit_phase cfg T now P st s" "now + T < P"
  shows "emitted_events (now + T) (fst (tick D s)) = [] \<and> dit_phase cfg T (now + T) P st (snd (tick D s))"
proof -
  have w: "waiting s" using assms by (auto simp: dit_phase_def held_dit_def waiting_def)
  moreover have t: "tick_us s = T" "elapsed_us s = now" "phase_end_us s = P"
    using assms by (auto simp: dit_phase_def held_dit_def)
  ultimately have "tick D s = (None, s\<lparr>elapsed_us := now + T\<rparr>)"
    using tick_waiting [OF w, of D] assms(2) by simp
  moreover have "line_ok False (s\<lparr>elapsed_us := now + T\<rparr>)"
    using waiting_elapsed [OF w, of T] t by (simp add: waiting_def)
  ultimately show ?thesis using assms(1) by (auto simp: dit_phase_def held_dit_def emitted_events_def)
qed

lemma dit_phase_due:
  assumes s: "dit_phase cfg T now P st s" and P: "now < P" "P \<le> now + T"
  shows "emitted_events (now + T) (fst (tick D s)) = edge_at (key_edge st) (now + T)
    \<and> dit_phase cfg T (now + T) (P + phase_len cfg (dit_next st)) (dit_next st) (snd (tick D s))"
proof -
  have h: "held_dit cfg T now P st s" "st = SendDit \<or> st = DitDelay" "T \<le> element_gap_us cfg"
    using s by (auto simp: dit_phase_def)
  have ok: "line_ok False (snd (tick D s))"
    using h(1) tick_follows [of False s D] by (simp add: held_dit_def follows_def)
  have "emitted_events (now + T) (fst (tick D s)) = edge_at (key_edge st) (now + T)
    \<and> (line_ok False (snd (tick D s)) \<longrightarrow>
       held_dit cfg T (now + T) (P + phase_len cfg (dit_next st)) (dit_next st) (snd (tick D s)))"
    using h(1,2) P(1) unfolding held_dit_tick [OF h(1,2) P(2)]
    by (auto simp: held_dit_def emit_defs key_edge_def emitted_events_def key_event_def Let_def)
  with ok h(2,3) show ?thesis by (auto simp: dit_phase_def)
qed

interpretation dits: rhythm D T "dit_phase cfg T" dit_next "phase_len cfg" key_edge
  for D :: "'d ring" and T cfg
proof unfold_locales
  fix now P st and s :: "'d KeyerEngine"
  assume "dit_phase cfg T now P st s"
  then show "0 < T \<and> elapsed_us s = now \<and> T \<le> phase_len cfg (dit_next st)"
    using phase_len_ge [of cfg "dit_next st"]
    by (simp add: dit_phase_def held_dit_def line_ok_def phase_ok_def)
qed (fact dit_phase_silent, fact dit_phase_due)

text \<open>One release and one press per period, each at the first tick after its ideal time.\<close>

definition dit_grid :: "KeyerConfig \<Rightarrow> nat \<Rightarrow> nat \<Rightarrow> nat \<Rightarrow> nat \<Rightarrow> KeyTransition list" where
  "dit_grid cfg T now P k = concat (map (\<lambda>j.
     let up = P + j * (element_gap_us cfg + effective_dot_duration_us cfg)
     in [\<lparr>key_down = False, timestamp_us = tick_at T now up\<rparr>,
         \<lparr>key_down = True, timestamp_us = tick_at T now (up + element_gap_us cfg)\<rparr>]) [0..<k])"

lemma dit_edges:
  "ticked T now (rhythm_edges dit_next (phase_len cfg) key_edge P SendDit (2 * k)) = dit_grid cfg T now P k"
proof (induction k arbitrary: P)
  case (Suc k)
  let ?p = "element_gap_us cfg + effective_dot_duration_us cfg"
  have "dit_grid cfg T now P (Suc k) = [\<lparr>key_down = False, timestamp_us = tick_at T now P\<rparr>,
      \<lparr>key_down = True, timestamp_us = tick_at T now (P + element_gap_us cfg)\<rparr>] @ dit_grid cfg T now (P + ?p) k"
    by (simp add: dit_grid_def map_upt_Suc Let_def ac_simps del: upt_Suc)
  with Suc.IH [of "P + ?p"] show ?case by (simp add: key_edge_def ac_simps)
qed (simp add: dit_grid_def)

lemma dit_end:
  "rhythm_end dit_next (phase_len cfg) P SendDit (Suc (2 * k))
    = P + k * (element_gap_us cfg + effective_dot_duration_us cfg) + element_gap_us cfg"
proof (induction k arbitrary: P)
  case (Suc k)
  from Suc.IH [of "P + (element_gap_us cfg + effective_dot_duration_us cfg)"] show ?case
    by (simp add: ac_simps)
qed simp

text \<open>C4: A held dit paddle (an iambic mode, Ultimatic or bug) is keyed without drift: with \<open>P\<close> the deadline of
  the dit being sent, the \<open>j\<close>-th release happens at the first tick at or after
  \<open>P + j * (gap + dit)\<close> and the \<open>j\<close>-th press at the first tick at or after
  \<open>P + j * (gap + dit) + gap\<close>, for any number of dits: the rounding to ticks never adds up.\<close>

theorem held_dit_no_drift:
  assumes "held_dit cfg T now P SendDit s" and "now < P" and "T \<le> element_gap_us cfg"
  shows "tick_log D (ceil_ticks T (P + k * (element_gap_us cfg + effective_dot_duration_us cfg)
      + element_gap_us cfg - now)) s = dit_grid cfg T now P (Suc k)"
  using dits.on_grid [of cfg T now P SendDit s D "Suc (2 * k)"] assms dit_edges [of T now cfg P "Suc k"]
  unfolding dit_end by (simp add: dit_phase_def)

theorem held_dit_no_drift_witness:
  "tick_log (list_deque 64) 133 sample_keyed
    = [\<lparr>key_down = False, timestamp_us = 68000\<rparr>, \<lparr>key_down = True, timestamp_us = 135000\<rparr>]"
proof -
  have d: "effective_dot_duration_us (config sample_keyed) = 66666"
    "element_gap_us (config sample_keyed) = 66666"
    by code_simp+
  have "line_ok False sample_keyed"
    unfolding sample_keyed_def
    by (rule engine_line.run_ok [OF new_with_tick_ok(1) [OF sample_new] all_allowed])
  moreover have "mode (config sample_keyed) = IambicB" "tick_us sample_keyed = 1000"
    "elapsed_us sample_keyed = 2000" "phase_end_us sample_keyed = 67666" "state sample_keyed = SendDit"
    "key_active sample_keyed" "ptt_active sample_keyed" "\<not> text_sending sample_keyed"
    "dit_held sample_keyed" "\<not> dash_held sample_keyed" "\<not> dash_memory sample_keyed"
    by code_simp+
  ultimately have "held_dit (config sample_keyed) 1000 2000 67666 SendDit sample_keyed"
    by (simp add: held_dit_def iambic_mode_def)
  from held_dit_no_drift [OF this, of "list_deque 64" 0]
  show ?thesis
    by (simp add: d ceil_ticks_def dit_grid_def tick_at_def)
qed

end
