(* ===== verification/Cw_Decoder.thy ===== *)
theory Cw_Decoder
  imports Radio_Interfaces Keyer_Morse
begin

text \<open>
  \<^verbatim>\<open>crates/radio-utils-cw-decoder/src/lib.rs\<close>: the streaming Morse decoder. \<open>Decoder\<close> is the
  struct, one definition per method; the history ring is a \<^verbatim>\<open>heapless::Deque\<close>, whose operations
  are the argument \<open>D\<close>. \<open>DecoderSpec\<close> is the abstract decoder: it keeps the elements of the
  character in flight as a list and everything decoded so far, and \<open>decoder_refines_spec\<close> shows
  that the packed byte and the bounded ring implement it.
\<close>

section \<open>The decoder\<close>

definition HISTORY_CAPACITY :: nat where
  "HISTORY_CAPACITY = 32"

datatype DecState = DecIdle | DecDown | DecUp

record 'd Decoder =
  dec_state :: DecState
  last_transition_us :: nat
  accum :: u8
  space_emitted :: bool
  history :: 'd

type_synonym 'd dec_ring = "(u8, 'd) deque_ops"

definition dec_new :: "'d dec_ring \<Rightarrow> 'd Decoder" where
  "dec_new D = \<lparr>dec_state = DecIdle, last_transition_us = 0, accum = 1, space_emitted = False,
     history = dq_new D\<rparr>"

definition dec_dit_us :: "u8 \<Rightarrow> nat" where
  "dec_dit_us wpm = 1200000 div unat (max wpm 1)"

text \<open>The entries of the table, written in the order of the code.\<close>

definition lookup_entries :: "(nat \<times> char) list" where
  "lookup_entries =
    [(2, CHR ''E''), (3, CHR ''T''), (4, CHR ''I''), (5, CHR ''A''), (6, CHR ''N''), (7, CHR ''M''),
     (8, CHR ''S''), (9, CHR ''U''), (10, CHR ''R''), (11, CHR ''W''), (12, CHR ''D''),
     (13, CHR ''K''), (14, CHR ''G''), (15, CHR ''O''), (16, CHR ''H''), (17, CHR ''V''),
     (18, CHR ''F''), (20, CHR ''L''), (22, CHR ''P''), (23, CHR ''J''), (24, CHR ''B''),
     (25, CHR ''X''), (26, CHR ''C''), (27, CHR ''Y''), (28, CHR ''Z''), (29, CHR ''Q''),
     (32, CHR ''5''), (33, CHR ''4''), (35, CHR ''3''), (39, CHR ''2''), (47, CHR ''1''),
     (48, CHR ''6''), (56, CHR ''7''), (60, CHR ''8''), (62, CHR ''9''), (63, CHR ''0''),
     (49, CHR ''=''), (50, CHR ''/''), (76, CHR ''?''), (85, CHR ''.''), (115, CHR '','')]"

definition LOOKUP :: "u8 list" where
  "LOOKUP = fold (\<lambda>(i, c) t. t[i := of_char c]) lookup_entries (replicate 128 0)"

definition push_char :: "'d dec_ring \<Rightarrow> u8 \<Rightarrow> 'd Decoder \<Rightarrow> 'd Decoder" where
  "push_char D ch s = s\<lparr>history := ring_push D ch (history s)\<rparr>"

definition emit_pending_char :: "'d dec_ring \<Rightarrow> 'd Decoder \<Rightarrow> 'd Decoder" where
  "emit_pending_char D s =
     (let s = (if accum s > 1 \<and> accum s < 128
               then let ch = LOOKUP ! unat (accum s)
                    in if ch \<noteq> 0 then push_char D ch s else s
               else s)
      in s\<lparr>accum := 1\<rparr>)"

definition process_gap :: "'d dec_ring \<Rightarrow> nat \<Rightarrow> nat \<Rightarrow> 'd Decoder \<Rightarrow> 'd Decoder" where
  "process_gap D gap_us dit_us s =
     (if gap_us \<ge> 6 * dit_us
      then let s = emit_pending_char D s
           in if \<not> space_emitted s
              then (push_char D (of_char (CHR '' '')) s)\<lparr>space_emitted := True\<rparr> else s
      else if gap_us \<ge> 2 * dit_us then emit_pending_char D s
      else s)"

definition process_pulse :: "nat \<Rightarrow> nat \<Rightarrow> 'd Decoder \<Rightarrow> 'd Decoder" where
  "process_pulse pulse_us dit_us s =
     (if accum s = 0 then s
      else if accum s AND 0x80 \<noteq> 0 then s\<lparr>accum := 0\<rparr>
      else let bit = (if pulse_us \<ge> 2 * dit_us then 1 else 0)
           in s\<lparr>accum := push_bit 1 (accum s) OR bit\<rparr>)"

definition on_transition :: "'d dec_ring \<Rightarrow> nat \<Rightarrow> bool \<Rightarrow> u8 \<Rightarrow> 'd Decoder \<Rightarrow> 'd Decoder" where
  "on_transition D now_us down wpm s =
     (let dit_us = dec_dit_us wpm;
          elapsed = now_us - last_transition_us s;
          s = (if down
               then let s = (if dec_state s = DecUp then process_gap D elapsed dit_us s else s)
                    in s\<lparr>dec_state := DecDown\<rparr>
               else let s = (if dec_state s = DecDown then process_pulse elapsed dit_us s else s)
                    in s\<lparr>dec_state := DecUp, space_emitted := False\<rparr>)
      in s\<lparr>last_transition_us := now_us\<rparr>)"

definition poll_decoder :: "'d dec_ring \<Rightarrow> nat \<Rightarrow> u8 \<Rightarrow> 'd Decoder \<Rightarrow> 'd Decoder" where
  "poll_decoder D now_us wpm s =
     (if dec_state s \<noteq> DecUp then s
      else let dit_us = dec_dit_us wpm;
               gap = now_us - last_transition_us s
           in process_gap D gap dit_us s)"

text \<open>The bytes are copied until the buffer is full; the result is the buffer and the count.\<close>

fun snapshot_loop :: "u8 list \<Rightarrow> nat \<Rightarrow> u8 list \<Rightarrow> u8 list \<times> nat" where
  "snapshot_loop [] n out = (out, n)"
| "snapshot_loop (ch # chs) n out =
     (if n \<ge> length out then (out, n) else snapshot_loop chs (Suc n) (out[n := ch]))"

definition snapshot :: "'d dec_ring \<Rightarrow> 'd Decoder \<Rightarrow> u8 list \<Rightarrow> u8 list \<times> nat" where
  "snapshot D s out = snapshot_loop (dq_iter D (history s)) 0 out"

definition dec_len :: "'d dec_ring \<Rightarrow> 'd Decoder \<Rightarrow> nat" where
  "dec_len D s = dq_len D (history s)"

definition dec_is_empty :: "'d dec_ring \<Rightarrow> 'd Decoder \<Rightarrow> bool" where
  "dec_is_empty D s = dq_is_empty D (history s)"

definition dec_clear :: "'d dec_ring \<Rightarrow> 'd Decoder \<Rightarrow> 'd Decoder" where
  "dec_clear D s = s\<lparr>history := dq_clear D (history s), accum := 1, space_emitted := False,
     dec_state := DecIdle\<rparr>"

section \<open>The abstract decoder\<close>

record DecoderSpec =
  sp_state :: DecState
  sp_last :: nat
  sp_pending :: "bool list"
  sp_space :: bool
  sp_text :: "u8 list"

text \<open>The number of a sequence of elements: a leading 1, then 0 for a dit and 1 for a dah.\<close>

definition code :: "bool list \<Rightarrow> nat" where
  "code es = foldl (\<lambda>n b. 2 * n + of_bool b) 1 es"

text \<open>What a sequence of elements decodes to: nothing when it is empty, longer than six
  elements or not in the table.\<close>

definition decoded :: "bool list \<Rightarrow> u8 list" where
  "decoded es = (if es \<noteq> [] \<and> length es \<le> 6 \<and> LOOKUP ! code es \<noteq> 0 then [LOOKUP ! code es] else [])"

definition sp_new :: DecoderSpec where
  "sp_new = \<lparr>sp_state = DecIdle, sp_last = 0, sp_pending = [], sp_space = False, sp_text = []\<rparr>"

definition sp_emit :: "DecoderSpec \<Rightarrow> DecoderSpec" where
  "sp_emit a = a\<lparr>sp_text := sp_text a @ decoded (sp_pending a), sp_pending := []\<rparr>"

definition sp_gap :: "nat \<Rightarrow> nat \<Rightarrow> DecoderSpec \<Rightarrow> DecoderSpec" where
  "sp_gap gap_us dit_us a =
     (if gap_us < 2 * dit_us then a
      else if gap_us < 6 * dit_us then sp_emit a
      else if sp_space a then sp_emit a
      else (sp_emit a)\<lparr>sp_text := sp_text (sp_emit a) @ [of_char (CHR '' '')], sp_space := True\<rparr>)"

definition sp_pulse :: "nat \<Rightarrow> nat \<Rightarrow> DecoderSpec \<Rightarrow> DecoderSpec" where
  "sp_pulse pulse_us dit_us a = a\<lparr>sp_pending := sp_pending a @ [2 * dit_us \<le> pulse_us]\<rparr>"

datatype DecoderOp = OnTransition nat bool u8 | Poll nat u8 | Clear

fun dec_op :: "'d dec_ring \<Rightarrow> DecoderOp \<Rightarrow> 'd Decoder \<Rightarrow> 'd Decoder" where
  "dec_op D (OnTransition now down wpm) s = on_transition D now down wpm s"
| "dec_op D (Poll now wpm) s = poll_decoder D now wpm s"
| "dec_op D Clear s = dec_clear D s"

fun sp_op :: "DecoderOp \<Rightarrow> DecoderSpec \<Rightarrow> DecoderSpec" where
  "sp_op (OnTransition now True wpm) a =
     (if sp_state a = DecUp then sp_gap (now - sp_last a) (dec_dit_us wpm) a else a)
       \<lparr>sp_state := DecDown, sp_last := now\<rparr>"
| "sp_op (OnTransition now False wpm) a =
     (if sp_state a = DecDown then sp_pulse (now - sp_last a) (dec_dit_us wpm) a else a)
       \<lparr>sp_state := DecUp, sp_last := now, sp_space := False\<rparr>"
| "sp_op (Poll now wpm) a =
     (if sp_state a = DecUp then sp_gap (now - sp_last a) (dec_dit_us wpm) a else a)"
| "sp_op Clear a =
     a\<lparr>sp_state := DecIdle, sp_pending := [], sp_space := False, sp_text := []\<rparr>"

section \<open>The packed byte\<close>

lemma code_snoc: "code (es @ [b]) = 2 * code es + of_bool b"
  by (simp add: code_def)

lemma code_bounds: "2 ^ length es \<le> code es \<and> code es < 2 ^ Suc (length es)"
  by (induction es rule: rev_induct) (auto simp: code_snoc code_def [of "[]"])

text \<open>Seven elements fill the byte; an eighth makes it 0.\<close>

definition packed :: "bool list \<Rightarrow> u8" where
  "packed es = (if length es \<le> 7 then of_nat (code es) else 0)"

lemma packed_unat: "length es \<le> 7 \<Longrightarrow> unat (packed es) = code es"
proof -
  assume l: "length es \<le> 7"
  have "(2::nat) ^ Suc (length es) \<le> 2 ^ 8" using l by (intro power_increasing) auto
  then have "code es < 256" using code_bounds [of es] by simp
  then show ?thesis using l by (simp add: packed_def unat_of_nat)
qed

lemma code_pos: "1 \<le> code es"
  using code_bounds [of es] one_le_power [of "2::nat" "length es"] by linarith

lemma code_ge_2: "2 \<le> code es \<longleftrightarrow> es \<noteq> []"
  using code_pos [of "butlast es"] code_snoc [of "butlast es" "last es"]
  by (cases "es = []") (simp_all add: code_def [of "[]"])

lemma code_lt_128: "code es < 128 \<longleftrightarrow> length es \<le> 6"
proof
  assume "code es < 128"
  then have "(2::nat) ^ length es < 2 ^ 7" using code_bounds [of es] by simp
  then show "length es \<le> 6" using power_strict_increasing_iff [of "2::nat" "length es" 7] by linarith
next
  assume "length es \<le> 6"
  then have "(2::nat) ^ Suc (length es) \<le> 2 ^ 7" by (intro power_increasing) auto
  then show "code es < 128" using code_bounds [of es] by simp
qed

lemma packed_range:
  "packed es > 1 \<and> packed es < 128 \<longleftrightarrow> es \<noteq> [] \<and> length es \<le> 6"
  using packed_unat [of es] code_ge_2 [of es] code_lt_128 [of es]
  by (cases "length es \<le> 7") (auto simp: word_less_nat_alt packed_def [of es])

lemma top_bit_u8: "(a :: u8) AND 0x80 \<noteq> 0 \<longleftrightarrow> 128 \<le> unat a"
proof -
  have "a AND 0x80 = 0 \<longleftrightarrow> \<not> bit a 7"
    using and_exp_eq_0_iff_not_bit [of a 7] by simp
  also have "bit a 7 \<longleftrightarrow> bit (unat a) 7" by (simp add: bit_unsigned_iff)
  also have "\<dots> \<longleftrightarrow> odd (unat a div 128)" by (simp add: bit_iff_odd)
  also have "\<dots> \<longleftrightarrow> 128 \<le> unat a"
  proof -
    have "unat a < 256" using unsigned_less [of a, where 'a = nat] by simp
    then have "unat a div 128 = 0 \<or> unat a div 128 = 1" by auto
    then show ?thesis by auto
  qed
  finally show ?thesis by blast
qed

lemma shift_in_u8: "unat (a :: u8) < 128 \<Longrightarrow> unat (push_bit 1 a OR of_bool b) = 2 * unat a + of_bool b"
proof -
  assume a: "unat a < 128"
  have "push_bit 1 a OR of_bool b = 2 * a + of_bool b"
    by (cases b) (simp_all add: push_bit_eq_mult or_one_eq mult.commute [of a])
  moreover have "unat (2 * a) = 2 * unat a" "unat (2 * a + 1) = 2 * unat a + 1"
    using a by (simp_all add: unat_word_ariths mod_less)
  ultimately show ?thesis by (cases b) (simp_all only: of_bool_eq add_0_right)
qed

lemma packed_pulse:
  "(if packed es = 0 then packed es
    else if packed es AND 0x80 \<noteq> 0 then 0
    else push_bit 1 (packed es) OR of_bool b) = packed (es @ [b])"
proof (cases "length es \<le> 7")
  case True
  note u = packed_unat [OF True]
  have nz: "packed es \<noteq> 0"
    using u code_bounds [of es] by (metis unat_eq_zero not_le zero_less_numeral zero_less_power)
  note lt = code_lt_128 [of es]
  show ?thesis
  proof (cases "length es \<le> 6")
    case 6: True
    then have "unat (packed es) < 128" using lt u by simp
    then have "unat (push_bit 1 (packed es) OR of_bool b) = unat (packed (es @ [b]))"
      using shift_in_u8 [of "packed es" b] u packed_unat [of "es @ [b]"] 6 by (simp add: code_snoc)
    with nz 6 lt u show ?thesis by (simp only: top_bit_u8) (simp add: word_unat_eq_iff)
  next
    case False
    with nz lt u True show ?thesis by (simp only: top_bit_u8) (simp add: packed_def)
  qed
qed (simp add: packed_def)

section \<open>Refinement\<close>

definition dec_rel :: "'d dec_ring \<Rightarrow> 'd Decoder \<Rightarrow> DecoderSpec \<Rightarrow> bool" where
  "dec_rel D s a \<longleftrightarrow> dec_state s = sp_state a \<and> last_transition_us s = sp_last a \<and>
     accum s = packed (sp_pending a) \<and> space_emitted s = sp_space a \<and>
     dq_iter D (history s) = keep_last HISTORY_CAPACITY (sp_text a)"

text \<open>The history is an evicting log of the decoded characters.\<close>

definition push_chars :: "'d dec_ring \<Rightarrow> u8 list \<Rightarrow> 'd Decoder \<Rightarrow> 'd Decoder" where
  "push_chars D chs s = fold (push_char D) chs s"

definition history_valid :: "'d dec_ring \<Rightarrow> 'd Decoder \<Rightarrow> bool" where
  "history_valid D s \<longleftrightarrow> deque_laws D HISTORY_CAPACITY \<and>
     length (dq_iter D (history s)) \<le> HISTORY_CAPACITY"

lemma push_chars_history:
  "history_valid D s \<Longrightarrow>
    dq_iter D (history (push_chars D chs s)) = keep_last HISTORY_CAPACITY (dq_iter D (history s) @ chs)"
proof (induction chs arbitrary: s)
  case Nil
  then show ?case by (simp add: push_chars_def history_valid_def)
next
  case (Cons ch chs)
  have h: "dq_iter D (history (push_char D ch s)) = keep_last HISTORY_CAPACITY (dq_iter D (history s) @ [ch])"
    using Cons.prems ring_push_iter [of D HISTORY_CAPACITY "history s" ch]
    by (simp add: history_valid_def push_char_def)
  have "history_valid D (push_char D ch s)"
    using Cons.prems h by (simp add: history_valid_def)
  from Cons.IH [OF this] show ?case
    by (simp add: push_chars_def h keep_last_append_keep_last)
qed

lemma push_chars_valid: "history_valid D s \<Longrightarrow> history_valid D (push_chars D chs s)"
  using push_chars_history [of D s chs] by (simp add: history_valid_def)

interpretation decoded_log: evicting_log "push_chars D" "\<lambda>s. dq_iter D (history s)"
    "\<lambda>_. HISTORY_CAPACITY" "history_valid D"
  for D :: "'d dec_ring"
  by unfold_locales (simp_all add: push_chars_history push_chars_valid)

lemma dec_rel_push:
  assumes "deque_laws D HISTORY_CAPACITY" "dec_rel D s a"
  shows "dec_rel D (push_char D ch s) (a\<lparr>sp_text := sp_text a @ [ch]\<rparr>)"
proof -
  have "history_valid D s" using assms by (simp add: history_valid_def dec_rel_def)
  from decoded_log.push_contents [OF this, of "[ch]"] assms(2) show ?thesis
    by (simp add: push_chars_def push_char_def dec_rel_def keep_last_append_keep_last)
qed

lemma dec_rel_emit:
  assumes "deque_laws D HISTORY_CAPACITY" "dec_rel D s a"
  shows "dec_rel D (emit_pending_char D s) (sp_emit a)"
proof -
  have acc: "accum s = packed (sp_pending a)" using assms(2) by (simp add: dec_rel_def)
  let ?ch = "LOOKUP ! code (sp_pending a)"
  have one: "packed [] = 1" by (simp add: packed_def code_def)
  show ?thesis
    using assms(2) dec_rel_push [OF assms, of ?ch]
    unfolding emit_pending_char_def acc packed_range Let_def sp_emit_def decoded_def
    by (auto simp: dec_rel_def packed_unat one)
qed

lemma dec_rel_gap:
  assumes "deque_laws D HISTORY_CAPACITY" "dec_rel D s a"
  shows "dec_rel D (process_gap D g d s) (sp_gap g d a)"
proof -
  note e = dec_rel_emit [OF assms]
  have sp: "space_emitted (emit_pending_char D s) = sp_space a"
    using e by (simp add: dec_rel_def sp_emit_def)
  have "dec_rel D ((push_char D ch (emit_pending_char D s))\<lparr>space_emitted := True\<rparr>)
      ((sp_emit a)\<lparr>sp_text := sp_text (sp_emit a) @ [ch], sp_space := True\<rparr>)" for ch
    using dec_rel_push [OF assms(1) e, of ch] by (simp add: dec_rel_def)
  with e assms(2) sp show ?thesis by (simp add: process_gap_def sp_gap_def Let_def)
qed

lemma dec_rel_pulse: "dec_rel D s a \<Longrightarrow> dec_rel D (process_pulse p d s) (sp_pulse p d a)"
  using packed_pulse [of "sp_pending a" "2 * d \<le> p"]
  by (auto simp: dec_rel_def process_pulse_def sp_pulse_def Let_def split: if_splits)

lemma decoder_refines:
  assumes "deque_laws D HISTORY_CAPACITY"
  shows "dec_rel D (fold (dec_op D) ops (dec_new D)) (fold sp_op ops sp_new)"
proof -
  have op: "dec_rel D (dec_op D op s) (sp_op op a)" if r: "dec_rel D s a" for op s a
  proof (cases op)
    case (OnTransition now down wpm)
    let ?e = "now - sp_last a" and ?d = "dec_dit_us wpm"
    show ?thesis
      using r dec_rel_gap [OF assms r, of ?e ?d] dec_rel_pulse [OF r, of ?e ?d] OnTransition
      by (cases down) (auto simp: dec_rel_def on_transition_def Let_def)
  next
    case (Poll now wpm)
    then show ?thesis
      using r dec_rel_gap [OF assms r, of "now - sp_last a" "dec_dit_us wpm"]
      by (auto simp: dec_rel_def poll_decoder_def Let_def)
  next
    case Clear
    then show ?thesis
      using r deque_lawsD(6) [OF assms] by (simp add: dec_rel_def dec_clear_def packed_def code_def)
  qed
  have "dec_rel D (fold (dec_op D) ops s) (fold sp_op ops a)" if "dec_rel D s a" for s a
    using that by (induction ops arbitrary: s a) (auto intro: op)
  moreover have "dec_rel D (dec_new D) sp_new"
    using deque_lawsD(2) [OF assms] by (simp add: dec_rel_def dec_new_def sp_new_def packed_def code_def)
  ultimately show ?thesis by blast
qed

text \<open>C10: The decoder implements its specification: whatever transitions, polls and clears it
  gets, its state is that of the abstract decoder, the packed byte is the sequence of elements
  in flight and the history ring holds the last 32 characters decoded.\<close>

theorem decoder_refines_spec:
  assumes "deque_laws D HISTORY_CAPACITY"
  shows "dec_rel D (fold (dec_op D) ops (dec_new D)) (fold sp_op ops sp_new)"
  using assms by (rule decoder_refines)

theorem decoder_refines_spec_witness:
  "dq_iter (list_deque 32) (history (fold (dec_op (list_deque 32))
      [OnTransition 0 True 20, OnTransition 60000 False 20, Poll 200000 20] (dec_new (list_deque 32))))
    = [of_char (CHR ''E'')]"
proof -
  let ?ops = "[OnTransition 0 True 20, OnTransition 60000 False 20, Poll 200000 20]"
  have "deque_laws (list_deque 32 :: u8 list dec_ring) HISTORY_CAPACITY"
    by (simp add: HISTORY_CAPACITY_def list_deque_laws)
  from decoder_refines_spec [OF this, of ?ops]
  have "dq_iter (list_deque 32) (history (fold (dec_op (list_deque 32)) ?ops (dec_new (list_deque 32))))
      = keep_last 32 (sp_text (fold sp_op ?ops sp_new))"
    by (simp add: dec_rel_def HISTORY_CAPACITY_def)
  also have "\<dots> = [of_char (CHR ''E'')]"
  proof -
    have "dec_dit_us 20 = 60000" "LOOKUP ! 2 = of_char (CHR ''E'')"
      by (simp add: dec_dit_us_def max_def word_le_nat_alt) code_simp
    moreover have "code [False] = 2" by (simp add: code_def)
    ultimately show ?thesis
      by (simp add: sp_new_def sp_gap_def sp_pulse_def sp_emit_def decoded_def)
  qed
  finally show ?thesis .
qed

end
