(* ===== verification/Keyer_Decoder.thy ===== *)
theory Keyer_Decoder
  imports Engine_Timing Cw_Decoder
begin

text \<open>
  The keyer and the decoder together: the transitions the engine keys for a queued text, fed to
  the decoder with the keyer's speed, decode to the text (\<open>keyer_to_decoder_roundtrip\<close>). The
  link is \<open>element_step\<close>, the decoding of a sequence of Morse elements without times. Also here:
  what a silence can add to the decoder's history, and the snapshot of the history.
\<close>

section \<open>Decoding elements without times\<close>

fun element_step :: "MorseElement \<Rightarrow> bool list \<times> u8 list \<Rightarrow> bool list \<times> u8 list" where
  "element_step Dit (p, out) = (p @ [False], out)"
| "element_step Dash (p, out) = (p @ [True], out)"
| "element_step ElementGap (p, out) = (p, out)"
| "element_step LetterGap (p, out) = ([], out @ decoded p)"
| "element_step WordGap (p, out) = ([], out @ decoded p @ [of_char (CHR '' '')])"

definition flushed :: "bool list \<times> u8 list \<Rightarrow> u8 list" where
  "flushed s = snd s @ decoded (fst s)"

fun alternating :: "MorseElement list \<Rightarrow> bool" where
  "alternating [] = False"
| "alternating [m] = is_mark m"
| "alternating (m # g # es) = (is_mark m \<and> \<not> is_mark g \<and> alternating es)"

lemma alternating_append:
  "alternating xs \<Longrightarrow> \<not> is_mark g \<Longrightarrow> alternating ys \<Longrightarrow> alternating (xs @ g # ys)"
  by (induction xs rule: alternating.induct) auto

lemma alternating_join:
  "xs \<noteq> [] \<Longrightarrow> list_all alternating xs \<Longrightarrow> \<not> is_mark sep \<Longrightarrow> alternating (join sep xs)"
  by (induction sep xs rule: join.induct) (auto intro: alternating_append)

lemma alternating_marks: "alternating es \<Longrightarrow> \<exists>e q. es = e # q \<and> is_mark e \<and> is_mark (last es)"
  by (induction es rule: alternating.induct) auto

text \<open>Joined pieces: each separator flushes the piece before it.\<close>

fun joined :: "'b list \<Rightarrow> ('a \<Rightarrow> 'b list) \<Rightarrow> 'a list \<Rightarrow> 'b list" where
  "joined s f [] = []"
| "joined s f [x] = f x"
| "joined s f (x # y # ys) = f x @ s @ joined s f (y # ys)"

lemma joined_concat: "joined [] f xs = concat (map f xs)"
  by (induction xs rule: induct_list012) auto

lemma joined_join: "joined [c] f xs = join c (map f xs)"
  by (induction xs rule: induct_list012) auto

lemma flushed_join:
  assumes sep: "\<And>p out. element_step sep (p, out) = ([], flushed (p, out) @ s)"
    and "\<And>x out. x \<in> set xs \<Longrightarrow> flushed (fold element_step (e x) ([], out)) = out @ f x"
  shows "flushed (fold element_step (join sep (map e xs)) ([], out)) = out @ joined s f xs"
  using assms(2)
proof (induction xs arbitrary: out rule: induct_list012)
  case (3 x y ys)
  obtain p o' where po: "fold element_step (e x) ([], out) = (p, o')" by force
  then have "flushed (p, o') = out @ f x" using "3.prems" [of x out] by simp
  with sep [of p o'] have "element_step sep (p, o') = ([], out @ f x @ s)" by simp
  then show ?case using "3.IH"(2) [of "out @ f x @ s"] "3.prems" by (simp add: po)
qed (auto simp: flushed_def decoded_def)

section \<open>Signal timing the decoder can read\<close>

text \<open>Marks and gaps on the right side of the decoder's thresholds of 2 and 6 dits, with room
  for the rounding to ticks.\<close>

definition copyable :: "KeyerConfig \<Rightarrow> nat \<Rightarrow> bool" where
  "copyable cfg T \<longleftrightarrow>
     effective_dot_duration_us cfg + T \<le> 2 * dot_duration_us cfg \<and>
     2 * dot_duration_us cfg + T \<le> effective_dash_duration_us cfg \<and>
     3 * T \<le> dot_duration_us cfg \<and>
     letter_gap_us cfg + 3 * T \<le> 6 * dot_duration_us cfg"

lemma standard_copyable:
  assumes "weight cfg = 50" "\<not> dynamic_ratio cfg" "farnsworth_wpm cfg = 0" "keying_compensation_ms cfg = 0"
    and "3 * T \<le> dot_duration_us cfg"
  shows "copyable cfg T"
  using assms dash_duration_standard_weight [of cfg]
  by (simp add: copyable_def effective_dot_duration_us_def effective_dash_duration_us_def
      letter_gap_us_def farnsworth_gap_unit_us_def)

definition transition_ops :: "u8 \<Rightarrow> KeyTransition list \<Rightarrow> DecoderOp list" where
  "transition_ops wpm trs = map (\<lambda>t. OnTransition (timestamp_us t) (key_down t) wpm) trs"

lemma transition_ops_append:
  "transition_ops wpm (xs @ ys) = transition_ops wpm xs @ transition_ops wpm ys"
  by (simp add: transition_ops_def)

definition silent_since :: "nat \<Rightarrow> bool list \<times> u8 list \<Rightarrow> DecoderSpec \<Rightarrow> bool" where
  "silent_since u s a \<longleftrightarrow> sp_state a = DecUp \<and> sp_last a = u \<and> \<not> sp_space a \<and>
     sp_pending a = fst s \<and> sp_text a = snd s"

lemma dec_dit_dot: "dec_dit_us (speed_wpm cfg) = dot_duration_us cfg"
  by (simp add: dec_dit_us_def dot_duration_us_def)

lemma mark_decoded:
  assumes c: "copyable cfg T" and m: "is_mark e" and T: "0 < T"
    and x: "ceil_ticks T (element_us cfg e) * T - T \<le> x" "x \<le> ceil_ticks T (element_us cfg e) * T"
  shows "2 * dot_duration_us cfg \<le> x \<longleftrightarrow> e = Dash"
proof -
  have "element_us cfg e \<le> ceil_ticks T (element_us cfg e) * T"
    "ceil_ticks T (element_us cfg e) * T < element_us cfg e + T"
    using ceil_ticks_bounds [OF T, of "element_us cfg e"] by simp_all
  with c m x show ?thesis by (auto simp: is_mark_def copyable_def)
qed

lemma gap_decoded:
  assumes c: "copyable cfg T" and g: "\<not> is_mark g" and T: "0 < T" and a: "silent_since u s a"
    and x: "x = 2 * T + ceil_ticks T (element_us cfg g) * T"
  shows "sp_pending (sp_gap x (dot_duration_us cfg) a) = fst (element_step g s)"
    and "sp_text (sp_gap x (dot_duration_us cfg) a) = snd (element_step g s)"
proof -
  have b: "element_us cfg g \<le> ceil_ticks T (element_us cfg g) * T"
    "ceil_ticks T (element_us cfg g) * T < element_us cfg g + T"
    using ceil_ticks_bounds [OF T, of "element_us cfg g"] by simp_all
  obtain p out where s: "s = (p, out)" by force
  show "sp_pending (sp_gap x (dot_duration_us cfg) a) = fst (element_step g s)"
    "sp_text (sp_gap x (dot_duration_us cfg) a) = snd (element_step g s)"
    using c g a b dot_duration_pos [of cfg] letter_gap_bounds(1) [of cfg] word_gap_bounds(1) [of cfg]
    by (cases g; auto simp: is_mark_def copyable_def silent_since_def s x sp_gap_def sp_emit_def
        element_gap_us_def)+
qed

lemma decoded_element:
  assumes c: "copyable cfg T" and T: "0 < T" and a: "silent_since u s a"
    and gm: "\<not> is_mark g" "is_mark m"
  defines "done \<equiv> u + (T + ceil_ticks T (element_us cfg g) * T) + (T + ceil_ticks T (element_us cfg m) * T)"
  shows "silent_since done (fold element_step [g, m] s)
    (fold sp_op (transition_ops (speed_wpm cfg) (text_timeline cfg T u [g, m])) a)"
proof -
  let ?x = "2 * T + ceil_ticks T (element_us cfg g) * T" and ?d = "dot_duration_us cfg"
  let ?y = "ceil_ticks T (element_us cfg m) * T"
  have ev: "transition_ops (speed_wpm cfg) (text_timeline cfg T u [g, m]) =
      [OnTransition (u + ?x) True (speed_wpm cfg), OnTransition done False (speed_wpm cfg)]"
    using gm by (simp add: transition_ops_def done_def Let_def ac_simps)
  have d: "done - (u + ?x) = ?y" by (simp add: done_def)
  have y: "2 * ?d \<le> ?y \<longleftrightarrow> m = Dash" using mark_decoded [OF c gm(2) T, of ?y] by simp
  obtain p out where s: "element_step g s = (p, out)" by force
  note g = gap_decoded [OF c gm(1) T a refl]
  show ?thesis
    using a gm(2) g y unfolding ev
    by (cases m) (auto simp: silent_since_def is_mark_def dec_dit_dot sp_pulse_def d s)
qed

lemma decoded_elements:
  assumes c: "copyable cfg T" and T: "0 < T"
  shows "silent_since u s a \<Longrightarrow> alternating (m # es) \<Longrightarrow>
    silent_since (u + text_ticks cfg T es * T) (fold element_step es s)
      (fold sp_op (transition_ops (speed_wpm cfg) (text_timeline cfg T u es)) a)"
proof (induction es arbitrary: u s a m rule: induct_list012)
  case (3 g m' es)
  have gm: "\<not> is_mark g" "is_mark m'" "alternating (m' # es)"
    using "3.prems"(2) by (cases es; simp)+
  let ?u = "u + (T + ceil_ticks T (element_us cfg g) * T) + (T + ceil_ticks T (element_us cfg m') * T)"
  note el = decoded_element [OF c T "3.prems"(1) gm(1,2)]
  have tl: "text_timeline cfg T u (g # m' # es) = text_timeline cfg T u [g, m'] @ text_timeline cfg T ?u es"
    by (simp add: Let_def add.assoc)
  have tm: "u + text_ticks cfg T (g # m' # es) * T = ?u + text_ticks cfg T es * T"
    by (simp add: text_ticks_def algebra_simps)
  have "fold element_step (g # m' # es) s = fold element_step es (fold element_step [g, m'] s)" by simp
  then show ?case
    using "3.IH"(1) [OF el gm(3)] unfolding tl tm transition_ops_append fold_append comp_apply by simp
qed (auto simp: transition_ops_def text_ticks_def)

text \<open>The first mark of a cold start, then the rest.\<close>

lemma decoded_cold:
  assumes c: "copyable cfg T" and T: "0 < T" and alt: "alternating (m # es)"
    and n: "2 * T \<le> ceil_ticks T (element_us cfg m) * T"
  defines "trs \<equiv> \<lparr>key_down = True, timestamp_us = 2 * T\<rparr> # tl (text_timeline cfg T 0 (m # es))"
  shows "silent_since (text_ticks cfg T (m # es) * T) (fold element_step (m # es) ([], []))
      (fold sp_op (transition_ops (speed_wpm cfg) trs) sp_new)"
proof -
  let ?y = "ceil_ticks T (element_us cfg m) * T"
  have m: "is_mark m" using alt by (cases es rule: alternating.cases; cases es) auto
  let ?a = "fold sp_op (transition_ops (speed_wpm cfg)
      [\<lparr>key_down = True, timestamp_us = 2 * T\<rparr>, \<lparr>key_down = False, timestamp_us = T + ?y\<rparr>]) sp_new"
  have "2 * dot_duration_us cfg \<le> T + ?y - 2 * T \<longleftrightarrow> m = Dash"
    by (rule mark_decoded [OF c m T]) auto
  then have "silent_since (T + ?y) (fold element_step [m] ([], [])) ?a"
    using m by (cases m) (auto simp: transition_ops_def silent_since_def sp_new_def sp_pulse_def
        dec_dit_dot is_mark_def)
  from decoded_elements [OF c T this alt]
  have "silent_since (T + ?y + text_ticks cfg T es * T) (fold element_step es (fold element_step [m] ([], [])))
      (fold sp_op (transition_ops (speed_wpm cfg) (text_timeline cfg T (T + ?y) es)) ?a)" .
  moreover have trs: "trs = [\<lparr>key_down = True, timestamp_us = 2 * T\<rparr>, \<lparr>key_down = False, timestamp_us = T + ?y\<rparr>]
      @ text_timeline cfg T (T + ?y) es"
    using m by (simp add: trs_def Let_def)
  moreover have tm: "text_ticks cfg T (m # es) * T = T + ?y + text_ticks cfg T es * T"
    by (simp add: text_ticks_def algebra_simps)
  ultimately show ?thesis
    unfolding trs tm transition_ops_append fold_append comp_apply by simp
qed

section \<open>From the elements of a text back to the text\<close>

text \<open>The characters the decoder knows.\<close>

definition decodable :: "rchar \<Rightarrow> bool" where
  "decodable c \<longleftrightarrow> (case char_to_morse c of None \<Rightarrow> False
     | Some p \<Rightarrow> decoded (map (\<lambda>s. s = CHR ''-'') p) = [of_nat (to_ascii_uppercase c)])"

definition bits :: "string \<Rightarrow> bool list" where
  "bits p = map (\<lambda>s. s = CHR ''-'') p"

lemma letter_steps:
  assumes "symbols_ok p"
  shows "fold element_step (letter_elements p) (q, out) = (q @ bits p, out)"
proof -
  have tail: "fold element_step (concat (map (\<lambda>s. [ElementGap, mark s]) p)) (q, out) = (q @ bits p, out)"
    if "list_all (\<lambda>s. s = CHR ''.'' \<or> s = CHR ''-'') p" for p q
    using that by (induction p arbitrary: q) (auto simp: mark_def bits_def)
  obtain s p' where p: "p = s # p'" using assms by (cases p) (auto simp: symbols_ok_def)
  have "element_step (mark s) (q, out) = (q @ [s = CHR ''-''], out)"
    using assms by (auto simp: p symbols_ok_def mark_def)
  then show ?thesis
    using assms tail [of p'] by (simp add: p letter_elements_Cons symbols_ok_def bits_def)
qed

lemma letter_alternating: "symbols_ok p \<Longrightarrow> alternating (letter_elements p)"
  unfolding letter_elements_def
  by (rule alternating_join) (auto simp: symbols_ok_def list_all_iff is_mark_def mark_def)

lemma word_flushed:
  "flushed (fold element_step (word_elements w) ([], out)) =
    out @ concat (map (\<lambda>p. decoded (bits p)) (List.map_filter char_to_morse w))"
proof -
  have "flushed (fold element_step (join LetterGap (map letter_elements ps)) ([], out))
      = out @ joined [] (\<lambda>p. decoded (bits p)) ps" if "list_all symbols_ok ps" for ps
    using that by (intro flushed_join) (auto simp: flushed_def letter_steps list_all_iff)
  from this [of "List.map_filter char_to_morse w"] show ?thesis
    using encodable_symbols [of _ w] by (simp add: word_elements_def joined_concat list_all_iff)
qed

lemma text_flushed:
  "flushed (fold element_step (text_elements_spec t) ([], [])) =
    join (of_char (CHR '' '')) (map (\<lambda>w. concat (map (\<lambda>p. decoded (bits p))
      (List.map_filter char_to_morse w))) (split_on (of_char (CHR '' '')) t))"
proof -
  have "flushed (fold element_step (join WordGap (map word_elements ws)) ([], []))
      = [] @ joined [of_char (CHR '' '')] (\<lambda>w. concat (map (\<lambda>p. decoded (bits p))
          (List.map_filter char_to_morse w))) ws" for ws
    by (rule flushed_join) (simp_all add: flushed_def word_flushed [unfolded flushed_def])
  then show ?thesis by (simp add: text_elements_spec_def joined_join)
qed

lemma join_Cons_Cons: "join sep ((x # w) # ws) = x # join sep (w # ws)"
  by (cases ws) auto

lemma join_Nil_Cons: "ws \<noteq> [] \<Longrightarrow> join sep ([] # ws) = sep # join sep ws"
  by (cases ws) auto

lemma join_split_on: "join sep (split_on sep xs) = xs"
proof (induction xs)
  case (Cons x xs)
  obtain w ws where "split_on sep xs = w # ws"
    by (metis split_on_nonempty neq_Nil_conv)
  with Cons show ?case by (auto simp: join_Cons_Cons)
qed simp

lemma map_join: "map f (join sep xs) = join (f sep) (map (map f) xs)"
  by (induction sep xs rule: join.induct) auto

lemma set_split_on: "\<forall>w\<in>set (split_on sep xs). set w \<subseteq> set xs - {sep}"
proof (induction xs)
  case (Cons x xs)
  obtain v ws where "split_on sep xs = v # ws"
    by (metis split_on_nonempty neq_Nil_conv)
  with Cons show ?case by auto
qed simp

text \<open>Texts the pair carries exactly: characters the decoder knows, words separated by single
  spaces.\<close>

definition plain_text :: "rchar list \<Rightarrow> bool" where
  "plain_text t \<longleftrightarrow> list_all (\<lambda>w. w \<noteq> []) (split_on (of_char (CHR '' '')) t) \<and>
     list_all (\<lambda>c. c = of_char (CHR '' '') \<or> decodable c) t"

definition as_bytes :: "rchar list \<Rightarrow> u8 list" where
  "as_bytes t = map (\<lambda>c. of_nat (to_ascii_uppercase c)) t"

lemma decodable_word:
  "list_all decodable w \<Longrightarrow>
    concat (map (\<lambda>p. decoded (bits p)) (List.map_filter char_to_morse w)) = as_bytes w \<and>
    length (List.map_filter char_to_morse w) = length w"
  by (induction w)
    (auto simp: map_filter_simps as_bytes_def bits_def decodable_def split: option.splits)

lemma plain_words:
  assumes "plain_text t" "w \<in> set (split_on (of_char (CHR '' '')) t)"
  shows "w \<noteq> [] \<and> list_all decodable w"
  using assms set_split_on [of "of_char (CHR '' '')" t] unfolding plain_text_def list_all_iff by blast

lemma plain_text_flushed:
  assumes "plain_text t"
  shows "flushed (fold element_step (text_to_elements t) ([], [])) = as_bytes t"
proof -
  let ?sp = "of_char (CHR '' '') :: rchar"
  have m: "map (\<lambda>w. concat (map (\<lambda>p. decoded (bits p)) (List.map_filter char_to_morse w))) (split_on ?sp t)
      = map as_bytes (split_on ?sp t)"
    using plain_words [OF assms] decodable_word by (intro map_cong) auto
  have j: "join (of_char (CHR '' '')) (map as_bytes (split_on ?sp t)) = as_bytes (join ?sp (split_on ?sp t))"
    unfolding as_bytes_def by (subst map_join) (simp add: to_ascii_uppercase_def as_bytes_def)
  show ?thesis unfolding text_to_elements_spec text_flushed m j join_split_on ..
qed

lemma plain_text_alternating:
  assumes "plain_text t"
  shows "alternating (text_to_elements t)"
proof -
  have word: "alternating (word_elements w)" if "w \<noteq> []" "list_all decodable w" for w
  proof -
    have "List.map_filter char_to_morse w \<noteq> []" using decodable_word [OF that(2)] that(1) by force
    then show ?thesis
      unfolding word_elements_def
      by (intro alternating_join) (auto simp: list_all_iff is_mark_def dest!: encodable_symbols letter_alternating)
  qed
  then show ?thesis
    unfolding text_to_elements_spec text_elements_spec_def
    using plain_words [OF assms] by (intro alternating_join) (auto simp: list_all_iff is_mark_def)
qed

text \<open>C11: What the keyer keys, the decoder reads: a plain text (decodable characters, single spaces between words)
  queued on a fresh keyer in an iambic mode, Ultimatic or bug, and keyed
  by its ticks, the transitions fed to a decoder told the keyer's speed and the decoder polled
  once, two to six dits into the silence that follows, the decoder's history is the text in upper case (its last 32
  characters). The timing condition \<open>copyable\<close> holds for the standard weight, no Farnsworth
  spacing, no keying compensation and a tick of at most a third of a dit.\<close>

theorem keyer_to_decoder_roundtrip:
  assumes "deque_laws H HISTORY_CAPACITY"
    and "new_with_tick D cfg T = Some s" and "iambic_mode (mode cfg)"
    and "copyable cfg T" and "plain_text t"
    and "ending = text_ticks cfg T (text_to_elements t) * T"
    and "ending + 2 * dot_duration_us cfg \<le> now" "now < ending + 6 * dot_duration_us cfg"
  shows "dq_iter H (history (fold (dec_op H)
      (transition_ops (speed_wpm cfg)
         (tick_log D (text_ticks cfg T (text_to_elements t)) (send_text t s)) @ [Poll now (speed_wpm cfg)])
      (dec_new H))) = keep_last 32 (as_bytes t)"
proof -
  obtain m es where es: "text_to_elements t = m # es" "is_mark m" "is_mark (last (m # es))"
    using alternating_marks [OF plain_text_alternating [OF assms(5)]] by metis
  have alt: "alternating (m # es)" using plain_text_alternating [OF assms(5)] by (simp add: es)
  have T: "0 < T" using assms(2) by (simp add: new_with_tick_def split: if_splits)
  have TT: "2 * T \<le> dot_duration_us cfg" using assms(4) by (simp add: copyable_def)
  let ?trs = "\<lparr>key_down = True, timestamp_us = 2 * T\<rparr> # tl (text_timeline cfg T 0 (m # es))"
  have trs: "tick_log D (text_ticks cfg T (m # es)) (send_text t s) = ?trs"
    using text_transmission [OF assms(2,3) TT es] by blast
  have "2 * T \<le> element_us cfg m"
    using es(2) assms(4) TT by (auto simp: is_mark_def copyable_def effective_dot_duration_us_def)
  then have n: "2 * T \<le> ceil_ticks T (element_us cfg m) * T"
    using ceil_ticks_bounds(1) [OF T, of "element_us cfg m"] by linarith
  define a where "a = fold sp_op (transition_ops (speed_wpm cfg) ?trs) sp_new"
  have a: "silent_since ending (fold element_step (m # es) ([], [])) a"
    using decoded_cold [OF assms(4) T alt n] by (simp add: a_def assms(6) es(1))
  have "sp_text (sp_op (Poll now (speed_wpm cfg)) a) = flushed (fold element_step (m # es) ([], []))"
  proof -
    have "\<not> now - ending < 2 * dot_duration_us cfg" "now - ending < 6 * dot_duration_us cfg"
      using assms(7,8) by linarith+
    with a show ?thesis by (simp add: silent_since_def dec_dit_dot sp_gap_def sp_emit_def flushed_def)
  qed
  also have "\<dots> = as_bytes t" using plain_text_flushed [OF assms(5)] by (simp add: es(1))
  finally have "sp_text (fold sp_op (transition_ops (speed_wpm cfg) ?trs @ [Poll now (speed_wpm cfg)]) sp_new)
      = as_bytes t" by (simp add: a_def)
  with decoder_refines [OF assms(1), of "transition_ops (speed_wpm cfg) ?trs @ [Poll now (speed_wpm cfg)]"]
  show ?thesis by (simp add: es(1) trs dec_rel_def HISTORY_CAPACITY_def)
qed

theorem keyer_to_decoder_roundtrip_witness:
  "dq_iter (list_deque 32) (history (fold (dec_op (list_deque 32))
      (transition_ops 18 (tick_log (list_deque 64) 470 (send_text (map of_char ''et'') sample_engine))
        @ [Poll 670000 18]) (dec_new (list_deque 32)))) = map of_char ''ET''"
proof -
  have laws: "deque_laws (list_deque 32 :: u8 list dec_ring) HISTORY_CAPACITY"
    by (simp add: HISTORY_CAPACITY_def list_deque_laws)
  have els: "text_to_elements (map of_char ''et'') = [Dit, LetterGap, Dash]"
    and plain: "plain_text (map of_char ''et'')" by code_simp+
  have m: "iambic_mode (mode default_config)" "speed_wpm default_config = 18"
    by (simp_all add: default_config_def iambic_mode_def)
  have d: "dot_duration_us default_config = 66666" "effective_dot_duration_us default_config = 66666"
    "letter_gap_us default_config = 199998" by code_simp+
  have "effective_dash_duration_us default_config = 199998"
    using dash_duration_standard_weight [of default_config] d(1)
    by (simp add: default_config_def effective_dash_duration_us_def)
  then have n: "text_ticks default_config 1000 [Dit, LetterGap, Dash] = 470"
    by (simp add: text_ticks_def ceil_ticks_def d)
  have "weight default_config = 50" "\<not> dynamic_ratio default_config" "farnsworth_wpm default_config = 0"
    "keying_compensation_ms default_config = 0" by (simp_all add: default_config_def)
  then have c: "copyable default_config 1000" by (rule standard_copyable) (simp add: d(1))
  have "as_bytes (map of_char ''et'') = map of_char ''ET''" by code_simp
  then show ?thesis
    using keyer_to_decoder_roundtrip [OF laws sample_new m(1) c plain refl, of 670000,
        unfolded els n m(2) d(1)]
    by (simp del: run_ops.simps key_log.simps)
qed

section \<open>Silence and snapshots\<close>

text \<open>What polls in one silence can have done to the abstract decoder.\<close>

definition silence_step :: "DecoderSpec \<Rightarrow> DecoderSpec \<Rightarrow> bool" where
  "silence_step a a' \<longleftrightarrow> a' = a \<or> a' = sp_emit a \<or>
     (\<not> sp_space a \<and> a' = (sp_emit a)\<lparr>sp_text := sp_text (sp_emit a) @ [of_char (CHR '' '')],
       sp_space := True\<rparr>)"

lemma silence_polls: "\<exists>a'. fold sp_op (map (\<lambda>(now, wpm). Poll now wpm) ps) a = a' \<and> silence_step a a'"
proof (induction ps rule: rev_induct)
  case (snoc p ps)
  then show ?case
    by (cases p) (auto simp: silence_step_def sp_gap_def sp_emit_def decoded_def)
qed (simp add: silence_step_def)

text \<open>Polling is safe at any rate: however often and whenever the decoder is polled during one
  silence (whatever speeds it is told), the history gains at most the pending character and one
  space.\<close>

theorem polls_emit_at_most_once:
  assumes "deque_laws D HISTORY_CAPACITY"
    and "s = fold (dec_op D) ops (dec_new D)"
  shows "\<exists>chs ch. dq_iter D (history (fold (dec_op D) (map (\<lambda>(now, wpm). Poll now wpm) ps) s))
        = keep_last 32 (dq_iter D (history s) @ chs)
      \<and> length ch \<le> 1 \<and> (chs = [] \<or> chs = ch \<or> chs = ch @ [of_char (CHR '' '')])"
proof -
  let ?a = "fold sp_op ops sp_new" and ?ps = "map (\<lambda>(now, wpm). Poll now wpm) ps"
  have r: "dec_rel D s ?a" using decoder_refines [OF assms(1)] assms(2) by simp
  have r': "dec_rel D (fold (dec_op D) ?ps s) (fold sp_op ?ps ?a)"
    using decoder_refines [OF assms(1), of "ops @ ?ps"] assms(2) by simp
  obtain a' where a': "fold sp_op ?ps ?a = a'" "silence_step ?a a'" using silence_polls by blast
  let ?ch = "decoded (sp_pending ?a)"
  have "\<exists>chs. sp_text a' = sp_text ?a @ chs \<and> (chs = [] \<or> chs = ?ch \<or> chs = ?ch @ [of_char (CHR '' '')])"
    using a'(2) by (auto simp: silence_step_def sp_emit_def)
  then obtain chs where chs: "sp_text a' = sp_text ?a @ chs"
    "chs = [] \<or> chs = ?ch \<or> chs = ?ch @ [of_char (CHR '' '')]" by blast
  have "length ?ch \<le> 1" by (simp add: decoded_def)
  with r r' chs show ?thesis
    unfolding a'(1) dec_rel_def HISTORY_CAPACITY_def
    by (metis keep_last_append_keep_last)
qed

theorem polls_emit_at_most_once_witness:
  "\<exists>chs ch. dq_iter (list_deque 32) (history (fold (dec_op (list_deque 32))
      (map (\<lambda>(now, wpm). Poll now wpm) [(200000, 20), (900000, 20), (5000000, 20)])
      (fold (dec_op (list_deque 32)) [OnTransition 0 True 20, OnTransition 60000 False 20]
        (dec_new (list_deque 32))))) = keep_last 32 ([] @ chs) \<and>
    length ch \<le> 1 \<and> (chs = [] \<or> chs = ch \<or> chs = ch @ [of_char (CHR '' '')])"
proof -
  have laws: "deque_laws (list_deque 32 :: u8 list dec_ring) HISTORY_CAPACITY"
    by (simp add: HISTORY_CAPACITY_def list_deque_laws)
  have "dq_iter (list_deque 32) (history (fold (dec_op (list_deque 32))
      [OnTransition 0 True 20, OnTransition 60000 False 20] (dec_new (list_deque 32)))) = []"
    by code_simp
  with polls_emit_at_most_once [OF laws refl, of "[(200000, 20), (900000, 20), (5000000, 20)]"
      "[OnTransition 0 True 20, OnTransition 60000 False 20]"]
  show ?thesis by metis
qed

lemma snapshot_loop_spec:
  "n \<le> length out \<Longrightarrow> snapshot_loop chs n out =
    (take n out @ take (length out - n) chs @ drop (n + length chs) out, min (length out) (n + length chs))"
proof (induction chs arbitrary: n out)
  case (Cons ch chs)
  show ?case
  proof (cases "n < length out")
    case True
    then have "take (Suc n) (out[n := ch]) = take n out @ [ch]"
      by (simp add: take_Suc_conv_app_nth)
    moreover obtain k where "length out - n = Suc k" "length out - Suc n = k"
      using True by (cases "length out - n") auto
    ultimately show ?thesis using Cons.IH [of "Suc n" "out[n := ch]"] True by simp
  qed (use Cons.prems in simp)
qed simp

text \<open>A snapshot never writes past the caller's buffer: it writes the oldest characters of the
  history that fit, leaves the rest of the buffer alone and returns the number written.\<close>

theorem snapshot_fills_buffer:
  "snapshot D s out = (take (length out) (dq_iter D (history s)) @ drop (length (dq_iter D (history s))) out,
     min (length out) (length (dq_iter D (history s))))"
  using snapshot_loop_spec [of 0 out] by (simp add: snapshot_def)

end
