(* ===== verification/Engine_Paddles.thy ===== *)
theory Engine_Paddles
  imports Engine_Timing
begin

text \<open>
  The iambic modes with paddles held: what is keyed while neither paddle moves, as a rhythm
  (\<open>Engine_Timing.rhythm\<close>). One paddle held repeats its element, both paddles held (a squeeze)
  alternate dits and dashes; every transition stays on the ideal grid.
\<close>

text \<open>Paddles \<open>d\<close> (dit) and \<open>h\<close> (dash) held, at least one of them, with no memory of a paddle
  that is not held: an element with its key down, or the gap after it.\<close>

definition held_paddles :: "KeyerConfig \<Rightarrow> nat \<Rightarrow> bool \<Rightarrow> bool \<Rightarrow> nat \<Rightarrow> nat \<Rightarrow> KeyerState \<Rightarrow> 'd KeyerEngine \<Rightarrow> bool" where
  "held_paddles cfg T d h now P st s \<longleftrightarrow> line_ok False s \<and> config s = cfg \<and>
     (mode cfg = IambicA \<or> mode cfg = IambicB) \<and> T \<le> element_gap_us cfg \<and>
     tick_us s = T \<and> elapsed_us s = now \<and> phase_end_us s = P \<and> state s = st \<and>
     st \<in> {SendDit, SendDash, DitDelay, DashDelay} \<and>
     key_active s = (st = SendDit \<or> st = SendDash) \<and> ptt_active s \<and> \<not> text_sending s \<and>
     dit_held s = d \<and> dash_held s = h \<and> (d \<or> h) \<and> (dit_memory s \<longrightarrow> d) \<and> (dash_memory s \<longrightarrow> h)"

fun paddle_next :: "bool \<Rightarrow> bool \<Rightarrow> KeyerState \<Rightarrow> KeyerState" where
  "paddle_next d h SendDit = DitDelay"
| "paddle_next d h SendDash = DashDelay"
| "paddle_next d h DitDelay = (if h then SendDash else SendDit)"
| "paddle_next d h DashDelay = (if d then SendDit else SendDash)"
| "paddle_next d h st = st"

lemma held_paddles_tick:
  assumes "held_paddles cfg T d h now P st s"
  shows "tick D s = tick_iambic_inner D False (s\<lparr>elapsed_us := now + T\<rparr>)"
  using assms by (auto simp: held_paddles_def tick_def tick_iambic_def)

lemma held_paddles_after:
  assumes "held_paddles cfg T d h now P st s"
  shows "line_ok False (snd (tick D s))"
  using assms tick_follows [of False s D] by (simp add: held_paddles_def follows_def)

lemma held_paddles_silent:
  assumes s: "held_paddles cfg T d h now P st s" and P: "now + T < P"
  shows "emitted_events (now + T) (fst (tick D s)) = [] \<and> held_paddles cfg T d h (now + T) P st (snd (tick D s))"
proof -
  have "emitted_events (now + T) (fst (tick D s)) = [] \<and>
      (line_ok False (snd (tick D s)) \<longrightarrow> held_paddles cfg T d h (now + T) P st (snd (tick D s)))"
    using s P unfolding held_paddles_tick [OF s]
    by (cases st) (simp_all add: held_paddles_def tick_iambic_inner_def phase_expired_def emitted_events_def Let_def, blast+)
  with held_paddles_after [OF s] show ?thesis by blast
qed

lemma resolve_held:
  assumes "mode (config s) \<noteq> Ultimatic" "dit_held s \<or> dash_held s"
    "dit_memory s \<longrightarrow> dit_held s" "dash_memory s \<longrightarrow> dash_held s"
  shows "resolve_after_dit_delay D False s = start_element_keyed D (dash_held s) s"
    and "resolve_after_dash_delay D False s = start_element_keyed D (\<not> dit_held s) s"
  using assms by (cases "dit_held s"; cases "dash_held s";
    simp add: resolve_after_dit_delay_def resolve_after_dash_delay_def Let_def)+

lemma held_paddles_due:
  assumes s: "held_paddles cfg T d h now P st s" and P: "now < P" "P \<le> now + T"
  shows "emitted_events (now + T) (fst (tick D s)) = edge_at (key_edge st) (now + T)
    \<and> held_paddles cfg T d h (now + T) (P + phase_len cfg (paddle_next d h st)) (paddle_next d h st)
        (snd (tick D s))"
proof -
  let ?s = "s\<lparr>elapsed_us := now + T\<rparr>"
  have st: "st = SendDit \<or> st = SendDash \<or> st = DitDelay \<or> st = DashDelay"
    and m: "mode cfg \<noteq> Ultimatic"
    using s by (auto simp: held_paddles_def)
  have r: "resolve_after_dit_delay D False ?s = start_element_keyed D h ?s"
    "resolve_after_dash_delay D False ?s = start_element_keyed D (\<not> d) ?s"
    using resolve_held [of ?s D] m s by (auto simp: held_paddles_def)
  have "emitted_events (now + T) (fst (tick D s)) = edge_at (key_edge st) (now + T)
    \<and> (line_ok False (snd (tick D s)) \<longrightarrow>
       held_paddles cfg T d h (now + T) (P + phase_len cfg (paddle_next d h st)) (paddle_next d h st)
         (snd (tick D s)))"
    using st r s P unfolding held_paddles_tick [OF s]
    by (elim disjE) (simp_all add: held_paddles_def tick_iambic_inner_def phase_expired_def emit_defs
        key_edge_def emitted_events_def key_event_def Let_def, blast+)
  with held_paddles_after [OF s] show ?thesis by blast
qed

interpretation paddles: rhythm D T "held_paddles cfg T d h" "paddle_next d h" "phase_len cfg" key_edge
  for D :: "'d ring" and T cfg d h
proof unfold_locales
  fix now P st and s :: "'d KeyerEngine"
  assume "held_paddles cfg T d h now P st s"
  then show "0 < T \<and> elapsed_us s = now \<and> T \<le> phase_len cfg (paddle_next d h st)"
    using phase_len_ge [of cfg "paddle_next d h st"]
    by (simp add: held_paddles_def line_ok_def phase_ok_def)
qed (fact held_paddles_silent, fact held_paddles_due)

section \<open>The squeeze\<close>

definition squeeze_period :: "KeyerConfig \<Rightarrow> nat" where
  "squeeze_period cfg =
     2 * element_gap_us cfg + effective_dash_duration_us cfg + effective_dot_duration_us cfg"

text \<open>The end of a dit at \<open>P\<close>, a gap, a dash, a gap and the start of the next dit, \<open>k\<close> times.\<close>

definition squeeze_grid :: "KeyerConfig \<Rightarrow> nat \<Rightarrow> nat \<Rightarrow> nat \<Rightarrow> nat \<Rightarrow> KeyTransition list" where
  "squeeze_grid cfg T now P k = concat (map (\<lambda>j.
     let dit_up = P + j * squeeze_period cfg;
         dash_down = dit_up + element_gap_us cfg;
         dash_up = dash_down + effective_dash_duration_us cfg;
         dit_down = dash_up + element_gap_us cfg
     in [\<lparr>key_down = False, timestamp_us = tick_at T now dit_up\<rparr>,
         \<lparr>key_down = True, timestamp_us = tick_at T now dash_down\<rparr>,
         \<lparr>key_down = False, timestamp_us = tick_at T now dash_up\<rparr>,
         \<lparr>key_down = True, timestamp_us = tick_at T now dit_down\<rparr>]) [0..<k])"

lemma squeeze_grid_Suc:
  "squeeze_grid cfg T now P (Suc k) = squeeze_grid cfg T now P 1
     @ squeeze_grid cfg T now (P + squeeze_period cfg) k"
  by (simp add: squeeze_grid_def map_upt_Suc Let_def ac_simps del: upt_Suc)

lemma squeeze_step:
  "ticked T now (rhythm_edges (paddle_next True True) (phase_len cfg) key_edge P SendDit (4 + n))
    = squeeze_grid cfg T now P 1
      @ ticked T now (rhythm_edges (paddle_next True True) (phase_len cfg) key_edge (P + squeeze_period cfg) SendDit n)"
  "rhythm_end (paddle_next True True) (phase_len cfg) P SendDit (4 + n)
    = rhythm_end (paddle_next True True) (phase_len cfg) (P + squeeze_period cfg) SendDit n"
  by (simp_all add: eval_nat_numeral key_edge_def squeeze_grid_def squeeze_period_def Let_def ac_simps)

lemma squeeze_edges:
  "ticked T now (rhythm_edges (paddle_next True True) (phase_len cfg) key_edge P SendDit (4 * k))
    = squeeze_grid cfg T now P k"
proof (induction k arbitrary: P)
  case (Suc k)
  have "4 * Suc k = 4 + 4 * k" by simp
  then show ?case unfolding squeeze_grid_Suc [of _ _ _ _ k] by (simp only: squeeze_step Suc.IH)
qed (simp add: squeeze_grid_def)

lemma squeeze_end:
  "rhythm_end (paddle_next True True) (phase_len cfg) P SendDit (4 * k + 3)
    = P + Suc k * squeeze_period cfg - effective_dot_duration_us cfg"
proof (induction k arbitrary: P)
  case 0
  show ?case by (simp add: squeeze_period_def eval_nat_numeral)
next
  case (Suc k)
  have "4 * Suc k + 3 = 4 + (4 * k + 3)" by simp
  then show ?case by (simp only: squeeze_step Suc.IH) (simp add: ac_simps)
qed

text \<open>C7: Squeezing both paddles in an iambic mode alternates dits and dashes without drift: with
  \<open>P\<close> the deadline of the dit being sent, the key goes up at \<open>P\<close>, down for a dash one gap later,
  up at the end of the dash, down for a dit one gap later, and so on for any number of periods,
  each time at the first tick at or after the ideal time. No dit or dash is skipped or repeated,
  whatever the paddle memories hold.\<close>

theorem squeeze_alternates:
  assumes "held_paddles cfg T True True now P SendDit s" and "now < P"
  shows "tick_log D (ceil_ticks T (P + Suc k * squeeze_period cfg
      - effective_dot_duration_us cfg - now)) s = squeeze_grid cfg T now P (Suc k)"
proof -
  have "Suc (4 * k + 3) = 4 * Suc k" by simp
  from paddles.on_grid [OF assms, of D "4 * k + 3", unfolded this] show ?thesis
    unfolding squeeze_end squeeze_edges .
qed

definition sample_squeezed :: "KeyTransition list KeyerEngine" where
  "sample_squeezed = snd (run_ops (engine_op (list_deque 64)) [SetPaddle True True, Tick, Tick] sample_engine)"

lemma sample_squeezed_facts:
  "config sample_squeezed = default_config" "effective_dot_duration_us default_config = 66666"
  "element_gap_us default_config = 66666" "effective_dash_duration_us default_config = 199998"
  "held_paddles default_config 1000 True True 2000 67666 SendDit sample_squeezed"
  "\<not> dit_memory sample_squeezed" "dash_memory sample_squeezed" "text_queue sample_squeezed = []"
proof -
  show c: "config sample_squeezed = default_config"
    and e: "effective_dot_duration_us default_config = 66666" "element_gap_us default_config = 66666"
    and "\<not> dit_memory sample_squeezed" "dash_memory sample_squeezed" "text_queue sample_squeezed = []"
    by code_simp+
  show "effective_dash_duration_us default_config = 199998"
    using dash_duration_standard_weight [of default_config]
    by (simp add: default_config_def effective_dash_duration_us_def dot_duration_us_def)
  have "line_ok False sample_squeezed"
    unfolding sample_squeezed_def
    by (rule engine_line.run_ok [OF new_with_tick_ok(1) [OF sample_new] all_allowed])
  moreover have "mode default_config = IambicB" "tick_us sample_squeezed = 1000"
    "elapsed_us sample_squeezed = 2000" "phase_end_us sample_squeezed = 67666"
    "state sample_squeezed = SendDit" "key_active sample_squeezed" "ptt_active sample_squeezed"
    "\<not> text_sending sample_squeezed" "dit_held sample_squeezed" "dash_held sample_squeezed"
    by code_simp+
  ultimately show "held_paddles default_config 1000 True True 2000 67666 SendDit sample_squeezed"
    by (simp add: held_paddles_def c e)
qed

theorem squeeze_alternates_witness:
  "tick_log (list_deque 64) 399 sample_squeezed
    = [\<lparr>key_down = False, timestamp_us = 68000\<rparr>, \<lparr>key_down = True, timestamp_us = 135000\<rparr>,
       \<lparr>key_down = False, timestamp_us = 335000\<rparr>, \<lparr>key_down = True, timestamp_us = 401000\<rparr>]"
proof -
  from squeeze_alternates [OF sample_squeezed_facts(5), of "list_deque 64" 0] show ?thesis
    by (simp add: sample_squeezed_facts ceil_ticks_def squeeze_grid_def squeeze_period_def tick_at_def
        del: run_ops.simps key_log.simps)
qed

section \<open>Releasing the squeeze\<close>

text \<open>Both paddles released during an element (\<open>dash\<close>: a dash): the element ends, its gap passes,
  and in mode B a remembered paddle (\<open>m\<close>) is served with one element of the other kind.\<close>

datatype release_phase = Ending | Gap | Extra | ExtraGap | Quiet

fun release_state :: "bool \<Rightarrow> release_phase \<Rightarrow> KeyerState" where
  "release_state dash Ending = (if dash then SendDash else SendDit)"
| "release_state dash Gap = (if dash then DashDelay else DitDelay)"
| "release_state dash Extra = (if dash then SendDit else SendDash)"
| "release_state dash ExtraGap = (if dash then DitDelay else DashDelay)"
| "release_state dash Quiet = Idle"

fun release_next :: "bool \<Rightarrow> release_phase \<Rightarrow> release_phase" where
  "release_next extra Ending = Gap"
| "release_next extra Gap = (if extra then Extra else Quiet)"
| "release_next extra Extra = ExtraGap"
| "release_next extra ExtraGap = Quiet"
| "release_next extra Quiet = Quiet"

fun release_edge :: "bool \<Rightarrow> release_phase \<Rightarrow> bool option" where
  "release_edge extra Ending = Some False"
| "release_edge extra Gap = (if extra then Some True else None)"
| "release_edge extra Extra = Some False"
| "release_edge extra _ = None"

definition release_len :: "KeyerConfig \<Rightarrow> nat \<Rightarrow> bool \<Rightarrow> release_phase \<Rightarrow> nat" where
  "release_len cfg T dash ph = (if ph = Quiet then T else phase_len cfg (release_state dash ph))"

definition released :: "KeyerConfig \<Rightarrow> nat \<Rightarrow> bool \<Rightarrow> bool \<Rightarrow> nat \<Rightarrow> nat \<Rightarrow> release_phase \<Rightarrow> 'd KeyerEngine \<Rightarrow> bool" where
  "released cfg T dash m now P ph s \<longleftrightarrow> line_ok False s \<and> config s = cfg \<and>
     (mode cfg = IambicA \<or> mode cfg = IambicB) \<and> \<not> auto_spacing cfg \<and> T \<le> element_gap_us cfg \<and>
     tick_us s = T \<and> elapsed_us s = now \<and> state s = release_state dash ph \<and>
     key_active s = (ph = Ending \<or> ph = Extra) \<and> (ph \<noteq> Quiet \<longrightarrow> phase_end_us s = P \<and> ptt_active s) \<and>
     \<not> text_sending s \<and> text_queue s = [] \<and> \<not> dit_held s \<and> \<not> dash_held s \<and>
     dit_memory s = (dash \<and> m \<and> (ph = Ending \<or> ph = Gap)) \<and>
     dash_memory s = (\<not> dash \<and> m \<and> (ph = Ending \<or> ph = Gap))"

definition extra_element :: "KeyerConfig \<Rightarrow> bool \<Rightarrow> bool" where
  "extra_element cfg m \<longleftrightarrow> m \<and> mode cfg = IambicB"

lemma released_tick:
  assumes "released cfg T dash m now P ph s"
  shows "tick D s = tick_iambic_inner D False (s\<lparr>elapsed_us := now + T\<rparr>)"
    and "line_ok False (snd (tick D s))"
proof -
  show "tick D s = tick_iambic_inner D False (s\<lparr>elapsed_us := now + T\<rparr>)"
    using assms by (auto simp: released_def tick_def tick_iambic_def)
  show "line_ok False (snd (tick D s))"
    using assms tick_follows [of False s D] by (simp add: released_def follows_def)
qed

lemma released_silent:
  assumes s: "released cfg T dash m now P ph s" and P: "ph \<noteq> Quiet \<Longrightarrow> now + T < P"
  shows "emitted_events (now + T) (fst (tick D s)) = [] \<and> released cfg T dash m (now + T) P ph (snd (tick D s))"
proof -
  have "emitted_events (now + T) (fst (tick D s)) = [] \<and>
      (line_ok False (snd (tick D s)) \<longrightarrow> released cfg T dash m (now + T) P ph (snd (tick D s)))"
    using s P unfolding released_tick(1) [OF s]
    by (cases ph; cases dash) (simp_all add: released_def tick_iambic_inner_def phase_expired_def
        handle_hang_time_def maybe_emit_ptt_def emitted_events_def key_event_def Let_def)
  with released_tick(2) [OF s] show ?thesis by blast
qed

lemma resolve_released:
  assumes "mode (config s) = IambicA \<or> mode (config s) = IambicB" "\<not> auto_spacing (config s)"
    "\<not> dit_held s" "\<not> dash_held s" "\<not> text_sending s"
  shows "\<not> dit_memory s \<Longrightarrow> resolve_after_dit_delay D False s
      = (if extra_element (config s) (dash_memory s) then start_element_keyed D True s
         else (None, enter_idle_from_delay s))"
    and "\<not> dash_memory s \<Longrightarrow> resolve_after_dash_delay D False s
      = (if extra_element (config s) (dit_memory s) then start_element_keyed D False s
         else (None, enter_idle_from_delay s))"
  using assms by (elim disjE; simp add: resolve_after_dit_delay_def resolve_after_dash_delay_def
    resolve_delay_tail_def enter_idle_from_delay_def is_mode_b_def extra_element_def Let_def)+

lemma released_due:
  assumes s: "released cfg T dash m now P ph s" and P: "now < P" "P \<le> now + T"
  defines "x \<equiv> extra_element cfg m"
  shows "emitted_events (now + T) (fst (tick D s)) = edge_at (release_edge x ph) (now + T)
    \<and> released cfg T dash m (now + T) (P + release_len cfg T dash (release_next x ph)) (release_next x ph)
        (snd (tick D s))"
proof -
  let ?s = "s\<lparr>elapsed_us := now + T\<rparr>"
  have r: "\<not> dit_memory s \<Longrightarrow> resolve_after_dit_delay D False ?s
      = (if extra_element cfg (dash_memory s) then start_element_keyed D True ?s
         else (None, enter_idle_from_delay ?s))"
    "\<not> dash_memory s \<Longrightarrow> resolve_after_dash_delay D False ?s
      = (if extra_element cfg (dit_memory s) then start_element_keyed D False ?s
         else (None, enter_idle_from_delay ?s))"
    using resolve_released [of ?s D] s by (auto simp: released_def)
  have "emitted_events (now + T) (fst (tick D s)) = edge_at (release_edge x ph) (now + T)
    \<and> (line_ok False (snd (tick D s)) \<longrightarrow>
       released cfg T dash m (now + T) (P + release_len cfg T dash (release_next x ph)) (release_next x ph)
         (snd (tick D s)))"
    using s P r unfolding released_tick(1) [OF s] x_def
    by (cases ph; cases dash) (simp_all add: released_def tick_iambic_inner_def phase_expired_def
        emit_defs enter_idle_from_delay_def handle_hang_time_def release_len_def extra_element_def
        emitted_events_def key_event_def Let_def)
  with released_tick(2) [OF s] show ?thesis by blast
qed

interpretation release: rhythm D T "released cfg T dash m" "release_next (extra_element cfg m)"
  "release_len cfg T dash" "release_edge (extra_element cfg m)"
  for D :: "'d ring" and T cfg dash m
proof unfold_locales
  fix now P ph and s :: "'d KeyerEngine"
  assume s: "released cfg T dash m now P ph s"
  show "0 < T \<and> elapsed_us s = now \<and> T \<le> release_len cfg T dash (release_next (extra_element cfg m) ph)"
    using s phase_len_ge [of cfg "release_state dash (release_next (extra_element cfg m) ph)"]
    by (simp add: released_def release_len_def line_ok_def phase_ok_def)
qed (rule released_silent, assumption+, fact released_due)

lemma quiet_edges: "rhythm_edges (release_next x) len (release_edge x) P Quiet k = []"
  by (induction k arbitrary: P) simp_all

lemma quiet_end: "rhythm_end (release_next x) (release_len cfg T dash) P Quiet k = P + k * T"
  by (induction k arbitrary: P) (simp_all add: release_len_def ac_simps)

text \<open>The transitions after the release, and when the last gap is over.\<close>

definition release_edges :: "KeyerConfig \<Rightarrow> bool \<Rightarrow> bool \<Rightarrow> nat \<Rightarrow> KeyTransition list" where
  "release_edges cfg dash extra P =
     (let other = P + element_gap_us cfg
      in \<lparr>key_down = False, timestamp_us = P\<rparr>
         # (if extra
            then [\<lparr>key_down = True, timestamp_us = other\<rparr>,
                  \<lparr>key_down = False, timestamp_us = other + (if dash then effective_dot_duration_us cfg
                                                                else effective_dash_duration_us cfg)\<rparr>]
            else []))"

definition release_over :: "KeyerConfig \<Rightarrow> bool \<Rightarrow> bool \<Rightarrow> nat \<Rightarrow> nat" where
  "release_over cfg dash extra P = P + element_gap_us cfg +
     (if extra then (if dash then effective_dot_duration_us cfg else effective_dash_duration_us cfg)
        + element_gap_us cfg else 0)"

lemma release_rhythm:
  defines "k x j \<equiv> (if x then Suc (Suc (Suc j)) else Suc j)"
  shows "rhythm_edges (release_next x) (release_len cfg T dash) (release_edge x) P Ending (Suc (k x j))
      = release_edges cfg dash x P"
    and "rhythm_end (release_next x) (release_len cfg T dash) P Ending (k x j)
      = release_over cfg dash x P + j * T"
proof -
  show "rhythm_edges (release_next x) (release_len cfg T dash) (release_edge x) P Ending (Suc (k x j))
      = release_edges cfg dash x P"
    by (simp add: k_def release_edges_def quiet_edges release_len_def Let_def)
  show "rhythm_end (release_next x) (release_len cfg T dash) P Ending (k x j)
      = release_over cfg dash x P + j * T"
    by (cases j) (simp_all add: k_def release_over_def quiet_end release_len_def ac_simps)
qed

lemma set_paddle_released:
  "\<not> text_sending s \<Longrightarrow> set_paddle False False s = s\<lparr>dit_held := False, dash_held := False\<rparr>"
  by (simp add: set_paddle_def Let_def)

lemma ceil_ticks_reached:
  assumes "0 < T" "0 < d" "d \<le> n * T"
  obtains j where "n = ceil_ticks T (d + j * T)"
proof -
  have "(ceil_ticks T d - 1) * T < n * T" using ceil_ticks_bounds(2) [OF assms(1,2)] assms(3) by linarith
  then have n: "ceil_ticks T d \<le> n" by (simp, linarith)
  let ?j = "n - ceil_ticks T d"
  have "ceil_ticks T d = ceil_ticks T (d + ?j * T) - ?j"
    using ceil_ticks_minus [OF assms(1), of ?j "d + ?j * T"] by simp
  moreover have "?j * T < ceil_ticks T (d + ?j * T) * T"
    using ceil_ticks_bounds(1) [OF assms(1), of "d + ?j * T"] assms(2) by linarith
  ultimately have "n = ceil_ticks T (d + ?j * T)" using n by (simp, linarith)
  then show thesis by (rule that)
qed

text \<open>C8: Releasing a squeeze (both paddles, during an element, in an iambic mode with automatic letter
  spacing off, no text queued and the paddle of the element itself not remembered): the element and
  its gap are completed, then mode B keys exactly one more element, of the other
  kind, if the opposite paddle was remembered, and mode A (and mode B with nothing remembered)
  keys nothing; after that the key stays up as long as nothing new is asked for. (With
  automatic letter spacing on, mode A is different: \<open>mode_a_memory_refires\<close>.)\<close>

theorem squeeze_release:
  assumes s: "held_paddles cfg T True True now P (if dash then SendDash else SendDit) s" and P: "now < P"
    and a: "\<not> auto_spacing cfg" "text_queue s = []"
    and own: "if dash then \<not> dash_memory s else \<not> dit_memory s"
  defines "extra \<equiv> extra_element cfg (if dash then dit_memory s else dash_memory s)"
  assumes n: "release_over cfg dash extra P \<le> now + n * T"
  shows "tick_log D n (set_paddle False False s) = ticked T now (release_edges cfg dash extra P)"
proof -
  define m where "m = (if dash then dit_memory s else dash_memory s)"
  have p: "set_paddle False False s = s\<lparr>dit_held := False, dash_held := False\<rparr>"
    using s by (simp add: held_paddles_def set_paddle_released)
  have "line_ok False (set_paddle False False s)" using s by (simp add: held_paddles_def)
  then have r: "released cfg T dash m now P Ending (set_paddle False False s)"
    using s a own unfolding p by (auto simp: held_paddles_def released_def m_def split: if_splits)
  have T: "0 < T" using s by (auto simp: held_paddles_def line_ok_def phase_ok_def)
  have over: "now < release_over cfg dash extra P" using P by (simp add: release_over_def)
  then have d: "0 < release_over cfg dash extra P - now" "release_over cfg dash extra P - now \<le> n * T"
    using n by linarith+
  obtain j where "n = ceil_ticks T (release_over cfg dash extra P - now + j * T)"
    by (rule ceil_ticks_reached [OF T d])
  then have "n = ceil_ticks T (release_over cfg dash extra P + j * T - now)" using over by simp
  with release.on_grid [OF r P, of D "if extra then Suc (Suc (Suc j)) else Suc j"] show ?thesis
    unfolding m_def [symmetric] extra_def release_rhythm by (simp add: m_def)
qed

theorem squeeze_release_witness:
  "tick_log (list_deque 64) 500 (set_paddle False False sample_squeezed)
    = [\<lparr>key_down = False, timestamp_us = 68000\<rparr>, \<lparr>key_down = True, timestamp_us = 135000\<rparr>,
       \<lparr>key_down = False, timestamp_us = 335000\<rparr>]"
proof -
  have "\<not> auto_spacing default_config" "extra_element default_config True" by code_simp+
  with squeeze_release [of default_config 1000 2000 67666 False sample_squeezed 500 "list_deque 64"]
  show ?thesis
    by (simp add: sample_squeezed_facts release_over_def release_edges_def tick_at_def ceil_ticks_def
        del: run_ops.simps key_log.simps)
qed

section \<open>A memory that outlives mode A\<close>

text \<open>The letter space of a dash remembered but not held: the dash is keyed on the tick after it.\<close>

lemma letter_space_refires:
  assumes s: "line_ok False s" "config s = cfg" "mode cfg = IambicA"
      "tick_us s = T" "elapsed_us s = now" "phase_end_us s = P" "state s = LetterSpace"
      "\<not> key_active s" "ptt_active s"
    and memory: "\<not> dit_held s" "\<not> dash_held s" "dash_memory s" "\<not> dit_memory s" and P: "now < P"
  shows "tick_log D (Suc (ceil_ticks T (P - now))) s
    = [\<lparr>key_down = True, timestamp_us = tick_at T now P + T\<rparr>]"
proof -
  define n where "n = ceil_ticks T (P - now)"
  have T: "0 < T" using s(1,4) by (auto simp: line_ok_def phase_ok_def)
  have w: "waiting s" using s memory by (simp add: waiting_def iambic_mode_def)
  have d: "phase_end_us s = now + (P - now)" "0 < P - now" using P s(6) by auto
  note a = ticks_to_deadline [OF w _ _ d(2) refl, unfolded s(4,5), OF T d(1), folded n_def]
  obtain k where k: "n = Suc k" using ceil_ticks_pos [OF T d(2)] by (cases n) (auto simp: n_def)
  let ?s1 = "s\<lparr>elapsed_us := now + n * T, state := Idle\<rparr>"
  have "tick D (s\<lparr>elapsed_us := now + (n - 1) * T\<rparr>) = (None, ?s1)"
    using s memory a(3)
    by (simp add: k tick_def tick_iambic_def tick_iambic_inner_def phase_expired_def Let_def)
  then have s1: "ticks D n s = ?s1" "tick_log D n s = []"
    using a(1,2) [of D] by (simp_all add: emitted_events_def)
  have "fst (tick D ?s1) = Some KeyDown" "elapsed_us (snd (tick D ?s1)) = now + n * T + T"
    using s memory by (simp_all add: tick_def tick_iambic_def tick_iambic_inner_def emit_defs Let_def)
  then have "tick_log D 1 (ticks D n s) = [\<lparr>key_down = True, timestamp_us = now + n * T + T\<rparr>]"
    unfolding s1 by (simp add: case_prod_beta emitted_events_def key_event_def)
  moreover have "Suc (ceil_ticks T (P - now)) = n + 1" by (simp add: n_def)
  moreover have "tick_at T now P = now + n * T" by (simp add: tick_at_def n_def)
  ultimately show ?thesis by (simp only: tick_log_add s1(2)) simp
qed

text \<open>C9: In mode A with automatic letter spacing a remembered paddle is not forgotten when the
  paddles are released: after the gap of the dit the engine waits out the rest of the letter gap
  and then keys a dash nobody asks for (the branch that enters \<open>LetterSpace\<close> returns before the
  memories of mode A are cleared).\<close>

theorem mode_a_memory_refires:
  assumes s: "line_ok False s" "config s = cfg" "mode cfg = IambicA" "auto_spacing cfg"
      "tick_us s = T" "elapsed_us s = now" "phase_end_us s = P" "state s = DitDelay"
      "\<not> key_active s" "ptt_active s" "\<not> text_sending s"
    and released: "\<not> dit_held s" "\<not> dash_held s" and memory: "dash_memory s" "\<not> dit_memory s"
    and P: "now < P" and g: "T \<le> letter_gap_us cfg - element_gap_us cfg"
  defines "over \<equiv> P + (letter_gap_us cfg - element_gap_us cfg)"
  shows "tick_log D (Suc (ceil_ticks T (over - now))) s
    = [\<lparr>key_down = True, timestamp_us = tick_at T now over + T\<rparr>]"
proof -
  define n where "n = ceil_ticks T (P - now)"
  let ?s1 = "s\<lparr>elapsed_us := now + n * T, state := LetterSpace, phase_end_us := over\<rparr>"
  have T: "0 < T" using s(1,5) by (auto simp: line_ok_def phase_ok_def)
  have w: "waiting s" using s released by (simp add: waiting_def iambic_mode_def)
  have d: "phase_end_us s = now + (P - now)" "0 < P - now" using P s(7) by auto
  note a = ticks_to_deadline [OF w _ _ d(2) refl, unfolded s(5,6), OF T d(1), folded n_def]
  obtain k where k: "n = Suc k" using ceil_ticks_pos [OF T d(2)] by (cases n) (auto simp: n_def)
  have n: "P \<le> now + n * T" "now + n * T < P + T" using a(3,4) s(7) by simp_all
  have "tick D (s\<lparr>elapsed_us := now + (n - 1) * T\<rparr>) = (None, ?s1)"
    using s released n g T
    by (simp add: k over_def tick_def tick_iambic_def tick_iambic_inner_def phase_expired_def is_mode_b_def
        resolve_after_dit_delay_def resolve_delay_tail_def schedule_phase_def Let_def)
  then have s1: "ticks D n s = ?s1" "tick_log D n s = []"
    using a(1,2) [of D] by (simp_all add: emitted_events_def)
  have ok: "line_ok False ?s1"
    using engine_line.run_ok [OF s(1) all_allowed, of D "replicate n Tick"] by (simp add: s1)
  have le: "now + n * T < over" using n g by (simp add: over_def)
  have at: "tick_at T (now + n * T) over = tick_at T now over" using le by (intro tick_at_later [OF T]) simp
  then have "n + ceil_ticks T (over - (now + n * T)) = ceil_ticks T (over - now)"
    using T by (simp add: tick_at_def flip: distrib_right)
  then have split: "Suc (ceil_ticks T (over - now)) = n + Suc (ceil_ticks T (over - (now + n * T)))"
    by simp
  have "tick_log D (Suc (ceil_ticks T (over - (now + n * T)))) ?s1
      = [\<lparr>key_down = True, timestamp_us = tick_at T now over + T\<rparr>]"
    unfolding at [symmetric] by (rule letter_space_refires [OF ok]) (use s released memory le in auto)
  then show ?thesis by (simp only: split tick_log_add s1) simp
qed

definition sample_mode_a :: "KeyTransition list KeyerEngine" where
  "sample_mode_a = snd (run_ops (engine_op (list_deque 64)) (SetPaddle True True # replicate 8 Tick @ [SetPaddle False False])
     (the (new_with_tick (list_deque 64) (default_config\<lparr>mode := IambicA, auto_spacing := True\<rparr>) 10000)))"

theorem mode_a_memory_refires_witness:
  "tick_log (list_deque 64) 21 sample_mode_a = [\<lparr>key_down = True, timestamp_us = 290000\<rparr>]"
proof -
  let ?c = "default_config\<lparr>mode := IambicA, auto_spacing := True\<rparr>"
  obtain s0 :: "KeyTransition list KeyerEngine"
    where s0: "new_with_tick (list_deque 64) ?c 10000 = Some s0" by (simp add: new_with_tick_def)
  have "line_ok False sample_mode_a"
    unfolding sample_mode_a_def s0 option.sel
    by (rule engine_line.run_ok [OF new_with_tick_ok(1) [OF s0] all_allowed])
  moreover have "config sample_mode_a = ?c" "mode ?c = IambicA" "auto_spacing ?c" "tick_us sample_mode_a = 10000"
    "elapsed_us sample_mode_a = 80000" "phase_end_us sample_mode_a = 143332" "state sample_mode_a = DitDelay"
    "\<not> key_active sample_mode_a" "ptt_active sample_mode_a" "\<not> text_sending sample_mode_a"
    "\<not> dit_held sample_mode_a" "\<not> dash_held sample_mode_a" "dash_memory sample_mode_a"
    "\<not> dit_memory sample_mode_a" by code_simp+
  moreover have "letter_gap_us ?c = 199998" "element_gap_us ?c = 66666" by code_simp+
  ultimately show ?thesis
    using mode_a_memory_refires [of sample_mode_a ?c 10000 80000 143332 "list_deque 64"]
    by (simp add: tick_at_def ceil_ticks_def del: run_ops.simps key_log.simps)
qed

end
