(* ===== verification/Keyer_Thread.thy ===== *)
theory Keyer_Thread
  imports Engine_Ring
begin

text \<open>
  \<^verbatim>\<open>crates/radio-utils-keyer/src/handle.rs\<close>: the keyer thread and the handle that controls it.
  \<open>KeyerThread\<close> is what both share: the command channel (64 places), the output channel (256
  places), the running flag, and the loop's own engine and clock (nanoseconds of the monotonic
  clock). One turn of the loop is one definition, with the paddle state that \<open>wait_for_change\<close>
  returned and the time it was taken as arguments; the calls of the handle and the consumer of the
  outputs come between the turns. A command that arrives while a turn drains the channel counts as
  sent before that turn. The thread's priority and the timer resolution of Windows are left out.
\<close>

section \<open>The thread and its handle\<close>

datatype KeyerCommand = UpdateConfigCommand KeyerConfig | SendMacro "rchar list" | AbortMacro | StopThread

record 'd KeyerThread =
  cmd_channel :: "KeyerCommand list"
  output_channel :: "KeyerOutput list"
  thread_running :: bool
  finished :: bool
  engine :: "'d KeyerEngine"
  last_tick :: nat

definition COMMAND_CAPACITY :: nat where
  "COMMAND_CAPACITY = 64"

definition OUTPUT_CAPACITY :: nat where
  "OUTPUT_CAPACITY = 256"

text \<open>\<^verbatim>\<open>try_send\<close> of a bounded channel: a value for which there is no place is dropped.\<close>

definition try_send :: "nat \<Rightarrow> 'a \<Rightarrow> 'a list \<Rightarrow> 'a list" where
  "try_send capacity x q = (if length q < capacity then q @ [x] else q)"

definition start_keyer :: "'d ring \<Rightarrow> KeyerConfig \<Rightarrow> nat \<Rightarrow> 'd KeyerThread option" where
  "start_keyer D cfg now =
     map_option (\<lambda>e. \<lparr>cmd_channel = [], output_channel = [], thread_running = True, finished = False,
       engine = e, last_tick = now\<rparr>) (new_engine D cfg)"

text \<open>A command to a thread that has ended is an error, which the handle ignores or logs.\<close>

definition try_command :: "KeyerCommand \<Rightarrow> 'd KeyerThread \<Rightarrow> 'd KeyerThread" where
  "try_command cmd t =
     (if finished t then t else t\<lparr>cmd_channel := try_send COMMAND_CAPACITY cmd (cmd_channel t)\<rparr>)"

definition handle_update_config :: "KeyerConfig \<Rightarrow> 'd KeyerThread \<Rightarrow> 'd KeyerThread" where
  "handle_update_config cfg t = try_command (UpdateConfigCommand cfg) t"

definition handle_send_macro :: "rchar list \<Rightarrow> 'd KeyerThread \<Rightarrow> 'd KeyerThread" where
  "handle_send_macro msg t = try_command (SendMacro msg) t"

text \<open>The abort waits for a place; \<open>None\<close> while there is none.\<close>

definition handle_abort_macro :: "'d KeyerThread \<Rightarrow> 'd KeyerThread option" where
  "handle_abort_macro t =
     (if finished t then Some t
      else if length (cmd_channel t) < COMMAND_CAPACITY
      then Some (t\<lparr>cmd_channel := cmd_channel t @ [AbortMacro]\<rparr>) else None)"

text \<open>Up to the join, which waits until the thread has finished.\<close>

definition handle_stop :: "'d KeyerThread \<Rightarrow> 'd KeyerThread" where
  "handle_stop t = try_command StopThread (t\<lparr>thread_running := False\<rparr>)"

section \<open>One turn of the loop\<close>

definition poll_timeout :: "'d KeyerThread \<Rightarrow> nat" where
  "poll_timeout t = (if is_active (engine t) then 1000000 else 100000000)"

fun run_command :: "KeyerCommand \<Rightarrow> 'd KeyerThread \<Rightarrow> 'd KeyerThread" where
  "run_command (UpdateConfigCommand cfg) t = t\<lparr>engine := update_config cfg (engine t)\<rparr>"
| "run_command (SendMacro msg) t = t\<lparr>engine := send_text msg (engine t)\<rparr>"
| "run_command AbortMacro t = t\<lparr>engine := abort_text (engine t)\<rparr>"
| "run_command StopThread t = t\<lparr>thread_running := False\<rparr>"

definition drain_commands :: "'d KeyerThread \<Rightarrow> 'd KeyerThread" where
  "drain_commands t = fold run_command (cmd_channel t) (t\<lparr>cmd_channel := []\<rparr>)"

definition tick_once :: "'d ring \<Rightarrow> 'd KeyerThread \<Rightarrow> 'd KeyerThread" where
  "tick_once D t =
     (case tick D (engine t) of
        (None, e) \<Rightarrow> t\<lparr>engine := e\<rparr>
      | (Some out, e) \<Rightarrow> t\<lparr>engine := e, output_channel := try_send OUTPUT_CAPACITY out (output_channel t)\<rparr>)"

text \<open>The milliseconds since the last tick, as a \<^verbatim>\<open>u32\<close>.\<close>

definition raw_elapsed :: "nat \<Rightarrow> 'd KeyerThread \<Rightarrow> nat" where
  "raw_elapsed now t = (now - last_tick t) div 1000000 mod 2 ^ 32"

definition advance :: "'d ring \<Rightarrow> nat \<Rightarrow> 'd KeyerThread \<Rightarrow> 'd KeyerThread" where
  "advance D now t =
     (let raw = raw_elapsed now t;
          elapsed_ms = min raw 4
      in if elapsed_ms > 0
         then let t = t\<lparr>last_tick := (if raw > 4 then now else last_tick t + elapsed_ms * 1000000)\<rparr>
              in (tick_once D ^^ elapsed_ms) t
         else t)"

definition keyer_turn :: "'d ring \<Rightarrow> bool \<Rightarrow> bool \<Rightarrow> nat \<Rightarrow> 'd KeyerThread \<Rightarrow> 'd KeyerThread" where
  "keyer_turn D dit dash now t =
     (if thread_running t
      then advance D now (drain_commands (t\<lparr>engine := set_paddle dit dash (engine t)\<rparr>))
      else t\<lparr>finished := True\<rparr>)"

section \<open>Runs\<close>

datatype thread_event =
    Turn bool bool nat
  | ConfigCall KeyerConfig
  | MacroCall "rchar list"
  | AbortCall
  | StopCall
  | TakeOutput

text \<open>An abort that finds no place happens later.\<close>

fun thread_step :: "'d ring \<Rightarrow> thread_event \<Rightarrow> 'd KeyerThread \<Rightarrow> KeyerOutput option \<times> 'd KeyerThread" where
  "thread_step D (Turn dit dash now) t = (None, keyer_turn D dit dash now t)"
| "thread_step D (ConfigCall cfg) t = (None, handle_update_config cfg t)"
| "thread_step D (MacroCall msg) t = (None, handle_send_macro msg t)"
| "thread_step D AbortCall t = (None, case handle_abort_macro t of Some t' \<Rightarrow> t' | None \<Rightarrow> t)"
| "thread_step D StopCall t = (None, handle_stop t)"
| "thread_step D TakeOutput t =
     (case output_channel t of [] \<Rightarrow> (None, t) | out # outs \<Rightarrow> (Some out, t\<lparr>output_channel := outs\<rparr>))"

text \<open>The consumer leaves four places free before each turn.\<close>

fun keeps_up :: "thread_event \<Rightarrow> 'd KeyerThread \<Rightarrow> bool" where
  "keeps_up (Turn dit dash now) t \<longleftrightarrow> length (output_channel t) + 4 \<le> OUTPUT_CAPACITY"
| "keeps_up _ t \<longleftrightarrow> True"

text \<open>The turns come in the order of their times, each within \<open>limit\<close> milliseconds of the last tick.\<close>

fun woken :: "nat \<Rightarrow> thread_event \<Rightarrow> 'd KeyerThread \<Rightarrow> bool" where
  "woken limit (Turn dit dash now) t \<longleftrightarrow> last_tick t \<le> now \<and> (now - last_tick t) div 1000000 \<le> limit"
| "woken limit _ t \<longleftrightarrow> True"

section \<open>The outputs\<close>

text \<open>Operations of the engine that emit \<open>outs\<close> lead from \<open>e\<close> to \<open>e'\<close>; all configurations among them
  satisfy \<open>Q\<close>.\<close>

fun configures :: "(KeyerConfig \<Rightarrow> bool) \<Rightarrow> KeyerOp \<Rightarrow> bool" where
  "configures Q (UpdateConfig cfg) \<longleftrightarrow> Q cfg"
| "configures Q _ \<longleftrightarrow> True"

fun command_configures :: "(KeyerConfig \<Rightarrow> bool) \<Rightarrow> KeyerCommand \<Rightarrow> bool" where
  "command_configures Q (UpdateConfigCommand cfg) \<longleftrightarrow> Q cfg"
| "command_configures Q _ \<longleftrightarrow> True"

fun event_configures :: "(KeyerConfig \<Rightarrow> bool) \<Rightarrow> thread_event \<Rightarrow> bool" where
  "event_configures Q (ConfigCall cfg) \<longleftrightarrow> Q cfg"
| "event_configures Q _ \<longleftrightarrow> True"

lemma event_any: "event_configures (\<lambda>_. True) ev"
  by (cases ev) simp_all

definition reaches :: "'d ring \<Rightarrow> (KeyerConfig \<Rightarrow> bool) \<Rightarrow> 'd KeyerEngine \<Rightarrow> KeyerOutput list \<Rightarrow> 'd KeyerEngine \<Rightarrow> bool" where
  "reaches D Q e outs e' \<longleftrightarrow> (\<exists>ops. list_all (configures Q) ops \<and> run_ops (engine_op D) ops e = (outs, e'))"

lemma reaches_refl [simp]: "reaches D Q e [] e"
  unfolding reaches_def by (rule exI [of _ "[]"]) simp

lemma run_ops_join:
  "run_ops step ops s = (outs, s') \<Longrightarrow> run_ops step ops' s' = (outs', s'') \<Longrightarrow>
    run_ops step (ops @ ops') s = (outs @ outs', s'')"
proof (induction ops arbitrary: s outs)
  case (Cons op ops)
  obtain r s1 where s1: "step op s = (r, s1)" by force
  obtain outs1 s2 where s2: "run_ops step ops s1 = (outs1, s2)" by force
  then have "s2 = s'" "outs = (case r of None \<Rightarrow> outs1 | Some x \<Rightarrow> x # outs1)"
    using Cons.prems(1) s1 by simp_all
  moreover from this(1) have "run_ops step (ops @ ops') s1 = (outs1 @ outs', s'')"
    using Cons.IH [of s1 outs1] s2 Cons.prems(2) by simp
  ultimately show ?case using s1 by (simp split: option.split)
qed simp

lemma reaches_trans: "reaches D Q e outs e' \<Longrightarrow> reaches D Q e' outs' e'' \<Longrightarrow> reaches D Q e (outs @ outs') e''"
  unfolding reaches_def by (metis list_all_append run_ops_join)

lemma reaches_op:
  "engine_op D op e = (r, e') \<Longrightarrow> configures Q op \<Longrightarrow> reaches D Q e (case r of None \<Rightarrow> [] | Some x \<Rightarrow> [x]) e'"
  unfolding reaches_def by (rule exI [of _ "[op]"]) simp

lemma reaches_silent: "engine_op D op e = (None, e') \<Longrightarrow> configures Q op \<Longrightarrow> reaches D Q e [] e'"
  using reaches_op [of D op e None e'] by simp

text \<open>What a part of a turn does: operations of the engine, their outputs in the channel.\<close>

definition works :: "'d ring \<Rightarrow> (KeyerConfig \<Rightarrow> bool) \<Rightarrow> 'd KeyerThread \<Rightarrow> KeyerOutput list \<Rightarrow> 'd KeyerThread \<Rightarrow> bool" where
  "works D Q t outs t' \<longleftrightarrow> reaches D Q (engine t) outs (engine t') \<and> output_channel t' = output_channel t @ outs"

lemma works_trans: "works D Q t outs t' \<Longrightarrow> works D Q t' outs' t'' \<Longrightarrow> works D Q t (outs @ outs') t''"
  by (auto simp: works_def intro: reaches_trans)

lemma works_refl [simp]: "works D Q t [] t"
  by (simp add: works_def)

lemma works_command:
  assumes "command_configures Q cmd"
  shows "works D Q t [] (run_command cmd t)"
proof (cases cmd)
  case (UpdateConfigCommand cfg)
  then show ?thesis using reaches_silent [of D "UpdateConfig cfg" "engine t"] assms by (simp add: works_def)
next
  case (SendMacro msg)
  then show ?thesis using reaches_silent [of D "SendText msg" "engine t"] by (simp add: works_def)
next
  case AbortMacro
  then show ?thesis using reaches_silent [of D AbortText "engine t"] by (simp add: works_def)
qed (simp add: works_def)

lemma works_commands: "list_all (command_configures Q) cmds \<Longrightarrow> works D Q t [] (fold run_command cmds t)"
proof (induction cmds arbitrary: t)
  case (Cons cmd cmds)
  then show ?case using works_trans [OF works_command [of Q cmd D t] Cons.IH] by simp
qed simp

lemma works_tick:
  assumes "length (output_channel t) < OUTPUT_CAPACITY"
  shows "\<exists>outs. works D Q t outs (tick_once D t) \<and> length outs \<le> 1"
proof -
  obtain r e where e: "tick D (engine t) = (r, e)" by force
  then have "reaches D Q (engine t) (case r of None \<Rightarrow> [] | Some x \<Rightarrow> [x]) e" using reaches_op [of D Tick] by simp
  with e assms show ?thesis
    by (cases r) (auto simp: works_def tick_once_def try_send_def intro: exI [of _ "[]"])
qed

lemma works_ticks:
  "length (output_channel t) + n \<le> OUTPUT_CAPACITY \<Longrightarrow>
    \<exists>outs. works D Q t outs ((tick_once D ^^ n) t) \<and> length outs \<le> n"
proof (induction n)
  case 0
  show ?case by (rule exI [of _ "[]"]) simp
next
  case (Suc n)
  then obtain outs where n: "works D Q t outs ((tick_once D ^^ n) t)" "length outs \<le> n" by auto
  then have "length (output_channel ((tick_once D ^^ n) t)) < OUTPUT_CAPACITY"
    using Suc.prems by (simp add: works_def)
  from works_tick [OF this, of D Q] obtain out where
    out: "works D Q ((tick_once D ^^ n) t) out (tick_once D ((tick_once D ^^ n) t))" "length out \<le> 1" by blast
  from works_trans [OF n(1) out(1)] n(2) out(2) show ?case by (intro exI [of _ "outs @ out"]) simp
qed

lemma works_turn:
  assumes "length (output_channel t) + 4 \<le> OUTPUT_CAPACITY" "list_all (command_configures Q) (cmd_channel t)"
  shows "\<exists>outs. works D Q t outs (keyer_turn D dit dash now t)"
proof (cases "thread_running t")
  case True
  let ?p = "t\<lparr>engine := set_paddle dit dash (engine t)\<rparr>"
  let ?c = "drain_commands ?p"
  have "works D Q t [] ?p" using reaches_silent [of D "SetPaddle dit dash" "engine t"] by (simp add: works_def)
  moreover have "works D Q ?p [] ?c"
    using works_commands [OF assms(2), of D "?p\<lparr>cmd_channel := []\<rparr>"] by (simp add: drain_commands_def works_def)
  ultimately have c: "works D Q t [] ?c" using works_trans [of D Q t "[]" ?p "[]" ?c] by simp
  define n where "n = min (raw_elapsed now ?c) 4"
  let ?l = "?c\<lparr>last_tick := (if raw_elapsed now ?c > 4 then now else last_tick ?c + n * 1000000)\<rparr>"
  have "length (output_channel ?l) + n \<le> OUTPUT_CAPACITY" using c assms by (simp add: works_def n_def)
  from works_ticks [OF this, of D Q] obtain outs where "works D Q ?l outs ((tick_once D ^^ n) ?l)" by blast
  then have "works D Q ?c outs ((tick_once D ^^ n) ?l)" by (simp add: works_def)
  then have ticked: "works D Q t outs ((tick_once D ^^ n) ?l)" using works_trans [OF c, of outs] by simp
  have "keyer_turn D dit dash now t = (if n > 0 then (tick_once D ^^ n) ?l else ?c)"
    using True by (simp add: keyer_turn_def advance_def Let_def n_def)
  then show ?thesis using c ticked by (cases "n > 0") auto
qed (auto simp: keyer_turn_def works_def intro: exI [of _ "[]"])

text \<open>The configurations in the channel are those of the events.\<close>

lemma command_channel_kept [simp]:
  "cmd_channel (run_command cmd t) = cmd_channel t" "cmd_channel (fold run_command cmds t) = cmd_channel t"
  "cmd_channel (tick_once D t) = cmd_channel t" "cmd_channel ((tick_once D ^^ n) t) = cmd_channel t"
proof -
  show run: "cmd_channel (run_command cmd t) = cmd_channel t" for cmd and t :: "'a KeyerThread" by (cases cmd) simp_all
  show "cmd_channel (fold run_command cmds t) = cmd_channel t" by (induction cmds arbitrary: t) (simp_all add: run)
  show tick: "cmd_channel (tick_once D t) = cmd_channel t" for t
    by (simp add: tick_once_def split: prod.split option.split)
  show "cmd_channel ((tick_once D ^^ n) t) = cmd_channel t" by (induction n) (simp_all add: tick)
qed

lemma channel_step:
  assumes "list_all (command_configures Q) (cmd_channel t)" "event_configures Q ev"
  shows "list_all (command_configures Q) (cmd_channel (snd (thread_step D ev t)))"
proof (cases ev)
  case (Turn dit dash now)
  then show ?thesis using assms(1) by (simp add: keyer_turn_def advance_def drain_commands_def Let_def)
qed (use assms in \<open>auto simp: handle_update_config_def handle_send_macro_def handle_abort_macro_def handle_stop_def
      try_command_def try_send_def split: list.split\<close>)

lemma outputs_delivered:
  "\<lbrakk>ops_allowed (thread_step D) keeps_up evs t; list_all (command_configures Q) (cmd_channel t);
    list_all (event_configures Q) evs; run_ops (thread_step D) evs t = (received, t')\<rbrakk> \<Longrightarrow>
    \<exists>outs. reaches D Q (engine t) outs (engine t') \<and> output_channel t @ outs = received @ output_channel t'"
proof (induction evs arbitrary: t received)
  case Nil
  then show ?case by (intro exI [of _ "[]"]) simp
next
  case (Cons ev evs)
  obtain r t1 where t1: "thread_step D ev t = (r, t1)" by force
  obtain rs t2 where run: "run_ops (thread_step D) evs t1 = (rs, t2)" by force
  then have rs: "run_ops (thread_step D) evs t1 = (rs, t')" "received = (case r of None \<Rightarrow> rs | Some x \<Rightarrow> x # rs)"
    using Cons.prems(4) t1 by simp_all
  have "\<exists>outs. reaches D Q (engine t) outs (engine t1) \<and>
    output_channel t @ outs = (case r of None \<Rightarrow> [] | Some x \<Rightarrow> [x]) @ output_channel t1"
  proof (cases ev)
    case (Turn dit dash now)
    then have "length (output_channel t) + 4 \<le> OUTPUT_CAPACITY" using Cons.prems(1) by simp
    from works_turn [OF this Cons.prems(2), of D dit dash now] obtain outs where "works D Q t outs (keyer_turn D dit dash now t)" by blast
    moreover have "r = None" "t1 = keyer_turn D dit dash now t" using Turn t1 by simp_all
    ultimately show ?thesis by (intro exI [of _ outs]) (simp add: works_def)
  next
    case TakeOutput
    then show ?thesis using t1 by (intro exI [of _ "[]"]) (auto split: list.splits)
  qed (use t1 in \<open>auto simp: handle_update_config_def handle_send_macro_def handle_abort_macro_def handle_stop_def
      try_command_def intro!: exI [of _ "[]"] split: option.splits if_splits\<close>)
  then obtain outs where outs: "reaches D Q (engine t) outs (engine t1)"
    "output_channel t @ outs = (case r of None \<Rightarrow> [] | Some x \<Rightarrow> [x]) @ output_channel t1" by blast
  obtain outs' where outs': "reaches D Q (engine t1) outs' (engine t')" "output_channel t1 @ outs' = rs @ output_channel t'"
    using Cons.IH [of t1 rs] Cons.prems(1,3) channel_step [OF Cons.prems(2), of ev D] t1 rs(1) by auto
  have "output_channel t @ outs @ outs' = (case r of None \<Rightarrow> [] | Some x \<Rightarrow> [x]) @ rs @ output_channel t'"
    using outs(2) outs'(2) by (metis append_assoc)
  then show ?case
    using reaches_trans [OF outs(1) outs'(1)] rs(2) by (intro exI [of _ "outs @ outs'"]) (simp split: option.splits)
qed

text \<open>A configuration of the mode that is set may come at any time.\<close>

lemma same_mode_allowed:
  "\<lbrakk>line_ok True e; mode (config e) = m; list_all (configures (\<lambda>c. mode c = m)) ops\<rbrakk> \<Longrightarrow>
    ops_allowed (engine_op D) (op_allowed True) ops e"
proof (induction ops arbitrary: e)
  case (Cons op ops)
  have allowed: "op_allowed True op e" using Cons.prems by (cases op) (auto simp: line_ok_def)
  have "mode (config (snd (engine_op D op e))) = m"
  proof (cases op)
    case Tick
    then show ?thesis using tick_follows [OF Cons.prems(1), of D] Cons.prems(2) by (simp add: follows_def)
  next
    case (UpdateConfig cfg)
    then show ?thesis using Cons.prems(3) by (simp add: update_config_def)
  next
    case DrainTransitions
    then show ?thesis using Cons.prems(2)
      by (cases "drain_transitions D e") (auto dest!: drain_fields)
  qed (use Cons.prems(2) in \<open>simp_all add: send_text_def abort_text_def\<close>)
  moreover have "line_ok True (snd (engine_op D op e))" by (rule engine_line.step_ok [OF Cons.prems(1) allowed])
  ultimately show ?case using Cons.IH Cons.prems(3) allowed by simp
qed simp

text \<open>C30: While the consumer keeps up (four free places when a turn starts), every output of the engine
  reaches it, once and in order, whatever turns, configurations, texts, aborts and stops come: what
  was received and what is still in the channel are the outputs of a run of the engine. They obey the
  loose protocol of the key line (key-down only under PTT, PTT never dropped under a pressed key);
  when no configuration changes the mode they obey the strict one (also key-down only when up).
\<close>

theorem keyer_outputs_in_order:
  assumes "start_keyer D cfg now = Some t" "ops_allowed (thread_step D) keeps_up evs t"
    and "run_ops (thread_step D) evs t = (received, t')"
  shows "(\<exists>ops. run_ops (engine_op D) ops (engine t) = (received @ output_channel t', engine t')) \<and>
    line_run False (False, False) (received @ output_channel t') = Some (line_view (engine t')) \<and>
    (list_all (event_configures (\<lambda>c. mode c = mode cfg)) evs \<longrightarrow>
      line_run True (False, False) (received @ output_channel t') = Some (line_view (engine t')))"
proof -
  from assms(1) have t: "new_with_tick D cfg 1000 = Some (engine t)" "output_channel t = []" "cmd_channel t = []"
    by (auto simp: start_keyer_def new_engine_def)
  have cfg: "config (engine t) = cfg" using t(1) by (auto simp: new_with_tick_def split: if_splits dest!: sym [of _ "engine t"])
  have run: "\<exists>ops. list_all (configures Q) ops \<and>
      run_ops (engine_op D) ops (engine t) = (received @ output_channel t', engine t')"
    if "list_all (event_configures Q) evs" for Q
    using outputs_delivered [OF assms(2) _ that assms(3)] t(2,3) by (auto simp: reaches_def)
  have "list_all (event_configures (\<lambda>_. True)) evs" by (simp add: list_all_iff event_any)
  from run [OF this] obtain ops where
    ops: "run_ops (engine_op D) ops (engine t) = (received @ output_channel t', engine t')" by blast
  have "line_run True (False, False) (received @ output_channel t') = Some (line_view (engine t'))"
    if "list_all (event_configures (\<lambda>c. mode c = mode cfg)) evs"
  proof -
    from run [OF that] obtain ops' where ops': "list_all (configures (\<lambda>c. mode c = mode cfg)) ops'"
      "run_ops (engine_op D) ops' (engine t) = (received @ output_channel t', engine t')" by blast
    have "ops_allowed (engine_op D) (op_allowed True) ops' (engine t)"
      by (rule same_mode_allowed [OF new_with_tick_ok(1) [OF t(1)] _ ops'(1)]) (simp add: cfg)
    from engine_line.run_follows [OF new_with_tick_ok(1) [OF t(1)] this]
    show ?thesis using ops'(2) by (simp add: new_with_tick_ok [OF t(1)])
  qed
  moreover from engine_line.run_follows [OF new_with_tick_ok(1) [OF t(1)] all_allowed, of D ops]
  have "line_run False (False, False) (received @ output_channel t') = Some (line_view (engine t'))"
    using ops by (simp add: new_with_tick_ok [OF t(1)])
  ultimately show ?thesis using ops by blast
qed

section \<open>The clock\<close>


lemma silent_clock [simp]:
  "elapsed_us (abort_text e) = elapsed_us e" "tick_us (abort_text e) = tick_us e"
  "elapsed_us (send_text msg e) = elapsed_us e" "tick_us (send_text msg e) = tick_us e"
  "elapsed_us (update_config cfg e) = elapsed_us e" "tick_us (update_config cfg e) = tick_us e"
  by (simp_all add: abort_text_def send_text_def update_config_def)










text \<open>Instances: a dit paddle held for two turns.\<close>

definition demo_thread :: "KeyTransition list KeyerThread" where
  "demo_thread = the (start_keyer (list_deque 64) default_config 0)"

lemma demo_started: "start_keyer (list_deque 64) default_config 0 = Some demo_thread"
  by (simp add: demo_thread_def start_keyer_def new_engine_def new_with_tick_def)

definition demo_events :: "thread_event list" where
  "demo_events = [Turn True False 1200000, TakeOutput, MacroCall [69], Turn True False 3700000]"

lemma demo_thread_run:
  "run_ops (thread_step (list_deque 64)) demo_events demo_thread =
    ([PttRequest True], snd (run_ops (thread_step (list_deque 64)) demo_events demo_thread))"
  "ops_allowed (thread_step (list_deque 64)) keeps_up demo_events demo_thread"
  "ops_allowed (thread_step (list_deque 64)) (woken 4) demo_events demo_thread"
  "output_channel (snd (run_ops (thread_step (list_deque 64)) demo_events demo_thread)) = [KeyDown]"
  by code_simp+

theorem keyer_outputs_in_order_witness:
  "line_run True (False, False) [PttRequest True, KeyDown] =
    Some (line_view (engine (snd (run_ops (thread_step (list_deque 64)) demo_events demo_thread))))"
proof -
  have "list_all (event_configures (\<lambda>c. mode c = mode default_config)) demo_events" by (simp add: demo_events_def)
  then show ?thesis
    using keyer_outputs_in_order [OF demo_started demo_thread_run(2,1)] demo_thread_run(4) by simp
qed


end
