(* ===== verification/Jni_Calls.thy ===== *)
theory Jni_Calls
  imports Radio_Prelude
begin

text \<open>
  What the Android paddle sources ask of the Java virtual machine, of the AMidi library and of the
  thread library. Their answers are the argument \<open>J\<close>, a function of the call and of a state of
  theirs (\<open>'w\<close>) that only they change; the code's side is the statics of its file and the record
  of its calls with what each gave (\<open>trace\<close>), from which \<open>held\<close> computes the handles that are open.
  An action that can fail is a function on this state with an error message or a value; \<open>bind_io\<close>
  is the \<^verbatim>\<open>?\<close> operator. Local references and the attachment of the thread to the machine are given
  back by the destructors of the \<^verbatim>\<open>jni\<close> crate and are not calls here.
\<close>

section \<open>Calls\<close>

text \<open>Objects and native pointers are numbers, 0 is null.\<close>

datatype jarg = ObjArg nat | IntArg "32 word"

datatype jvalue = Object nat | IntValue "32 word" | OtherValue

datatype jcall =
    AttachThread
  | AttachDaemon
  | NewLocalRef nat
  | NewGlobalRef nat
  | NewByteArray nat
  | SetByteArrayRegion nat
  | NewString string
  | NewObject string "jarg list"
  | ObjectClass nat
  | MethodId nat string
  | ArrayLength nat
  | ArrayElement nat nat
  | StringOf nat
  | CallStatic string string "jarg list"
  | CallStaticOn nat string "jarg list"
  | CallMethod nat string "jarg list"
  | ExceptionDescribe
  | ExceptionClear
  | DeviceFromJava nat
  | DeviceRelease nat
  | PortOpen nat nat
  | PortClose nat
  | SpawnThread string

record 'w jni_env =
  ref_call :: "jcall \<Rightarrow> 'w \<Rightarrow> (string + nat) \<times> 'w"
  value_call :: "jcall \<Rightarrow> 'w \<Rightarrow> (string + jvalue) \<times> 'w"
  text_call :: "jcall \<Rightarrow> 'w \<Rightarrow> (string + string) \<times> 'w"
  native_call :: "jcall \<Rightarrow> 'w \<Rightarrow> (int \<times> nat) \<times> 'w"
  wrong_type :: string

record 'w jvm =
  world :: 'w
  trace :: "(jcall \<times> nat option) list"
  java_vm :: bool
  app_context :: "nat option"
  helper_class :: "nat option"

type_synonym ('w, 'a) io = "'w jvm \<Rightarrow> (string + 'a) \<times> 'w jvm"

section \<open>Actions\<close>

definition ok :: "'a \<Rightarrow> ('w, 'a) io" where
  "ok x s = (Inr x, s)"

definition err :: "string \<Rightarrow> ('w, 'a) io" where
  "err e s = (Inl e, s)"

definition bind_io :: "('w, 'a) io \<Rightarrow> ('a \<Rightarrow> ('w, 'b) io) \<Rightarrow> ('w, 'b) io" where
  "bind_io m f s = (case m s of (Inl e, s') \<Rightarrow> (Inl e, s') | (Inr x, s') \<Rightarrow> f x s')"

text \<open>\<open>h\<close> on the way of an error; \<^verbatim>\<open>let _ =\<close>.\<close>

definition on_error :: "('w, 'a) io \<Rightarrow> ('w, unit) io \<Rightarrow> ('w, 'a) io" where
  "on_error m h s = (case m s of (Inl e, s') \<Rightarrow> (Inl e, snd (h s')) | (Inr x, s') \<Rightarrow> (Inr x, s'))"

definition ignore :: "('w, 'a) io \<Rightarrow> ('w, unit) io" where
  "ignore m s = (Inr (), snd (m s))"

definition labelled :: "string \<Rightarrow> string \<Rightarrow> string" where
  "labelled label e = label @ '': '' @ e"

definition logged :: "jcall \<Rightarrow> nat option \<Rightarrow> 'w \<Rightarrow> 'w jvm \<Rightarrow> 'w jvm" where
  "logged c out w s = s\<lparr>world := w, trace := trace s @ [(c, out)]\<rparr>"

definition outcome :: "string + 'a \<Rightarrow> ('a \<Rightarrow> nat) \<Rightarrow> nat option" where
  "outcome r f = (case r of Inl _ \<Rightarrow> None | Inr x \<Rightarrow> Some (f x))"

definition ref_io :: "'w jni_env \<Rightarrow> jcall \<Rightarrow> string \<Rightarrow> ('w, nat) io" where
  "ref_io J c label s =
     (let (r, w) = ref_call J c (world s)
      in (map_sum (labelled label) id r, logged c (outcome r id) w s))"

text \<open>A call whose value is not an object gives the code no handle.\<close>

definition object_of :: "jvalue \<Rightarrow> nat" where
  "object_of v = (case v of Object obj \<Rightarrow> obj | _ \<Rightarrow> 0)"

definition value_io :: "'w jni_env \<Rightarrow> jcall \<Rightarrow> string \<Rightarrow> ('w, jvalue) io" where
  "value_io J c label s =
     (let (r, w) = value_call J c (world s)
      in (map_sum (labelled label) id r, logged c (outcome r object_of) w s))"

definition text_io :: "'w jni_env \<Rightarrow> jcall \<Rightarrow> ('w, string) io" where
  "text_io J c s =
     (let (r, w) = text_call J c (world s) in (r, logged c (outcome r (\<lambda>_. 0)) w s))"

text \<open>A native function that gives a status and, through a pointer, a handle; only the status 0 with
  a handle that is not null opens anything.\<close>

definition native_io :: "'w jni_env \<Rightarrow> jcall \<Rightarrow> ('w, int \<times> nat) io" where
  "native_io J c s =
     (let ((status, ptr), w) = native_call J c (world s)
      in (Inr (status, ptr), logged c (if status = 0 \<and> ptr \<noteq> 0 then Some ptr else None) w s))"

text \<open>\<^verbatim>\<open>.l()\<close> of the crate.\<close>

definition as_object :: "'w jni_env \<Rightarrow> string \<Rightarrow> jvalue \<Rightarrow> ('w, nat) io" where
  "as_object J label v = (case v of Object obj \<Rightarrow> ok obj | _ \<Rightarrow> err (labelled label (wrong_type J)))"

definition get_static :: "('w jvm \<Rightarrow> 'a option) \<Rightarrow> string \<Rightarrow> ('w, 'a) io" where
  "get_static f msg s = (case f s of None \<Rightarrow> (Inl msg, s) | Some x \<Rightarrow> (Inr x, s))"

text \<open>\<^verbatim>\<open>OnceLock\<close>: the first value stays.\<close>

definition set_jvm :: "nat \<Rightarrow> 'w jvm \<Rightarrow> 'w jvm" where
  "set_jvm ctx s = s\<lparr>java_vm := True,
     app_context := (case app_context s of None \<Rightarrow> Some ctx | Some c \<Rightarrow> Some c)\<rparr>"

definition set_helper_class :: "nat \<Rightarrow> 'w jvm \<Rightarrow> 'w jvm" where
  "set_helper_class c s = s\<lparr>helper_class := (case helper_class s of None \<Rightarrow> Some c | Some d \<Rightarrow> Some d)\<rparr>"

text \<open>The \<open>em dash\<close> of two messages, in UTF-8, and the check that comes first in every entry point.\<close>

definition em_dash :: string where
  "em_dash = [CHR 0xE2, CHR 0x80, CHR 0x94]"

definition require_jvm :: "('w, nat) io" where
  "require_jvm =
     bind_io (get_static (\<lambda>s. if java_vm s then Some () else None)
               (''JAVA_VM not initialised '' @ em_dash @ '' call set_jvm() first'')) (\<lambda>_.
     get_static app_context (''CONTEXT not initialised '' @ em_dash @ '' call set_jvm() first''))"

section \<open>Loading a helper class\<close>

text \<open>The two files load their Java class in the same way from the same bytes (\<open>dex\<close>, of which the
  calls see the length); they differ in the class, in the text of three messages and in what they do
  with a pending exception (\<open>clear\<close>).\<close>

record dex_texts =
  dex_class :: string
  cached_label :: string
  global_label :: string
  after_label :: string

definition call_object :: "'w jni_env \<Rightarrow> ('w, unit) io \<Rightarrow> jcall \<Rightarrow> string \<Rightarrow> string \<Rightarrow> ('w, nat) io" where
  "call_object J clear c label kind =
     bind_io (on_error (value_io J c label) clear) (as_object J (kind @ '' not object''))"

definition load_dex_class :: "'w jni_env \<Rightarrow> ('w, unit) io \<Rightarrow> dex_texts \<Rightarrow> nat \<Rightarrow> ('w, nat) io" where
  "load_dex_class J clear texts dex_len s =
     (case helper_class s of
        Some cached \<Rightarrow> ref_io J (NewLocalRef cached) (cached_label texts) s
      | None \<Rightarrow>
          bind_io (ref_io J (NewByteArray dex_len) ''new_byte_array'') (\<lambda>arr.
          bind_io (ref_io J (SetByteArrayRegion arr) ''set_byte_array_region'') (\<lambda>_.
          bind_io (call_object J clear (CallStatic ''java/nio/ByteBuffer'' ''wrap'' [ObjArg arr])
                     ''ByteBuffer.wrap'' ''ByteBuffer'') (\<lambda>buffer.
          bind_io (call_object J clear (CallStatic ''java/lang/Thread'' ''currentThread'' [])
                     ''currentThread'' ''thread'') (\<lambda>thread.
          bind_io (call_object J clear (CallMethod thread ''getContextClassLoader'' [])
                     ''getContextClassLoader'' ''classloader'') (\<lambda>parent.
          bind_io (on_error (ref_io J (NewObject ''dalvik/system/InMemoryDexClassLoader''
                     [ObjArg buffer, ObjArg parent]) ''InMemoryDexClassLoader'') clear) (\<lambda>loader.
          bind_io (ref_io J (NewString (dex_class texts)) ''new_string class name'') (\<lambda>name.
          bind_io (call_object J clear (CallMethod loader ''loadClass'' [ObjArg name])
                     ''loadClass'' ''loadClass'') (\<lambda>cls.
          bind_io (ref_io J (NewGlobalRef cls) (global_label texts)) (\<lambda>global s.
          (let s = set_helper_class global s
           in ref_io J (NewLocalRef (the (helper_class s))) (after_label texts) s)))))))))) s)"

section \<open>Opening a helper object\<close>

text \<open>The first half of both constructors: the statics, the attachment, the class, the name as a Java
  string, and \<open>openDevice\<close>, which gives null when the device cannot be opened.\<close>

definition open_java_helper ::
  "'w jni_env \<Rightarrow> ('w, unit) io \<Rightarrow> ('w, nat) io \<Rightarrow> string \<Rightarrow> string \<Rightarrow> string \<Rightarrow> string \<Rightarrow> ('w, nat) io" where
  "open_java_helper J clear load_class name_label open_label null_msg device_name =
     bind_io require_jvm (\<lambda>ctx.
     bind_io (ref_io J AttachThread ''attach_current_thread'') (\<lambda>_.
     bind_io load_class (\<lambda>cls.
     bind_io (ref_io J (NewString device_name) name_label) (\<lambda>j_name.
     bind_io (call_object J clear (CallStaticOn cls ''openDevice'' [ObjArg ctx, ObjArg j_name])
                open_label ''openDevice'') (\<lambda>helper.
     if helper = 0 then err null_msg else ok helper)))))"

definition quoted :: "string \<Rightarrow> string" where
  "quoted s = CHR 0x27 # s @ [CHR 0x27]"

section \<open>The handles held\<close>

datatype handle = JavaHelper nat | MidiDevice nat | MidiPort nat

text \<open>A helper object is opened by the static \<open>openDevice\<close> of its class and closed by its \<open>close\<close>, a
  native device and its port by the functions of AMidi.\<close>

fun opened :: "jcall \<times> nat option \<Rightarrow> handle list" where
  "opened (CallStaticOn cls m args, Some obj) = (if m = ''openDevice'' \<and> obj \<noteq> 0 then [JavaHelper obj] else [])"
| "opened (DeviceFromJava d, Some ptr) = [MidiDevice ptr]"
| "opened (PortOpen d n, Some ptr) = [MidiPort ptr]"
| "opened _ = []"

fun closed_by :: "jcall \<times> nat option \<Rightarrow> handle list" where
  "closed_by (CallMethod obj m args, out) = (if m = ''close'' then [JavaHelper obj] else [])"
| "closed_by (DeviceRelease d, out) = [MidiDevice d]"
| "closed_by (PortClose p, out) = [MidiPort p]"
| "closed_by _ = []"

text \<open>The open handles after a list of calls; \<open>None\<close> when a handle that is not open is closed.\<close>

fun held_from :: "(jcall \<times> nat option) list \<Rightarrow> handle list \<Rightarrow> handle list option" where
  "held_from [] hs = Some hs"
| "held_from (e # es) hs =
     (if set (closed_by e) \<subseteq> set hs then held_from es (opened e @ fold remove1 (closed_by e) hs) else None)"

definition held :: "(jcall \<times> nat option) list \<Rightarrow> handle list option" where
  "held es = held_from es []"

lemma held_from_append:
  "held_from (es @ es') hs = (case held_from es hs of None \<Rightarrow> None | Some hs' \<Rightarrow> held_from es' hs')"
  by (induction es arbitrary: hs) auto

lemma held_snoc: "held es = Some hs \<Longrightarrow> held (es @ [e]) =
    (if set (closed_by e) \<subseteq> set hs then Some (opened e @ fold remove1 (closed_by e) hs) else None)"
  by (simp add: held_def held_from_append)

section \<open>Triples\<close>

text \<open>\<open>triple P m Q E\<close>: from a state with \<open>P\<close> the action ends with a value in \<open>Q\<close> or with an error in
  \<open>E\<close>.\<close>

definition triple :: "('w jvm \<Rightarrow> bool) \<Rightarrow> ('w, 'a) io \<Rightarrow> ('a \<Rightarrow> 'w jvm \<Rightarrow> bool) \<Rightarrow> ('w jvm \<Rightarrow> bool) \<Rightarrow> bool" where
  "triple P m Q E \<longleftrightarrow> (\<forall>s. P s \<longrightarrow> (case m s of (Inl e, s') \<Rightarrow> E s' | (Inr x, s') \<Rightarrow> Q x s'))"

named_theorems triples

lemma tripleI:
  assumes "\<And>s e s'. P s \<Longrightarrow> m s = (Inl e, s') \<Longrightarrow> E s'" "\<And>s x s'. P s \<Longrightarrow> m s = (Inr x, s') \<Longrightarrow> Q x s'"
  shows "triple P m Q E"
  using assms by (auto simp: triple_def split: prod.split sum.split)

lemma triple_Inl: "triple P m Q E \<Longrightarrow> P s \<Longrightarrow> m s = (Inl e, s') \<Longrightarrow> E s'"
  by (force simp: triple_def)

lemma triple_Inr: "triple P m Q E \<Longrightarrow> P s \<Longrightarrow> m s = (Inr x, s') \<Longrightarrow> Q x s'"
  by (force simp: triple_def)

lemma triple_bind [triples]:
  assumes m: "triple P m R E" and f: "\<And>x. triple (R x) (f x) Q E"
  shows "triple P (bind_io m f) Q E"
  by (rule tripleI) (auto simp: bind_io_def split: prod.splits sum.splits
      intro: triple_Inl [OF m] triple_Inl [OF f triple_Inr [OF m]] triple_Inr [OF f triple_Inr [OF m]])

lemma triple_ok [triples]: "triple (Q x) (ok x) Q E"
  by (simp add: triple_def ok_def)

lemma triple_err [triples]: "triple E (err e) Q E"
  by (simp add: triple_def err_def)

lemma triple_if [triples]: "(b \<Longrightarrow> triple P m Q E) \<Longrightarrow> (\<not> b \<Longrightarrow> triple P n Q E) \<Longrightarrow> triple P (if b then m else n) Q E"
  by simp

lemma triple_on_error:
  assumes m: "triple P m Q R" and h: "triple R h (\<lambda>_. E) E"
  shows "triple P (on_error m h) Q E"
proof (rule tripleI)
  fix s e s' assume s: "P s" "on_error m h s = (Inl e, s')"
  then obtain e1 s1 where m1: "m s = (Inl e1, s1)" "s' = snd (h s1)"
    by (auto simp: on_error_def split: prod.splits sum.splits)
  obtain r where "h s1 = (r, s')" using m1(2) by (cases "h s1") simp
  then show "E s'"
    using triple_Inl [OF h triple_Inl [OF m s(1) m1(1)]] triple_Inr [OF h triple_Inl [OF m s(1) m1(1)]]
    by (cases r) auto
next
  fix s x s' assume "P s" "on_error m h s = (Inr x, s')"
  then show "Q x s'" by (auto simp: on_error_def split: prod.splits sum.splits intro: triple_Inr [OF m])
qed

lemma triple_weaken: "triple P m Q E \<Longrightarrow> (\<And>s. P' s \<Longrightarrow> P s) \<Longrightarrow> (\<And>x s. Q x s \<Longrightarrow> Q' x s) \<Longrightarrow>
    (\<And>s. E s \<Longrightarrow> E' s) \<Longrightarrow> triple P' m Q' E'"
  by (rule tripleI) (blast dest: triple_Inl triple_Inr)+

lemma triple_ignore:
  assumes "triple P m (\<lambda>_. Q) Q"
  shows "triple P (ignore m) (\<lambda>_. Q) E"
proof (rule tripleI)
  fix s x s' assume s: "P s" "ignore m s = (Inr x, s')"
  then show "Q s'"
    using triple_Inl [OF assms s(1)] triple_Inr [OF assms s(1)]
    by (cases "m s"; cases "fst (m s)") (auto simp: ignore_def)
qed (simp add: ignore_def)

text \<open>The machine is there and exactly \<open>hs\<close> is open.\<close>

definition holding :: "handle list \<Rightarrow> 'w jvm \<Rightarrow> bool" where
  "holding hs s \<longleftrightarrow> held (trace s) = Some hs \<and> java_vm s"

lemma holding_held: "holding hs s \<Longrightarrow> held (trace s) = Some hs"
  by (simp add: holding_def)

text \<open>Actions that open and close nothing.\<close>

definition quiet_call :: "jcall \<Rightarrow> bool" where
  "quiet_call c \<longleftrightarrow> (\<forall>out. opened (c, out) = [] \<and> closed_by (c, out) = [])"

definition quiet :: "('w, 'a) io \<Rightarrow> bool" where
  "quiet m \<longleftrightarrow> (\<forall>s hs. held (trace s) = Some hs \<longrightarrow>
     held (trace (snd (m s))) = Some hs \<and> java_vm (snd (m s)) = java_vm s)"

named_theorems quiets

lemma quiet_triple: "quiet m \<Longrightarrow> triple (holding hs) m (\<lambda>_. holding hs) (holding hs)"
  by (rule tripleI) (force simp: quiet_def holding_def)+

lemma quiet_bind_triple:
  assumes "quiet m" "\<And>s. holding hs s \<Longrightarrow> E s" "\<And>x. triple (holding hs) (f x) Q E"
  shows "triple (holding hs) (bind_io m f) Q E"
  by (rule triple_bind [OF triple_weaken [OF quiet_triple [OF assms(1)]] assms(3)]) (auto intro: assms(2))

lemma quiet_calls [quiets]:
  "quiet_call AttachThread" "quiet_call AttachDaemon" "quiet_call (NewLocalRef r)" "quiet_call (NewGlobalRef r)"
  "quiet_call (NewByteArray n)" "quiet_call (SetByteArrayRegion r)" "quiet_call (NewString str)"
  "quiet_call (NewObject str args)" "quiet_call (ObjectClass r)" "quiet_call (MethodId r str)"
  "quiet_call (ArrayLength r)" "quiet_call (ArrayElement r n)" "quiet_call (StringOf r)"
  "quiet_call (CallStatic str str' args)" "quiet_call ExceptionDescribe" "quiet_call ExceptionClear"
  "quiet_call (SpawnThread str)"
  by (simp_all add: quiet_call_def)

lemma quiet_static [quiets]: "m \<noteq> ''openDevice'' \<Longrightarrow> quiet_call (CallStaticOn cls m args)"
  unfolding quiet_call_def
proof
  fix out assume "m \<noteq> ''openDevice''"
  then show "opened (CallStaticOn cls m args, out) = [] \<and> closed_by (CallStaticOn cls m args, out) = []"
    by (cases out) auto
qed

lemma quiet_method [quiets]: "m \<noteq> ''close'' \<Longrightarrow> quiet_call (CallMethod obj m args)"
  by (simp add: quiet_call_def)

lemma quiet_logged: "quiet_call c \<Longrightarrow> held (trace s) = Some hs \<Longrightarrow>
    held (trace (logged c out w s)) = Some hs \<and> java_vm (logged c out w s) = java_vm s"
  by (simp add: logged_def held_snoc quiet_call_def)

lemma quiet_ios [quiets]:
  "quiet_call c \<Longrightarrow> quiet (ref_io J c label)"
  "quiet_call c \<Longrightarrow> quiet (value_io J c label)"
  "quiet_call c \<Longrightarrow> quiet (text_io J c)"
  by (simp_all add: quiet_def ref_io_def value_io_def text_io_def quiet_logged case_prod_beta Let_def)

lemma quiet_pure [quiets]: "quiet (ok x)" "quiet (err e)" "quiet (as_object J label v)" "quiet (get_static f msg)"
  by (simp_all add: quiet_def ok_def err_def as_object_def get_static_def split: jvalue.split option.split)

lemma quietI:
  assumes "\<And>s hs r s'. held (trace s) = Some hs \<Longrightarrow> m s = (r, s') \<Longrightarrow> held (trace s') = Some hs \<and> java_vm s' = java_vm s"
  shows "quiet m"
  unfolding quiet_def using assms by (metis prod.collapse)

lemma quietD:
  "quiet m \<Longrightarrow> m s = (r, s') \<Longrightarrow> held (trace s) = Some hs \<Longrightarrow> held (trace s') = Some hs \<and> java_vm s' = java_vm s"
  unfolding quiet_def by (metis snd_conv)

lemma quiet_bind [quiets]:
  assumes "quiet m" "\<And>x. quiet (f x)"
  shows "quiet (bind_io m f)"
proof (rule quietI)
  fix s hs r s' assume s: "held (trace s) = Some hs" "bind_io m f s = (r, s')"
  obtain r1 s1 where m: "m s = (r1, s1)" by (cases "m s")
  show "held (trace s') = Some hs \<and> java_vm s' = java_vm s"
    using quietD [OF assms(1) m s(1)] s(2) quietD [OF assms(2)] m
    by (cases r1) (auto simp: bind_io_def)
qed

lemma quiet_on_error [quiets]:
  assumes "quiet m" "quiet h"
  shows "quiet (on_error m h)"
proof (rule quietI)
  fix s hs r s' assume s: "held (trace s) = Some hs" "on_error m h s = (r, s')"
  obtain r1 s1 where m: "m s = (r1, s1)" by (cases "m s")
  show "held (trace s') = Some hs \<and> java_vm s' = java_vm s"
    using quietD [OF assms(1) m s(1)] s(2) assms(2) m
    by (cases r1) (auto simp: on_error_def quiet_def)
qed

lemma quiet_ignore [quiets]: "quiet m \<Longrightarrow> quiet (ignore m)"
  by (simp add: quiet_def ignore_def)

lemma quiet_if [quiets]: "(b \<Longrightarrow> quiet m) \<Longrightarrow> (\<not> b \<Longrightarrow> quiet n) \<Longrightarrow> quiet (if b then m else n)"
  by simp

lemma quiet_call_object [quiets]: "quiet clear \<Longrightarrow> quiet_call c \<Longrightarrow> quiet (call_object J clear c label kind)"
  unfolding call_object_def by (intro quiets)

lemma quiet_load_dex_class [quiets]:
  assumes "quiet clear"
  shows "quiet (load_dex_class J clear texts n)"
proof -
  have set: "quiet (\<lambda>s. let s = set_helper_class g s
      in ref_io J (NewLocalRef (the (helper_class s))) (after_label texts) s)" for g
    by (simp add: quiet_def set_helper_class_def ref_io_def quiet_logged quiets case_prod_beta Let_def)
  have "quiet (\<lambda>s. case helper_class s of Some cached \<Rightarrow> m cached s | None \<Rightarrow> n s)"
    if "\<And>c. quiet (m c)" "quiet n" for m :: "nat \<Rightarrow> ('w, nat) io" and n :: "('w, nat) io"
    using that by (auto simp: quiet_def split: option.split)
  note split = this
  show ?thesis
    unfolding load_dex_class_def by (rule split) (intro quiets set assms; simp)+
qed

lemma require_jvm_triple:
  "triple (\<lambda>s. held (trace s) = Some hs) require_jvm (\<lambda>_. holding hs) (\<lambda>s. held (trace s) = Some hs)"
  by (auto simp: triple_def require_jvm_def bind_io_def get_static_def holding_def split: option.split)

lemma triple_open_device:
  assumes "quiet clear"
  shows "triple (holding hs) (call_object J clear (CallStaticOn cls ''openDevice'' args) label kind)
     (\<lambda>obj. holding (if obj = 0 then hs else JavaHelper obj # hs)) (holding hs)"
proof -
  let ?R = "\<lambda>v. holding (if object_of v = 0 then hs else JavaHelper (object_of v) # hs)"
  have "triple (holding hs) (value_io J (CallStaticOn cls ''openDevice'' args) label) ?R (holding hs)"
    by (rule tripleI) (auto simp: value_io_def logged_def holding_def held_snoc outcome_def Let_def
        split: prod.splits sum.splits)
  then have "triple (holding hs) (on_error (value_io J (CallStaticOn cls ''openDevice'' args) label) clear) ?R (holding hs)"
    by (rule triple_on_error) (rule quiet_triple [OF assms])
  moreover have "triple (?R v) (as_object J l v)
      (\<lambda>obj. holding (if obj = 0 then hs else JavaHelper obj # hs)) (holding hs)" for v l
    by (cases v) (simp_all add: as_object_def triple_def ok_def err_def object_of_def)
  ultimately show ?thesis unfolding call_object_def by (rule triple_bind)
qed

lemma triple_open_java_helper:
  assumes "quiet clear" "quiet load_class"
  shows "triple (\<lambda>s. held (trace s) = Some hs)
     (open_java_helper J clear load_class name_label open_label null_msg device_name)
     (\<lambda>h. holding (JavaHelper h # hs)) (\<lambda>s. held (trace s) = Some hs)"
proof -
  have last: "triple (holding (if h = 0 then hs else JavaHelper h # hs))
      (if h = 0 then err null_msg else ok h) (\<lambda>h. holding (JavaHelper h # hs)) (\<lambda>s. held (trace s) = Some hs)" for h
    by (auto simp: triple_def ok_def err_def holding_def)
  have opn: "triple (holding hs)
      (bind_io (call_object J clear (CallStaticOn cls ''openDevice'' args) label kind)
         (\<lambda>h. if h = 0 then err null_msg else ok h))
      (\<lambda>h. holding (JavaHelper h # hs)) (\<lambda>s. held (trace s) = Some hs)" for cls args label kind
  proof (rule triple_bind)
    show "triple (holding hs) (call_object J clear (CallStaticOn cls ''openDevice'' args) label kind)
      (\<lambda>obj. holding (if obj = 0 then hs else JavaHelper obj # hs)) (\<lambda>s. held (trace s) = Some hs)"
      using triple_open_device [OF assms(1)] by (rule triple_weaken) (auto simp: holding_def)
  qed (rule last)
  show ?thesis
    unfolding open_java_helper_def
    by (rule triple_bind [OF require_jvm_triple])
      (rule quiet_bind_triple, (intro quiets assms), erule holding_held | rule opn)+
qed

end
