(* ===== verification/Midi_Learn.thy ===== *)
theory Midi_Learn
  imports Keyer_Config Radio_Prelude
begin

text \<open>
  \<^verbatim>\<open>crates/radio-utils-keyer/src/input/midi.rs\<close>: MIDI messages as paddle events, and the session
  that learns which key a paddle is. Instants are natural numbers of nanoseconds; the time of a
  call is an argument. What a key teaches recognises the presses and releases of that key and no
  other (\<open>learn_session\<close>).
\<close>

section \<open>Messages\<close>

record RawMidiEvent =
  ev_kind :: MidiBindKind
  ev_channel :: u8
  ev_number :: u8
  is_down :: bool

definition midi_from_bytes :: "bytes \<Rightarrow> RawMidiEvent option" where
  "midi_from_bytes bs =
     (if bs = [] then None
      else let status = bs ! 0;
               kind_nibble = drop_bit 4 status;
               channel = (status AND 0x0F) + 1
           in if length bs = 1
              then if kind_nibble = 0x8
                   then Some \<lparr>ev_kind = NoteOn, ev_channel = channel, ev_number = 0, is_down = False\<rparr>
                   else if kind_nibble = 0x9
                   then Some \<lparr>ev_kind = NoteOn, ev_channel = channel, ev_number = 0, is_down = True\<rparr>
                   else None
              else if length bs < 3 then None
              else let number = bs ! 1; value = bs ! 2
                   in if kind_nibble = 0x8
                      then Some \<lparr>ev_kind = NoteOn, ev_channel = channel, ev_number = number, is_down = False\<rparr>
                      else if kind_nibble = 0x9
                      then Some \<lparr>ev_kind = NoteOn, ev_channel = channel, ev_number = number, is_down = value > 0\<rparr>
                      else if kind_nibble = 0xB
                      then Some \<lparr>ev_kind = ControlChange, ev_channel = channel, ev_number = number, is_down = value > 0\<rparr>
                      else None)"

definition matches :: "RawMidiEvent \<Rightarrow> MidiBinding \<Rightarrow> bool" where
  "matches ev b \<longleftrightarrow> ev_kind ev = mb_kind b \<and> ev_channel ev = mb_channel b \<and> ev_number ev = mb_number b"

section \<open>The learn session\<close>

datatype MidiLearnTarget = LearnDit | LearnDah

record MidiLearnState =
  learn_target :: "MidiLearnTarget option"
  candidates :: "RawMidiEvent list"
  learn_start :: "nat option"

definition new_learn :: MidiLearnState where
  "new_learn = \<lparr>learn_target = None, candidates = [], learn_start = None\<rparr>"

definition learn_begin :: "MidiLearnTarget \<Rightarrow> MidiLearnState \<Rightarrow> MidiLearnState" where
  "learn_begin target s = s\<lparr>learn_target := Some target, candidates := [], learn_start := None\<rparr>"

definition learn_cancel :: "MidiLearnState \<Rightarrow> MidiLearnState" where
  "learn_cancel s = s\<lparr>learn_target := None, candidates := [], learn_start := None\<rparr>"

definition learn_feed :: "nat \<Rightarrow> RawMidiEvent \<Rightarrow> MidiLearnState \<Rightarrow> MidiLearnState" where
  "learn_feed now ev s =
     (if learn_target s = None then s
      else let s = (if learn_start s = None then s\<lparr>learn_start := Some now\<rparr> else s);
               already = list_ex (\<lambda>c. ev_kind c = ev_kind ev \<and> ev_channel c = ev_channel ev \<and>
                   ev_number c = ev_number ev) (candidates s)
           in if already then s else s\<lparr>candidates := candidates s @ [ev]\<rparr>)"

definition try_resolve :: "nat \<Rightarrow> MidiLearnState \<Rightarrow> (MidiLearnTarget \<times> MidiBinding) option \<times> MidiLearnState" where
  "try_resolve now s =
     (case (learn_target s, learn_start s) of
        (Some target, Some start) \<Rightarrow>
          if candidates s = [] \<or> (now - start) div 1000000 < 500 then (None, s)
          else let ev = (case find (\<lambda>e. ev_kind e = NoteOn) (candidates s) of
                      Some e \<Rightarrow> e | None \<Rightarrow> candidates s ! 0)
               in (Some (target, \<lparr>mb_channel = ev_channel ev, mb_kind = ev_kind ev, mb_number = ev_number ev\<rparr>), learn_cancel s)
      | _ \<Rightarrow> (None, s))"

definition is_learning :: "MidiLearnState \<Rightarrow> bool" where
  "is_learning s \<longleftrightarrow> learn_target s \<noteq> None"

section \<open>What a session learns\<close>

text \<open>The control an event comes from.\<close>

definition control :: "RawMidiEvent \<Rightarrow> MidiBindKind \<times> u8 \<times> u8" where
  "control ev = (ev_kind ev, ev_channel ev, ev_number ev)"

definition feed_all :: "(nat \<times> RawMidiEvent) list \<Rightarrow> MidiLearnState \<Rightarrow> MidiLearnState" where
  "feed_all evs s = fold (\<lambda>(now, ev). learn_feed now ev) evs s"

definition winner :: "RawMidiEvent list \<Rightarrow> RawMidiEvent" where
  "winner evs = (case find (\<lambda>e. ev_kind e = NoteOn) evs of Some e \<Rightarrow> e | None \<Rightarrow> evs ! 0)"

text \<open>What a message says about the key of a binding.\<close>

definition heard :: "MidiBinding \<Rightarrow> bytes \<Rightarrow> bool option" where
  "heard b bs = (case midi_from_bytes bs of
     Some ev \<Rightarrow> if matches ev b then Some (is_down ev) else None
   | None \<Rightarrow> None)"

lemma fed_candidates:
  assumes "learn_target s \<noteq> None"
  shows "candidates (learn_feed now ev s) =
      (if control ev \<in> control ` set (candidates s) then candidates s else candidates s @ [ev])"
    "learn_target (learn_feed now ev s) = learn_target s"
    "learn_start (learn_feed now ev s) = (case learn_start s of None \<Rightarrow> Some now | Some t \<Rightarrow> Some t)"
proof -
  have "list_ex (\<lambda>c. ev_kind c = ev_kind ev \<and> ev_channel c = ev_channel ev \<and> ev_number c = ev_number ev) cs
      \<longleftrightarrow> control ev \<in> control ` set cs" for cs
    by (induction cs) (auto simp: control_def)
  then show "candidates (learn_feed now ev s) =
      (if control ev \<in> control ` set (candidates s) then candidates s else candidates s @ [ev])"
    "learn_target (learn_feed now ev s) = learn_target s"
    "learn_start (learn_feed now ev s) = (case learn_start s of None \<Rightarrow> Some now | Some t \<Rightarrow> Some t)"
    using assms by (simp_all add: learn_feed_def Let_def split: option.split)
qed

lemma winner_skip:
  assumes "control ev \<in> control ` set cs"
  shows "winner (cs @ ev # evs) = winner (cs @ evs)"
proof -
  have "cs \<noteq> []" using assms by auto
  moreover have "find (\<lambda>e. ev_kind e = NoteOn) (cs @ ev # evs) = find (\<lambda>e. ev_kind e = NoteOn) (cs @ evs)"
  proof (cases "ev_kind ev = NoteOn")
    case True
    with assms show ?thesis by (induction cs) (auto simp: control_def)
  next
    case False
    then show ?thesis by (induction cs) simp_all
  qed
  ultimately show ?thesis by (cases cs) (simp_all add: winner_def split: option.split)
qed

lemma fed_all:
  "learn_target s \<noteq> None \<Longrightarrow>
    learn_target (feed_all evs s) = learn_target s \<and>
    winner (candidates (feed_all evs s)) = winner (candidates s @ map snd evs) \<and>
    (candidates (feed_all evs s) = [] \<longleftrightarrow> candidates s @ map snd evs = []) \<and>
    learn_start (feed_all evs s) = (case learn_start s of
       Some t \<Rightarrow> Some t | None \<Rightarrow> if evs = [] then None else Some (fst (hd evs)))"
proof (induction evs arbitrary: s)
  case Nil
  then show ?case by (simp add: feed_all_def split: option.split)
next
  case (Cons e evs)
  obtain now ev where e: "e = (now, ev)" by force
  note f = fed_candidates [OF Cons.prems, of now ev]
  have "learn_target (learn_feed now ev s) \<noteq> None" using f Cons.prems by simp
  note IH = Cons.IH [OF this]
  show ?case
  proof (cases "control ev \<in> control ` set (candidates s)")
    case True
    then have "candidates s \<noteq> []" by auto
    then show ?thesis
      using IH f True winner_skip [OF True, of "map snd evs"] by (simp add: feed_all_def e split: option.split)
  next
    case False
    then show ?thesis using IH f by (simp add: feed_all_def e split: option.split)
  qed
qed

text \<open>A note's press and release, and every other message.\<close>

lemma note_messages:
  assumes "c < 16"
  shows "midi_from_bytes [0x90 OR c, n, v] =
      Some \<lparr>ev_kind = NoteOn, ev_channel = c + 1, ev_number = n, is_down = v > 0\<rparr>"
    "midi_from_bytes [0x80 OR c, n, v] =
      Some \<lparr>ev_kind = NoteOn, ev_channel = c + 1, ev_number = n, is_down = False\<rparr>"
proof -
  have "unat (c div 16) = 0" using assms by (simp add: unat_div word_less_nat_alt)
  then have "drop_bit 4 c = 0" by (simp add: drop_bit_eq_div unat_eq_zero)
  moreover have "take_bit 4 c = c" using assms by (simp add: take_bit_eq_mod word_mod_def word_less_def)
  then have "c AND 0x0F = c" using take_bit_eq_mask [of 4 c] by (simp add: mask_numeral)
  ultimately show
    "midi_from_bytes [0x90 OR c, n, v] =
      Some \<lparr>ev_kind = NoteOn, ev_channel = c + 1, ev_number = n, is_down = v > 0\<rparr>"
    "midi_from_bytes [0x80 OR c, n, v] =
      Some \<lparr>ev_kind = NoteOn, ev_channel = c + 1, ev_number = n, is_down = False\<rparr>"
    by (simp_all add: midi_from_bytes_def Let_def bit.conj_disj_distrib2 drop_bit_or)
qed

text \<open>C38: A session begun in any state and fed with events: for half a second after the first event it
  learns nothing and keeps what it has; then it learns the control of the first note among the
  events, of the first event when there is no note, and is over. A learned note recognises its press
  and its release, as a note-off or with velocity zero, and no other control.
\<close>

theorem learn_session:
  assumes "evs \<noteq> []"
  shows "(let s = feed_all evs (learn_begin target s0); w = winner (map snd evs);
      b = \<lparr>mb_channel = ev_channel w, mb_kind = ev_kind w, mb_number = ev_number w\<rparr>
    in try_resolve now s = (if (now - fst (hd evs)) div 1000000 < 500 then (None, s) else (Some (target, b), learn_cancel s)) \<and>
       \<not> is_learning (learn_cancel s) \<and>
       (\<forall>ev. matches ev b \<longleftrightarrow> control ev = control w) \<and>
       (\<forall>c n v v'. c < 16 \<and> midi_from_bytes [0x90 OR c, n, v] = Some w \<longrightarrow>
          heard b [0x90 OR c, n, v'] = Some (v' > 0) \<and> heard b [0x80 OR c, n, v'] = Some False))"
proof -
  let ?s = "feed_all evs (learn_begin target s0)"
  have begun: "learn_target (learn_begin target s0) = Some target" "candidates (learn_begin target s0) = []"
    "learn_start (learn_begin target s0) = None"
    by (simp_all add: learn_begin_def)
  from fed_all [of "learn_begin target s0" evs] begun assms
  have s: "learn_target ?s = Some target" "winner (candidates ?s) = winner (map snd evs)" "candidates ?s \<noteq> []"
    "learn_start ?s = Some (fst (hd evs))" by simp_all
  have "(case find (\<lambda>e. ev_kind e = NoteOn) (candidates ?s) of Some e \<Rightarrow> e | None \<Rightarrow> candidates ?s ! 0) = winner (map snd evs)"
    using s(2) by (simp add: winner_def)
  moreover have "heard \<lparr>mb_channel = ev_channel w, mb_kind = ev_kind w, mb_number = ev_number w\<rparr> [0x90 OR c, n, v'] = Some (v' > 0)"
    "heard \<lparr>mb_channel = ev_channel w, mb_kind = ev_kind w, mb_number = ev_number w\<rparr> [0x80 OR c, n, v'] = Some False"
    if "c < 16" "midi_from_bytes [0x90 OR c, n, v] = Some w" for c n v v' w
    using that(2) by (auto simp: heard_def note_messages [OF that(1)] matches_def)
  ultimately show ?thesis
    using s by (auto simp: try_resolve_def matches_def control_def is_learning_def learn_cancel_def Let_def)
qed

theorem learn_session_witness:
  "fst (try_resolve 600000000 (feed_all [(0, \<lparr>ev_kind = ControlChange, ev_channel = 1, ev_number = 7, is_down = True\<rparr>),
      (1000, \<lparr>ev_kind = NoteOn, ev_channel = 1, ev_number = 45, is_down = True\<rparr>)] (learn_begin LearnDah new_learn)))
    = Some (LearnDah, \<lparr>mb_channel = 1, mb_kind = NoteOn, mb_number = 45\<rparr>)"
  using learn_session [of "[(0, \<lparr>ev_kind = ControlChange, ev_channel = 1, ev_number = 7, is_down = True\<rparr>),
      (1000, \<lparr>ev_kind = NoteOn, ev_channel = 1, ev_number = 45, is_down = True\<rparr>)]" LearnDah new_learn 600000000]
  by (simp add: Let_def winner_def)

end
