(* ===== verification/Input_Backends.thy ===== *)
theory Input_Backends
  imports Paddle_Inputs
begin

text \<open>
  The desktop and browser backends of \<^verbatim>\<open>crates/radio-utils-keyer/src/input\<close>: opening a port with
  \<^verbatim>\<open>midir\<close> (\<^verbatim>\<open>midi_native.rs\<close>) and with \<^verbatim>\<open>serialport\<close> (\<^verbatim>\<open>serial.rs\<close>), the WebMIDI source and
  its listeners (\<^verbatim>\<open>midi_web.rs\<close>), and the WebSerial source (\<^verbatim>\<open>web_serial.rs\<close>). What the libraries
  and the browser answer is an argument of each operation.
\<close>

section \<open>MIDI on the desktop\<close>

text \<open>The answers of \<^verbatim>\<open>midir\<close>: initialisation, the ports, the name of a port (none when it cannot be
  read), the connection.\<close>

record 'p midir =
  md_init :: "string + unit"
  md_ports :: "'p list"
  md_name :: "'p \<Rightarrow> string option"
  md_connect :: "'p \<Rightarrow> string + unit"

definition new_midi_native :: "'p midir \<Rightarrow> nat \<Rightarrow> string \<Rightarrow> string + 'p \<times> MidiSharedState" where
  "new_midi_native M now device_name =
     (case md_init M of
        Inl e \<Rightarrow> Inl (''MIDI init failed: '' @ e)
      | Inr _ \<Rightarrow>
          (case find (\<lambda>p. md_name M p = Some device_name) (md_ports M) of
             None \<Rightarrow> Inl (''MIDI port not found: '' @ device_name)
           | Some port \<Rightarrow>
               (case md_connect M port of
                  Inl e \<Rightarrow> Inl (''MIDI connect failed: '' @ e)
                | Inr _ \<Rightarrow> Inr (port, new_shared now))))"

definition list_native_devices :: "'p midir \<Rightarrow> string list" where
  "list_native_devices M =
     (case md_init M of Inl _ \<Rightarrow> [] | Inr _ \<Rightarrow> List.map_filter (md_name M) (md_ports M))"

text \<open>Every listed name can be opened, unless the port refuses the connection; a name that is not
  listed cannot.\<close>

lemma new_midi_native_listed:
  assumes "md_init M = Inr ()"
  shows "device_name \<in> set (list_native_devices M) \<longleftrightarrow>
    new_midi_native M now device_name \<noteq> Inl (''MIDI port not found: '' @ device_name)"
proof -
  have "device_name \<in> set (List.map_filter (md_name M) (md_ports M)) \<longleftrightarrow>
      find (\<lambda>p. md_name M p = Some device_name) (md_ports M) \<noteq> None"
    by (force simp: List.map_filter_def find_None_iff)
  then show ?thesis
    using assms by (auto simp: new_midi_native_def list_native_devices_def split: option.split sum.split)
qed

section \<open>Serial ports on the desktop\<close>

text \<open>A reading of the four lines; \<open>None\<close> is an error of the port, which counts as an open contact.\<close>

definition read_pin :: "(SerialPin \<Rightarrow> bool option) \<Rightarrow> SerialPin \<Rightarrow> bool" where
  "read_pin lines pin = (case lines pin of Some level \<Rightarrow> level | None \<Rightarrow> False)"

record SerialPort =
  sp_dit_pin :: SerialPin
  sp_dash_pin :: SerialPin
  sp_state :: PaddleState
  sp_port_name :: string

definition open_serial_port :: "string + unit \<Rightarrow> nat \<Rightarrow> string \<Rightarrow> SerialPin \<Rightarrow> SerialPin \<Rightarrow> string + SerialPort" where
  "open_serial_port opening now port_name dpin dapin =
     (case opening of
        Inl e \<Rightarrow> Inl e
      | Inr _ \<Rightarrow> Inr \<lparr>sp_dit_pin = dpin, sp_dash_pin = dapin, sp_state = default_paddle now,
          sp_port_name = port_name\<rparr>)"

text \<open>The two lines are read one after the other.\<close>

type_synonym reading = "(SerialPin \<Rightarrow> bool option) \<times> (SerialPin \<Rightarrow> bool option) \<times> nat"

definition sample_pins :: "SerialPort \<Rightarrow> reading \<Rightarrow> PaddleState" where
  "sample_pins p r = (case r of (lines1, lines2, now) \<Rightarrow>
     \<lparr>dit = read_pin lines1 (sp_dit_pin p), dash = read_pin lines2 (sp_dash_pin p), timestamp = now\<rparr>)"

text \<open>\<open>tiocmiwait\<close> is an error on every platform, so the wait always polls.\<close>

definition serial_wait_for_change :: "nat option \<Rightarrow> reading list \<Rightarrow> SerialPort \<Rightarrow> (PaddleState \<times> SerialPort) option" where
  "serial_wait_for_change deadline readings p =
     (case serial_wait (sp_state p) deadline (map (sample_pins p) readings) of
        None \<Rightarrow> None
      | Some current \<Rightarrow> Some (current, p\<lparr>sp_state := current\<rparr>))"

definition available_serial_ports :: "string + string list \<Rightarrow> string list" where
  "available_serial_ports listing = (case listing of Inl _ \<Rightarrow> [] | Inr names \<Rightarrow> names)"

text \<open>\<^verbatim>\<open>Debug\<close> of a pin, and the description of a configured port.\<close>

fun show_pin :: "SerialPin \<Rightarrow> string" where
  "show_pin CTS = ''CTS''"
| "show_pin DSR = ''DSR''"
| "show_pin DCD = ''DCD''"
| "show_pin RI = ''RI''"

definition describe_serial :: "string \<Rightarrow> string \<Rightarrow> SerialPin \<Rightarrow> SerialPin \<Rightarrow> string" where
  "describe_serial kind port dpin dapin =
     kind @ '' paddle on '' @ port @ '' (dit='' @ show_pin dpin @ '', dash='' @ show_pin dapin @ '')''"

definition format_serial_description :: "string \<Rightarrow> SerialPin \<Rightarrow> SerialPin \<Rightarrow> string" where
  "format_serial_description = describe_serial ''Serial''"

text \<open>Here a port that fails lets go of the paddles at once (unlike \<open>poll_once\<close> on Android).\<close>

lemma failed_port_releases:
  assumes "dit (sp_state p) \<or> dash (sp_state p)"
  shows "serial_wait_for_change deadline ((\<lambda>_. None, \<lambda>_. None, now) # readings) p =
    Some (default_paddle now, p\<lparr>sp_state := default_paddle now\<rparr>)"
  using assms by (auto simp: serial_wait_for_change_def sample_pins_def read_pin_def default_paddle_def)

section \<open>WebMIDI\<close>

text \<open>\<open>listeners\<close> is the browser's side: the closure that is the listener of each port;
  \<open>callbacks\<close> are the closures the program keeps alive, \<open>next_closure\<close> is a name for a new one.\<close>

record WebMidi =
  event_queue :: "RawMidiEvent list"
  device_names :: "string list"
  wm_dit_binding :: "MidiBinding option"
  wm_dah_binding :: "MidiBinding option"
  wm_device_name :: "string option"
  callbacks :: "nat list"
  dit_state :: bool
  dash_state :: bool
  midi_access :: bool
  listeners :: "nat \<Rightarrow> nat option"
  next_closure :: nat

definition new_web_midi :: "MidiBinding option \<Rightarrow> MidiBinding option \<Rightarrow> string option \<Rightarrow> WebMidi" where
  "new_web_midi dit_b dah_b device = \<lparr>event_queue = [], device_names = [], wm_dit_binding = dit_b,
     wm_dah_binding = dah_b, wm_device_name = device, callbacks = [], dit_state = False, dash_state = False,
     midi_access = False, listeners = (\<lambda>_. None), next_closure = 0\<rparr>"

text \<open>The inputs the browser lists: a port with its name (or none), or an entry that is not one.\<close>

type_synonym web_inputs = "(nat \<times> string option) option list"

definition unlisten :: "web_inputs \<Rightarrow> WebMidi \<Rightarrow> WebMidi" where
  "unlisten inputs w = w\<lparr>
     listeners := fold (\<lambda>entry ls. case entry of None \<Rightarrow> ls | Some (port, _) \<Rightarrow> ls(port := None)) inputs (listeners w),
     callbacks := []\<rparr>"

fun attach_inputs :: "web_inputs \<Rightarrow> WebMidi \<Rightarrow> string list \<times> WebMidi" where
  "attach_inputs [] w = ([], w)"
| "attach_inputs (None # es) w = attach_inputs es w"
| "attach_inputs (Some (port, name) # es) w =
     (let nm = (case name of Some n \<Rightarrow> n | None \<Rightarrow> ''Unknown MIDI Device'');
          is_target = (case wm_device_name w of Some d \<Rightarrow> d = nm | None \<Rightarrow> False);
          w = (if is_target
               then w\<lparr>listeners := (listeners w)(port \<mapsto> next_closure w), callbacks := callbacks w @ [next_closure w],
                      next_closure := next_closure w + 1\<rparr>
               else w);
          (names, w) = attach_inputs es w
      in (nm # names, w))"

definition setup_inputs :: "web_inputs \<Rightarrow> WebMidi \<Rightarrow> WebMidi" where
  "setup_inputs inputs w =
     (let (names, w) = attach_inputs inputs (unlisten inputs w)
      in w\<lparr>device_names := names, midi_access := True\<rparr>)"

definition update_bindings :: "MidiBinding option \<Rightarrow> MidiBinding option \<Rightarrow> string option \<Rightarrow> web_inputs \<Rightarrow> WebMidi \<Rightarrow> WebMidi" where
  "update_bindings dit_b dah_b device inputs w =
     (let device_changed = (device \<noteq> wm_device_name w);
          w = w\<lparr>wm_dit_binding := dit_b, wm_dah_binding := dah_b, wm_device_name := device\<rparr>
      in if device_changed \<and> midi_access w then setup_inputs inputs w else w)"

text \<open>\<open>init\<close>: no window or no WebMIDI gives \<open>False\<close>; otherwise the promise may resolve to an access
  object or not.\<close>

definition web_midi_init :: "bool \<Rightarrow> bool \<Rightarrow> bool" where
  "web_midi_init window requested \<longleftrightarrow> window \<and> requested"

definition access_resolved :: "web_inputs option \<Rightarrow> WebMidi \<Rightarrow> WebMidi" where
  "access_resolved access w = (case access of None \<Rightarrow> w | Some inputs \<Rightarrow> setup_inputs inputs w)"

definition refresh_device_names :: "web_inputs \<Rightarrow> WebMidi \<Rightarrow> WebMidi" where
  "refresh_device_names inputs w =
     (if midi_access w
      then w\<lparr>device_names := List.map_filter (map_option (\<lambda>(port, name). case name of Some n \<Rightarrow> n | None \<Rightarrow> [])) inputs\<rparr>
      else w)"

text \<open>A message at a port: its listener, if any, takes it; \<open>None\<close> is the exception that a closure
  raises when the program has dropped it.\<close>

definition web_message :: "nat \<Rightarrow> bytes option \<Rightarrow> WebMidi \<Rightarrow> WebMidi option" where
  "web_message port payload w =
     (case listeners w port of
        None \<Rightarrow> Some w
      | Some c \<Rightarrow>
          if c \<notin> set (callbacks w) then None
          else (case payload of
                  None \<Rightarrow> Some w
                | Some bs \<Rightarrow>
                    (case midi_from_bytes bs of
                       None \<Rightarrow> Some w
                     | Some ev \<Rightarrow> Some (w\<lparr>event_queue := event_queue w @ [ev]\<rparr>))))"

definition web_drain_events :: "WebMidi \<Rightarrow> (bool \<times> bool \<times> RawMidiEvent list) \<times> WebMidi" where
  "web_drain_events w =
     (let (d, da, evs) = web_drain (wm_dit_binding w) (wm_dah_binding w) (event_queue w) (dit_state w, dash_state w, [])
      in ((d, da, evs), w\<lparr>dit_state := d, dash_state := da, event_queue := []\<rparr>))"

text \<open>After \<open>setup_inputs\<close> the ports of the configured name have a live listener, the other listed
  ports have none. A port that is no longer listed keeps its old listener, whose closure is gone.\<close>

definition port_names :: "web_inputs \<Rightarrow> (nat \<times> string) list" where
  "port_names inputs = List.map_filter
     (map_option (\<lambda>(port, name). (port, case name of Some n \<Rightarrow> n | None \<Rightarrow> ''Unknown MIDI Device''))) inputs"

lemma port_names_simps [simp]:
  "port_names [] = []" "port_names (None # es) = port_names es"
  "port_names (Some (port, name) # es) =
     (port, case name of Some n \<Rightarrow> n | None \<Rightarrow> ''Unknown MIDI Device'') # port_names es"
  by (simp_all add: port_names_def List.map_filter_def)

abbreviation shown_name :: "string option \<Rightarrow> string" where
  "shown_name name \<equiv> case name of Some n \<Rightarrow> n | None \<Rightarrow> ''Unknown MIDI Device''"

definition attach_one :: "nat \<Rightarrow> string \<Rightarrow> WebMidi \<Rightarrow> WebMidi" where
  "attach_one port nm w =
     (if wm_device_name w = Some nm
      then w\<lparr>listeners := (listeners w)(port \<mapsto> next_closure w), callbacks := callbacks w @ [next_closure w],
             next_closure := next_closure w + 1\<rparr>
      else w)"

lemma attach_inputs_fold:
  "attach_inputs es w = (map snd (port_names es), fold (\<lambda>(port, nm). attach_one port nm) (port_names es) w)"
proof (induction es arbitrary: w)
  case (Cons e es)
  show ?case
  proof (cases e)
    case (Some x)
    then show ?thesis
      using Cons.IH by (cases x) (auto simp: attach_one_def Let_def split: option.splits)
  qed (simp add: Cons.IH)
qed simp

lemma attach_kept: "wm_device_name (attach_one port nm w) = wm_device_name w"
  "set (callbacks w) \<subseteq> set (callbacks (attach_one port nm w))"
  by (auto simp: attach_one_def)

lemma fold_attach_callbacks: "set (callbacks w) \<subseteq> set (callbacks (fold (\<lambda>(port, nm). attach_one port nm) ps w))"
proof (induction ps arbitrary: w)
  case (Cons p ps)
  then show ?case using attach_kept(2) [of w] by (cases p) fastforce
qed simp

lemma fold_attach_listeners:
  assumes "distinct (map fst ps)"
  shows "(port \<notin> fst ` set ps \<longrightarrow>
      listeners (fold (\<lambda>(port, nm). attach_one port nm) ps w) port = listeners w port) \<and>
    ((port, nm) \<in> set ps \<longrightarrow>
      (if wm_device_name w = Some nm
       then \<exists>c \<in> set (callbacks (fold (\<lambda>(port, nm). attach_one port nm) ps w)).
         listeners (fold (\<lambda>(port, nm). attach_one port nm) ps w) port = Some c
       else listeners (fold (\<lambda>(port, nm). attach_one port nm) ps w) port = listeners w port))"
  using assms
proof (induction ps arbitrary: w)
  case (Cons p ps)
  obtain port' nm' where p: "p = (port', nm')" by (cases p)
  let ?w = "attach_one port' nm' w"
  have other: "port \<noteq> port' \<Longrightarrow> listeners ?w port = listeners w port" by (simp add: attach_one_def)
  have same: "listeners ?w port' = (if wm_device_name w = Some nm' then Some (next_closure w) else listeners w port')"
    "wm_device_name w = Some nm' \<Longrightarrow> next_closure w \<in> set (callbacks ?w)"
    by (simp_all add: attach_one_def)
  have distinct: "distinct (map fst ps)" "port' \<notin> fst ` set ps" using Cons.prems by (auto simp: p)
  note IH = Cons.IH [OF distinct(1), of ?w]
  show ?case
  proof (cases "port = port'")
    case True
    then have "port \<notin> fst ` set ps" "(port, nm) \<notin> set ps" using distinct(2) by (auto simp: rev_image_eqI)
    then show ?thesis using IH same True fold_attach_callbacks [of ?w ps] by (auto simp: p)
  next
    case False
    then show ?thesis using IH other by (simp add: p attach_kept(1))
  qed
qed simp

lemma unlisten_listeners:
  "listeners (unlisten inputs w) port = (if port \<in> fst ` set (port_names inputs) then None else listeners w port)"
proof -
  have "fold (\<lambda>entry ls. case entry of None \<Rightarrow> ls | Some (port, _) \<Rightarrow> ls(port := None)) inputs ls port =
      (if port \<in> fst ` set (port_names inputs) then None else ls port)" for ls :: "nat \<Rightarrow> nat option"
    by (induction inputs arbitrary: ls) (auto split: option.splits)
  then show ?thesis by (simp add: unlisten_def)
qed

lemma setup_inputs_listeners:
  assumes "distinct (map fst (port_names inputs))"
  shows "(port, nm) \<in> set (port_names inputs) \<Longrightarrow>
      (if wm_device_name w = Some nm
       then \<exists>c \<in> set (callbacks (setup_inputs inputs w)). listeners (setup_inputs inputs w) port = Some c
       else listeners (setup_inputs inputs w) port = None)"
    and "port \<notin> fst ` set (port_names inputs) \<Longrightarrow> listeners (setup_inputs inputs w) port = listeners w port"
proof -
  let ?u = "unlisten inputs w"
  let ?f = "fold (\<lambda>(port, nm). attach_one port nm) (port_names inputs) ?u"
  have s: "listeners (setup_inputs inputs w) = listeners ?f" "callbacks (setup_inputs inputs w) = callbacks ?f"
    "wm_device_name ?u = wm_device_name w"
    by (simp_all add: setup_inputs_def attach_inputs_fold unlisten_def Let_def)
  note f = fold_attach_listeners [OF assms, of port ?u nm, unfolded s(3)]
  show "(port, nm) \<in> set (port_names inputs) \<Longrightarrow>
      (if wm_device_name w = Some nm
       then \<exists>c \<in> set (callbacks (setup_inputs inputs w)). listeners (setup_inputs inputs w) port = Some c
       else listeners (setup_inputs inputs w) port = None)"
    using f unfolding s by (force simp: unlisten_listeners)
  show "port \<notin> fst ` set (port_names inputs) \<Longrightarrow> listeners (setup_inputs inputs w) port = listeners w port"
    using f unfolding s by (simp add: unlisten_listeners)
qed

section \<open>WebSerial\<close>

text \<open>\<open>ws_polling\<close> is the port whose timer the program holds; dropping it ends the timer.\<close>

definition SERIAL_BAUD_RATE :: nat where
  "SERIAL_BAUD_RATE = 9600"

record WebSerial =
  ws_dit :: bool
  ws_dash :: bool
  ws_dit_pin :: SerialPin
  ws_dash_pin :: SerialPin
  ws_polling :: "nat option"

definition new_web_serial :: "SerialPin \<Rightarrow> SerialPin \<Rightarrow> WebSerial" where
  "new_web_serial dpin dapin = \<lparr>ws_dit = False, ws_dash = False, ws_dit_pin = dpin, ws_dash_pin = dapin,
     ws_polling = None\<rparr>"

definition request_port :: "WebSerial \<Rightarrow> WebSerial" where
  "request_port w = w\<lparr>ws_polling := None\<rparr>"

text \<open>The chosen port has been opened (at \<open>SERIAL_BAUD_RATE\<close>) or not.\<close>

definition port_opened :: "nat \<Rightarrow> bool \<Rightarrow> WebSerial \<Rightarrow> WebSerial" where
  "port_opened port opened w = (if opened then w\<lparr>ws_polling := Some port\<rparr> else w)"

text \<open>The answer to \<open>getSignals\<close>, asked every 16 ms; a failed one changes nothing.\<close>

definition signals_read :: "(SerialPin \<Rightarrow> bool) option \<Rightarrow> WebSerial \<Rightarrow> WebSerial" where
  "signals_read signals w =
     (case signals of None \<Rightarrow> w | Some level \<Rightarrow> w\<lparr>ws_dit := level (ws_dit_pin w), ws_dash := level (ws_dash_pin w)\<rparr>)"

definition current_state :: "WebSerial \<Rightarrow> bool \<times> bool" where
  "current_state w = (ws_dit w, ws_dash w)"

end
