(* ===== verification/Midi_Android.thy ===== *)
theory Midi_Android
  imports Jni_Calls Paddle_Inputs
begin

text \<open>
  \<^verbatim>\<open>crates/radio-utils-keyer/src/input/midi_android.rs\<close>: opening a MIDI device through Java and AMidi
  with every error path, the polling thread turn by turn, and the destructor. The polling thread
  applies \<open>Paddle_Inputs.midi_message\<close>; the waits on the shared state are those of \<open>Paddle_Inputs\<close>.
\<close>

section \<open>Opening a device\<close>

definition exception_clear :: "'w jni_env \<Rightarrow> ('w, unit) io" where
  "exception_clear J = ignore (ref_io J ExceptionClear [])"

definition midi_dex :: dex_texts where
  "midi_dex = \<lparr>dex_class = ''com.radioutils.midi.MidiHelper'',
     cached_label = ''new_local_ref for cached class'',
     global_label = ''global ref for class'',
     after_label = ''new_local_ref for cached class after set''\<rparr>"

definition load_midi_helper_class :: "'w jni_env \<Rightarrow> nat \<Rightarrow> ('w, nat) io" where
  "load_midi_helper_class J = load_dex_class J (exception_clear J) midi_dex"

text \<open>\<^verbatim>\<open>Display\<close> of an \<^verbatim>\<open>i32\<close>.\<close>

fun nat_digits :: "nat \<Rightarrow> string" where
  "nat_digits n = (if n < 10 then [char_of (n + 48)] else nat_digits (n div 10) @ [char_of (n mod 10 + 48)])"

definition show_i32 :: "int \<Rightarrow> string" where
  "show_i32 i = (if i < 0 then CHR ''-'' # nat_digits (nat (- i)) else nat_digits (nat i))"

text \<open>The first of the ports that opens.\<close>

fun open_first_port :: "'w jni_env \<Rightarrow> nat \<Rightarrow> nat list \<Rightarrow> ('w, nat option) io" where
  "open_first_port J device [] = ok None"
| "open_first_port J device (n # ns) =
     bind_io (native_io J (PortOpen device n)) (\<lambda>(status, ptr).
       if status = 0 \<and> ptr \<noteq> 0 then ok (Some ptr) else open_first_port J device ns)"

definition close_native :: "'w jni_env \<Rightarrow> nat \<Rightarrow> nat \<Rightarrow> ('w, unit) io" where
  "close_native J port device =
     bind_io (ignore (native_io J (PortClose port))) (\<lambda>_.
     ignore (native_io J (DeviceRelease device)))"

definition open_port :: "'w jni_env \<Rightarrow> nat \<Rightarrow> ('w, nat) io" where
  "open_port J device =
     bind_io (open_first_port J device [0..<8]) (\<lambda>found.
       case found of
         Some ptr \<Rightarrow> ok ptr
       | None \<Rightarrow>
           bind_io (ignore (native_io J (DeviceRelease device))) (\<lambda>_.
           err ''AMidiOutputPort_open failed on all port indices 0..=7''))"

record MidiAndroidInput =
  ma_shared :: MidiSharedState
  ma_helper :: nat
  ma_port :: nat
  ma_device :: nat

text \<open>\<open>MidiAndroidInput::new\<close>: the helper object, the native device, the port, the thread.\<close>

definition open_helper :: "'w jni_env \<Rightarrow> nat \<Rightarrow> string \<Rightarrow> ('w, nat) io" where
  "open_helper J dex_len device_name =
     open_java_helper J (exception_clear J) (load_midi_helper_class J dex_len)
       ''new_string device_name'' ''MidiHelper.openDevice''
       (''MidiHelper.openDevice returned null for '' @ quoted device_name) device_name"

definition open_native :: "'w jni_env \<Rightarrow> nat \<Rightarrow> ('w, nat \<times> nat) io" where
  "open_native J helper =
     bind_io (call_object J (exception_clear J) (CallMethod helper ''getMidiDevice'' [])
                ''getMidiDevice'' ''getMidiDevice'') (\<lambda>midi_device.
     if midi_device = 0 then err ''getMidiDevice returned null''
     else
     bind_io (native_io J (DeviceFromJava midi_device)) (\<lambda>(status, device).
     if status \<noteq> 0 \<or> device = 0 then err (''AMidiDevice_fromJava failed: status='' @ show_i32 status)
     else
     bind_io (open_port J device) (\<lambda>port. ok (device, port))))"

definition new_midi_android :: "'w jni_env \<Rightarrow> nat \<Rightarrow> nat \<Rightarrow> string \<Rightarrow> ('w, MidiAndroidInput) io" where
  "new_midi_android J dex_len now device_name =
     bind_io (open_helper J dex_len device_name) (\<lambda>helper.
     bind_io (open_native J helper) (\<lambda>(device, port).
     bind_io (on_error (ref_io J (NewGlobalRef helper) ''new_global_ref helper'') (close_native J port device)) (\<lambda>_.
     bind_io (ref_io J (SpawnThread ''midi-amidi-poll'') ''spawn midi poll thread'') (\<lambda>_.
     ok \<lparr>ma_shared = new_shared now, ma_helper = helper, ma_port = port, ma_device = device\<rparr>))))"

section \<open>The polling thread\<close>

definition AMIDI_OPCODE_DATA :: int where
  "AMIDI_OPCODE_DATA = 1"

text \<open>What a turn of the loop reads: the stop flag, what \<open>AMidiOutputPort_receive\<close> returned and wrote
  (the whole buffer of 64 bytes and the number received), and the time.\<close>

record poll_turn =
  pt_stop :: bool
  pt_msgs :: int
  pt_opcode :: int
  pt_num_bytes :: nat
  pt_buf :: bytes
  pt_now :: nat

text \<open>\<open>mp_events\<close> are the events sent to the monitor channel, \<open>mp_slept\<close> the milliseconds slept.\<close>

record MidiPoll =
  mp_shared :: MidiSharedState
  mp_events :: "RawMidiEvent list"
  mp_slept :: nat
  mp_polling :: bool

definition new_midi_poll :: "MidiSharedState \<Rightarrow> MidiPoll" where
  "new_midi_poll s = \<lparr>mp_shared = s, mp_events = [], mp_slept = 0, mp_polling = True\<rparr>"

definition midi_data :: "MidiBinding option \<Rightarrow> MidiBinding option \<Rightarrow> nat \<Rightarrow> bytes \<Rightarrow> MidiPoll \<Rightarrow> MidiPoll" where
  "midi_data dit_b dah_b now bs p =
     (case midi_from_bytes bs of
        Some ev \<Rightarrow> p\<lparr>mp_events := mp_events p @ [ev], mp_shared := midi_message dit_b dah_b now bs (mp_shared p)\<rparr>
      | None \<Rightarrow> p)"

text \<open>\<open>None\<close> is the panic of the slice \<^verbatim>\<open>&buf[..num_bytes]\<close>.\<close>

definition amidi_turn :: "MidiBinding option \<Rightarrow> MidiBinding option \<Rightarrow> poll_turn \<Rightarrow> MidiPoll \<Rightarrow> MidiPoll option" where
  "amidi_turn dit_b dah_b t p =
     (if pt_stop t then Some (p\<lparr>mp_polling := False\<rparr>)
      else if pt_msgs t > 0 \<and> pt_opcode t = AMIDI_OPCODE_DATA
      then if pt_num_bytes t \<le> length (pt_buf t)
           then Some (midi_data dit_b dah_b (pt_now t) (take (pt_num_bytes t) (pt_buf t)) p)
           else None
      else if pt_msgs t = 0 then Some (p\<lparr>mp_slept := mp_slept p + 1\<rparr>)
      else Some (p\<lparr>mp_polling := False\<rparr>))"

fun amidi_turns :: "MidiBinding option \<Rightarrow> MidiBinding option \<Rightarrow> poll_turn list \<Rightarrow> MidiPoll \<Rightarrow> MidiPoll option" where
  "amidi_turns dit_b dah_b [] p = Some p"
| "amidi_turns dit_b dah_b (t # ts) p =
     (if mp_polling p
      then case amidi_turn dit_b dah_b t p of None \<Rightarrow> None | Some p' \<Rightarrow> amidi_turns dit_b dah_b ts p'
      else Some p)"

text \<open>What the thread does when its loop is over; attaching may fail, the handles are closed anyway.\<close>

definition amidi_exit :: "'w jni_env \<Rightarrow> MidiAndroidInput \<Rightarrow> ('w, unit) io" where
  "amidi_exit J m =
     bind_io (\<lambda>s. if java_vm s then ignore (ref_io J AttachThread []) s else ok () s) (\<lambda>_.
     close_native J (ma_port m) (ma_device m))"

section \<open>The destructor\<close>

definition close_helper :: "'w jni_env \<Rightarrow> nat \<Rightarrow> ('w, unit) io" where
  "close_helper J helper s =
     (if java_vm s
      then case ref_io J AttachThread [] s of
             (Inl _, s') \<Rightarrow> (Inr (), s')
           | (Inr _, s') \<Rightarrow>
               bind_io (ignore (value_io J (CallMethod helper ''close'' []) [])) (\<lambda>_. exception_clear J) s'
      else (Inr (), s))"

text \<open>The stop flag, the join and the Java object: the thread has closed its handles when the join
  returns, unless it panicked (\<open>amidi_turn\<close> giving \<open>None\<close>: AMidi reporting more bytes than it was given
  room for), which is left out here.\<close>

definition drop_midi_android :: "'w jni_env \<Rightarrow> MidiAndroidInput \<Rightarrow> ('w, unit) io" where
  "drop_midi_android J m =
     bind_io (amidi_exit J m) (\<lambda>_. close_helper J (ma_helper m))"

section \<open>Listing and priority\<close>

definition set_thread_priority_audio :: "'w jni_env \<Rightarrow> ('w, unit) io" where
  "set_thread_priority_audio J s =
     (if java_vm s
      then case ref_io J AttachThread [] s of
             (Inl _, s') \<Rightarrow> (Inr (), s')
           | (Inr _, s') \<Rightarrow>
               bind_io (ignore (value_io J (CallStatic ''android/os/Process'' ''setThreadPriority''
                          [IntArg (-16)]) [])) (\<lambda>_. exception_clear J) s'
      else (Inr (), s))"

text \<open>The elements that can be read as strings, in order.\<close>

fun read_names :: "'w jni_env \<Rightarrow> nat \<Rightarrow> nat list \<Rightarrow> 'w jvm \<Rightarrow> string list \<times> 'w jvm" where
  "read_names J arr [] s = ([], s)"
| "read_names J arr (i # is) s =
     (case ref_io J (ArrayElement arr i) [] s of
        (Inl _, s') \<Rightarrow> read_names J arr is s'
      | (Inr el, s') \<Rightarrow>
          if el = 0 then read_names J arr is s'
          else (case text_io J (StringOf el) s' of
                  (Inl _, s'') \<Rightarrow> read_names J arr is s''
                | (Inr name, s'') \<Rightarrow> let (names, t) = read_names J arr is s'' in (name # names, t)))"

text \<open>Everything that goes wrong before the loop gives the empty list.\<close>

definition or_empty :: "('w, string list) io \<Rightarrow> 'w jvm \<Rightarrow> string list \<times> 'w jvm" where
  "or_empty m s = (case m s of (Inl _, s') \<Rightarrow> ([], s') | (Inr names, s') \<Rightarrow> (names, s'))"

definition list_midi_input_devices :: "'w jni_env \<Rightarrow> nat \<Rightarrow> 'w jvm \<Rightarrow> string list \<times> 'w jvm" where
  "list_midi_input_devices J dex_len =
     or_empty (bind_io require_jvm (\<lambda>ctx.
       bind_io (ref_io J AttachThread []) (\<lambda>_.
       bind_io (load_midi_helper_class J dex_len) (\<lambda>cls.
       bind_io (call_object J (exception_clear J) (CallStaticOn cls ''listDevices'' [ObjArg ctx]) [] []) (\<lambda>arr.
       if arr = 0 then ok []
       else bind_io (ref_io J (ArrayLength arr) []) (\<lambda>len s.
         let (names, s') = read_names J arr [0..<len] s in (Inr names, s')))))))"

section \<open>Handles\<close>

lemma quiet_midi [quiets]: "quiet (exception_clear J)" "quiet (load_midi_helper_class J n)"
  unfolding exception_clear_def load_midi_helper_class_def by (intro quiets)+

lemma triple_native_open:
  "triple (holding hs) (native_io J (DeviceFromJava obj))
     (\<lambda>(st, d). holding (if st = 0 \<and> d \<noteq> 0 then MidiDevice d # hs else hs)) E"
  "triple (holding hs) (native_io J (PortOpen dev n))
     (\<lambda>(st, p). holding (if st = 0 \<and> p \<noteq> 0 then MidiPort p # hs else hs)) E"
  by (rule tripleI; auto simp: native_io_def logged_def holding_def held_snoc Let_def split: prod.splits)+

lemma triple_native_close:
  "triple (holding (MidiPort p # hs)) (native_io J (PortClose p)) (\<lambda>_. holding hs) E"
  "triple (holding (MidiDevice d # hs)) (native_io J (DeviceRelease d)) (\<lambda>_. holding hs) E"
  by (rule tripleI; auto simp: native_io_def logged_def holding_def held_snoc Let_def split: prod.splits)+

lemmas triple_close_ignored = triple_native_close [THEN triple_ignore]

lemma triple_close_native:
  "triple (holding (MidiPort p # MidiDevice d # hs)) (close_native J p d) (\<lambda>_. holding hs) E"
  unfolding close_native_def
  by (rule triple_bind [OF triple_close_ignored(1) triple_close_ignored(2)])

lemma triple_open_first_port:
  "triple (holding hs) (open_first_port J d ns)
     (\<lambda>r. holding (case r of None \<Rightarrow> hs | Some p \<Rightarrow> MidiPort p # hs)) E"
proof (induction ns)
  case Nil
  show ?case unfolding open_first_port.simps by (rule triple_weaken [OF triple_ok]) auto
next
  case (Cons n ns)
  have "triple (case x of (st, p) \<Rightarrow> holding (if st = 0 \<and> p \<noteq> 0 then MidiPort p # hs else hs))
     (case x of (st, p) \<Rightarrow> if st = 0 \<and> p \<noteq> 0 then ok (Some p) else open_first_port J d ns)
     (\<lambda>r. holding (case r of None \<Rightarrow> hs | Some p \<Rightarrow> MidiPort p # hs)) E" for x
    using Cons.IH by (cases x) (auto simp: triple_def ok_def)
  then show ?case unfolding open_first_port.simps by (rule triple_bind [OF triple_native_open(2)])
qed

lemma triple_open_port:
  "triple (holding (MidiDevice d # hs)) (open_port J d) (\<lambda>p. holding (MidiPort p # MidiDevice d # hs)) (holding hs)"
proof -
  have "triple (holding (case r of None \<Rightarrow> MidiDevice d # hs | Some p \<Rightarrow> MidiPort p # MidiDevice d # hs))
      (case r of Some p \<Rightarrow> ok p | None \<Rightarrow> bind_io (ignore (native_io J (DeviceRelease d))) (\<lambda>_. err msg))
      (\<lambda>p. holding (MidiPort p # MidiDevice d # hs)) (holding hs)" for r msg
  proof (cases r)
    case None
    have "triple (holding (MidiDevice d # hs)) (bind_io (ignore (native_io J (DeviceRelease d))) (\<lambda>_. err msg))
      (\<lambda>p. holding (MidiPort p # MidiDevice d # hs)) (holding hs)"
      by (rule triple_bind [OF triple_close_ignored(2) triple_err])
    then show ?thesis using None by simp
  qed (simp add: triple_def ok_def)
  then show ?thesis unfolding open_port_def by (rule triple_bind [OF triple_open_first_port])
qed

lemma triple_open_helper:
  "triple (\<lambda>s. held (trace s) = Some hs) (open_helper J n name) (\<lambda>h. holding (JavaHelper h # hs))
     (\<lambda>s. held (trace s) = Some hs)"
  unfolding open_helper_def by (intro triple_open_java_helper quiets)

lemma triple_open_native:
  "triple (holding hs) (open_native J h) (\<lambda>(d, p). holding (MidiPort p # MidiDevice d # hs)) (holding hs)"
proof -
  have opn: "triple (holding (MidiDevice d # hs)) (bind_io (open_port J d) (\<lambda>p. ok (d, p)))
      (\<lambda>(d, p). holding (MidiPort p # MidiDevice d # hs)) (holding hs)" for d
    by (rule triple_bind [OF triple_open_port]) (simp add: triple_def ok_def)
  have dev: "triple (case x of (st, d) \<Rightarrow> holding (if st = 0 \<and> d \<noteq> 0 then MidiDevice d # hs else hs))
      (case x of (st, d) \<Rightarrow> if st \<noteq> 0 \<or> d = 0 then err (msg st) else bind_io (open_port J d) (\<lambda>p. ok (d, p)))
      (\<lambda>(d, p). holding (MidiPort p # MidiDevice d # hs)) (holding hs)" for x msg
    using opn by (cases x) (auto simp: triple_err)
  show ?thesis
    unfolding open_native_def
    by (intro quiet_bind_triple quiets triple_if triple_err triple_bind [OF triple_native_open(1) dev]) simp_all
qed

definition thread_not_spawned :: "'w jvm \<Rightarrow> bool" where
  "thread_not_spawned s \<longleftrightarrow> trace s \<noteq> [] \<and> last (trace s) = (SpawnThread ''midi-amidi-poll'', None)"

definition open_failed :: "'w jvm \<Rightarrow> bool" where
  "open_failed s \<longleftrightarrow> (\<exists>hs. held (trace s) = Some hs \<and> (hs = [] \<or> (\<exists>h. hs = [JavaHelper h]) \<or>
     thread_not_spawned s \<and> (\<exists>p d h. hs = [MidiPort p, MidiDevice d, JavaHelper h])))"

lemma triple_new_midi_android:
  "triple (\<lambda>s. held (trace s) = Some []) (new_midi_android J n now name)
     (\<lambda>m. holding [MidiPort (ma_port m), MidiDevice (ma_device m), JavaHelper (ma_helper m)]) open_failed"
proof -
  have spawn: "triple (holding [MidiPort p, MidiDevice d, JavaHelper h])
      (bind_io (ref_io J (SpawnThread ''midi-amidi-poll'') label) (\<lambda>_.
       ok \<lparr>ma_shared = new_shared now, ma_helper = h, ma_port = p, ma_device = d\<rparr>))
      (\<lambda>m. holding [MidiPort (ma_port m), MidiDevice (ma_device m), JavaHelper (ma_helper m)]) open_failed" for p d h label
    by (rule tripleI)
      (auto simp: bind_io_def ref_io_def ok_def logged_def outcome_def holding_def held_snoc open_failed_def
        thread_not_spawned_def Let_def split: prod.splits sum.splits)
  have one: "holding [JavaHelper h] s \<Longrightarrow> open_failed s" for h s
    by (auto simp: open_failed_def holding_def)
  have ref: "triple (holding [MidiPort p, MidiDevice d, JavaHelper h])
      (on_error (ref_io J (NewGlobalRef h) label) (close_native J p d))
      (\<lambda>_. holding [MidiPort p, MidiDevice d, JavaHelper h]) open_failed" for p d h label
    by (rule triple_on_error [OF quiet_triple]) (intro quiets, rule triple_weaken [OF triple_close_native], auto intro: one)
  have rest: "triple (case x of (d, p) \<Rightarrow> holding [MidiPort p, MidiDevice d, JavaHelper h])
      (case x of (d, p) \<Rightarrow>
        bind_io (on_error (ref_io J (NewGlobalRef h) label) (close_native J p d)) (\<lambda>_.
        bind_io (ref_io J (SpawnThread ''midi-amidi-poll'') label') (\<lambda>_.
        ok \<lparr>ma_shared = new_shared now, ma_helper = h, ma_port = p, ma_device = d\<rparr>)))
      (\<lambda>m. holding [MidiPort (ma_port m), MidiDevice (ma_device m), JavaHelper (ma_helper m)]) open_failed" for x h label label'
    by (cases x) (simp add: triple_bind [OF ref spawn])
  have nat: "triple (holding [JavaHelper h]) (open_native J h)
      (\<lambda>x. case x of (d, p) \<Rightarrow> holding [MidiPort p, MidiDevice d, JavaHelper h]) open_failed" for h
    by (rule triple_weaken [OF triple_open_native]) (auto intro: one)
  have hlp: "triple (\<lambda>s. held (trace s) = Some []) (open_helper J n name) (\<lambda>h. holding [JavaHelper h]) open_failed"
    by (rule triple_weaken [OF triple_open_helper]) (auto simp: open_failed_def)
  show ?thesis
    unfolding new_midi_android_def by (rule triple_bind [OF hlp triple_bind [OF nat rest]])
qed

lemma triple_amidi_exit:
  "triple (holding (MidiPort (ma_port m) # MidiDevice (ma_device m) # hs)) (amidi_exit J m) (\<lambda>_. holding hs) E"
  unfolding amidi_exit_def
proof (rule triple_bind)
  show "triple (holding (MidiPort (ma_port m) # MidiDevice (ma_device m) # hs))
      (\<lambda>s. if java_vm s then ignore (ref_io J AttachThread []) s else ok () s)
      (\<lambda>_. holding (MidiPort (ma_port m) # MidiDevice (ma_device m) # hs)) E"
    by (rule tripleI)
      (auto simp: holding_def ignore_def ok_def ref_io_def case_prod_beta Let_def quiet_logged quiets split: if_splits)
qed (rule triple_close_native)

lemma close_helper_result:
  assumes "holding [JavaHelper h] s" "close_helper J h s = (r, s')"
  shows "held (trace s') = Some [] \<or> held (trace s') = Some [JavaHelper h] \<and> last (trace s') = (AttachThread, None)"
proof (cases "fst (ref_call J AttachThread (world s))")
  case (Inl e)
  with assms show ?thesis
    by (auto simp: close_helper_def holding_def ref_io_def logged_def outcome_def held_snoc Let_def split: prod.splits)
next
  case (Inr x)
  define s1 where "s1 = snd (ref_io J AttachThread [] s)"
  define s2 where "s2 = snd (value_io J (CallMethod h ''close'' []) [] s1)"
  have "holding [JavaHelper h] s1"
    using assms(1) by (simp add: s1_def ref_io_def holding_def case_prod_beta Let_def quiet_logged quiets)
  then have "held (trace s2) = Some []"
    by (simp add: s2_def value_io_def logged_def holding_def held_snoc case_prod_beta Let_def)
  moreover have "s' = snd (exception_clear J s2)"
    using assms Inr by (simp add: close_helper_def holding_def s1_def s2_def ref_io_def bind_io_def ignore_def
        case_prod_beta Let_def prod_eq_iff)
  ultimately show ?thesis using quiet_midi(1) [of J] by (simp add: quiet_def)
qed

text \<open>C35: Native handles do not leak, with one exception: whatever Java and AMidi answer, a failed
  \<open>new\<close> leaves no port and no native device open, unless the last step, starting the thread,
  failed: then both stay open for ever. (The Java object, once opened, is left to the collector on
  every failure.) A device that was opened and is dropped, after a polling thread that did not
  panic, has its port and its native device closed, each exactly once, and its Java object too
  unless the dropping thread cannot attach to the machine: then the Java object alone stays open.\<close>

theorem midi_android_handles:
  assumes "held (trace s) = Some []"
  shows "case new_midi_android J dex_len now name s of
     (Inl e, s') \<Rightarrow> open_failed s'
   | (Inr m, s') \<Rightarrow> (case drop_midi_android J m s' of (r, s'') \<Rightarrow>
       held (trace s'') = Some [] \<or>
       held (trace s'') = Some [JavaHelper (ma_helper m)] \<and> last (trace s'') = (AttachThread, None))"
proof -
  obtain r s' where new: "new_midi_android J dex_len now name s = (r, s')" by (cases "new_midi_android J dex_len now name s")
  show ?thesis
  proof (cases r)
    case (Inl e)
    then show ?thesis using triple_Inl [OF triple_new_midi_android assms] new by auto
  next
    case (Inr m)
    then have h: "holding [MidiPort (ma_port m), MidiDevice (ma_device m), JavaHelper (ma_helper m)] s'"
      using triple_Inr [OF triple_new_midi_android assms] new by auto
    obtain r1 s1 where e: "amidi_exit J m s' = (r1, s1)" by (cases "amidi_exit J m s'")
    from triple_amidi_exit [of m "[JavaHelper (ma_helper m)]" J "\<lambda>_. False"] h e
    obtain x where "r1 = Inr x" "holding [JavaHelper (ma_helper m)] s1"
      by (cases r1) (auto dest: triple_Inl triple_Inr)
    then show ?thesis
      using close_helper_result [of "ma_helper m" s1 J] new Inr e
      by (auto simp: drop_midi_android_def bind_io_def split: prod.split)
  qed
qed

text \<open>A machine that answers every call, and one that cannot start the thread.\<close>

definition sample_env :: "bool \<Rightarrow> unit jni_env" where
  "sample_env spawns = \<lparr>
     ref_call = (\<lambda>c w. (case c of SpawnThread _ \<Rightarrow> if spawns then Inr 0 else Inl ''EAGAIN'' | _ \<Rightarrow> Inr 1, w)),
     value_call = (\<lambda>c w. (Inr (Object 7), w)), text_call = (\<lambda>c w. (Inr ''Morse'', w)),
     native_call = (\<lambda>c w. ((0, 9), w)), wrong_type = ''wrong type''\<rparr>"

definition sample_jvm :: "unit jvm" where
  "sample_jvm = set_jvm 3 \<lparr>world = (), trace = [], java_vm = False, app_context = None, helper_class = None\<rparr>"

theorem midi_android_handles_witness:
  "(case new_midi_android (sample_env True) 100 5 ''K1'' sample_jvm of
      (Inr m, s') \<Rightarrow> held (trace (snd (drop_midi_android (sample_env True) m s'))) = Some []
    | _ \<Rightarrow> False) \<and>
   (case new_midi_android (sample_env False) 100 5 ''K1'' sample_jvm of
      (Inl e, s') \<Rightarrow> open_failed s' \<and> held (trace s') = Some [MidiPort 9, MidiDevice 9, JavaHelper 7]
    | _ \<Rightarrow> False)"
proof -
  have s: "held (trace sample_jvm) = Some []" by (simp add: sample_jvm_def set_jvm_def held_def)
  have "case new_midi_android (sample_env True) 100 5 ''K1'' sample_jvm of
      (Inr m, s') \<Rightarrow> held (trace (snd (drop_midi_android (sample_env True) m s'))) = Some []
    | _ \<Rightarrow> False" by code_simp
  moreover have "case new_midi_android (sample_env False) 100 5 ''K1'' sample_jvm of
      (Inl e, s') \<Rightarrow> held (trace s') = Some [MidiPort 9, MidiDevice 9, JavaHelper 7]
    | _ \<Rightarrow> False" by code_simp
  ultimately show ?thesis
    using midi_android_handles [OF s, of "sample_env False" 100 5 "''K1''"]
    by (auto split: prod.splits sum.splits)
qed

section \<open>Polling\<close>

definition delivered :: "poll_turn \<Rightarrow> bool" where
  "delivered t \<longleftrightarrow> \<not> pt_stop t \<and> (pt_msgs t = 0 \<or>
     pt_msgs t > 0 \<and> pt_opcode t = AMIDI_OPCODE_DATA \<and> pt_num_bytes t \<le> length (pt_buf t))"

definition payload :: "poll_turn \<Rightarrow> (nat \<times> bytes) list" where
  "payload t = (if pt_msgs t = 0 then [] else [(pt_now t, take (pt_num_bytes t) (pt_buf t))])"

lemma amidi_turns_append:
  "amidi_turns dit_b dah_b (us @ ts) p =
     (case amidi_turns dit_b dah_b us p of None \<Rightarrow> None | Some q \<Rightarrow> amidi_turns dit_b dah_b ts q)"
proof (induction us arbitrary: p)
  case (Cons u us)
  have "amidi_turns dit_b dah_b ts p = Some p" if "\<not> mp_polling p" for p
    using that by (cases ts) simp_all
  with Cons.IH show ?case by (auto split: option.split)
qed simp

text \<open>While the port delivers, the thread does to the shared state and to the monitor what the
  messages say, in order.\<close>

lemma midi_poll_delivers:
  assumes "list_all delivered ts" "mp_polling p"
  shows "\<exists>q. amidi_turns dit_b dah_b ts p = Some q \<and> mp_polling q \<and>
    mp_shared q = fold (\<lambda>(now, bs). midi_message dit_b dah_b now bs) (concat (map payload ts)) (mp_shared p) \<and>
    mp_events q = mp_events p @ List.map_filter midi_from_bytes (map snd (concat (map payload ts)))"
  using assms
proof (induction ts arbitrary: p)
  case (Cons t ts)
  obtain q where q: "amidi_turn dit_b dah_b t p = Some q" "mp_polling q"
    "mp_shared q = fold (\<lambda>(now, bs). midi_message dit_b dah_b now bs) (payload t) (mp_shared p)"
    "mp_events q = mp_events p @ List.map_filter midi_from_bytes (map snd (payload t))"
    using Cons.prems
    by (cases "midi_from_bytes (take (pt_num_bytes t) (pt_buf t))")
      (auto simp: delivered_def amidi_turn_def payload_def midi_data_def midi_message_def List.map_filter_def)
  from Cons.IH [of q] Cons.prems q show ?case by (auto simp: List.map_filter_def)
qed (simp add: List.map_filter_def)

text \<open>C36: The polling thread takes everything that is neither data nor silence for a broken port, also a
  flush (a message with another opcode), and ends. The paddles keep the state they had: a paddle
  that was down then is down in every later wait, whatever the port would still deliver.\<close>

theorem midi_poll_frozen:
  assumes "amidi_turns dit_b dah_b us p = Some q" "mp_polling q" "\<not> pt_stop t"
    and "pt_msgs t < 0 \<or> pt_msgs t > 0 \<and> pt_opcode t \<noteq> AMIDI_OPCODE_DATA"
  shows "amidi_turns dit_b dah_b (us @ t # ts) p = Some (q\<lparr>mp_polling := False\<rparr>) \<and>
    (\<forall>seen timed_out ret. shared_wake seen timed_out (mp_shared q) = Some ret \<longrightarrow>
       dit ret = ms_dit (mp_shared q) \<and> dash ret = ms_dash (mp_shared q))"
proof -
  have "amidi_turn dit_b dah_b t q = Some (q\<lparr>mp_polling := False\<rparr>)"
    using assms(3,4) by (auto simp: amidi_turn_def)
  moreover have "amidi_turns dit_b dah_b ts (q\<lparr>mp_polling := False\<rparr>) = Some (q\<lparr>mp_polling := False\<rparr>)"
    by (cases ts) simp_all
  ultimately show ?thesis
    using assms(1,2) by (auto simp: amidi_turns_append shared_wake_def shared_paddle_def split: if_splits)
qed

definition sample_turn :: "int \<Rightarrow> bytes \<Rightarrow> poll_turn" where
  "sample_turn opcode bs = \<lparr>pt_stop = False, pt_msgs = 1, pt_opcode = opcode, pt_num_bytes = length bs,
     pt_buf = bs @ replicate (64 - length bs) 0, pt_now = 1\<rparr>"

theorem midi_poll_frozen_witness:
  "\<exists>q. amidi_turns (Some \<lparr>mb_channel = 1, mb_kind = NoteOn, mb_number = 45\<rparr>) None
       [sample_turn 1 [0x90, 45, 100], sample_turn 2 [], sample_turn 1 [0x80, 45, 0]]
       (new_midi_poll (new_shared 0)) = Some q \<and> \<not> mp_polling q \<and> ms_dit (mp_shared q) \<and>
     (\<forall>ret. shared_wake 0 True (mp_shared q) = Some ret \<longrightarrow> dit ret)"
proof -
  let ?b = "Some \<lparr>mb_channel = 1, mb_kind = NoteOn, mb_number = 45\<rparr>"
  obtain q where q: "amidi_turns ?b None [sample_turn 1 [0x90, 45, 100]] (new_midi_poll (new_shared 0)) = Some q"
    "mp_polling q" "ms_dit (mp_shared q)"
    by (simp add: sample_turn_def amidi_turn_def midi_data_def midi_message_def bound_state_def shared_change_def
        midi_from_bytes_def matches_def new_shared_def new_midi_poll_def AMIDI_OPCODE_DATA_def Let_def)
  have "\<not> pt_stop (sample_turn 2 [])" "pt_msgs (sample_turn 2 []) > 0 \<and> pt_opcode (sample_turn 2 []) \<noteq> AMIDI_OPCODE_DATA"
    by (simp_all add: sample_turn_def AMIDI_OPCODE_DATA_def)
  with midi_poll_frozen [OF q(1,2), of "sample_turn 2 []" "[sample_turn 1 [0x80, 45, 0]]"] q(3)
  show ?thesis by auto
qed

end
