(* ===== verification/Serial_Android.thy ===== *)
theory Serial_Android
  imports Jni_Calls Input_Backends Midi_Android
begin

text \<open>
  \<^verbatim>\<open>crates/radio-utils-keyer/src/input/serial_android.rs\<close>: the USB-serial source on Android, opened
  through a Java helper object, polled by a thread (\<open>Paddle_Inputs.poll_once\<close>) and closed by its
  destructor.
\<close>

section \<open>Opening\<close>

definition describe_and_clear_exception :: "'w jni_env \<Rightarrow> ('w, unit) io" where
  "describe_and_clear_exception J =
     bind_io (ignore (ref_io J ExceptionDescribe [])) (\<lambda>_. ignore (ref_io J ExceptionClear []))"

definition serial_dex :: dex_texts where
  "serial_dex = \<lparr>dex_class = ''com.radioutils.serial.UsbSerialHelper'',
     cached_label = ''new_local_ref cached'',
     global_label = ''global ref class'',
     after_label = ''new_local_ref after set''\<rparr>"

definition load_helper_class :: "'w jni_env \<Rightarrow> nat \<Rightarrow> ('w, nat) io" where
  "load_helper_class J = load_dex_class J (describe_and_clear_exception J) serial_dex"

record SerialPaddleInput =
  sa_shared :: MidiSharedState
  sa_helper :: nat
  sa_port_name :: string
  sa_dit_pin :: SerialPin
  sa_dash_pin :: SerialPin

definition open_serial_helper :: "'w jni_env \<Rightarrow> nat \<Rightarrow> string \<Rightarrow> ('w, nat) io" where
  "open_serial_helper J dex_len port_name =
     open_java_helper J (describe_and_clear_exception J) (load_helper_class J dex_len)
       ''new_string'' ''openDevice''
       (''UsbSerialHelper.openDevice returned null for '' @ quoted port_name
        @ '' (permission denied, device gone, or unsupported chip)'') port_name"

definition open_serial :: "'w jni_env \<Rightarrow> nat \<Rightarrow> nat \<Rightarrow> string \<Rightarrow> SerialPin \<Rightarrow> SerialPin \<Rightarrow> ('w, SerialPaddleInput) io" where
  "open_serial J dex_len now port_name dpin dapin =
     bind_io (open_serial_helper J dex_len port_name) (\<lambda>helper.
     bind_io (ref_io J (ObjectClass helper) ''get_object_class'') (\<lambda>cls.
     bind_io (ref_io J (MethodId cls ''readModemStatus'') ''get_method_id readModemStatus'') (\<lambda>read_mid.
     bind_io (ref_io J (NewGlobalRef helper) ''new_global_ref helper'') (\<lambda>_.
     bind_io (ref_io J (SpawnThread ''usb-serial-poll'') ''spawn poll thread'') (\<lambda>_.
     ok \<lparr>sa_shared = new_shared now, sa_helper = helper, sa_port_name = port_name,
         sa_dit_pin = dpin, sa_dash_pin = dapin\<rparr>)))))"

section \<open>The polling thread\<close>

text \<open>The thread raises its priority and attaches; when it cannot, there is no loop.\<close>

definition start_polling :: "'w jni_env \<Rightarrow> 'w jvm \<Rightarrow> bool \<times> 'w jvm" where
  "start_polling J s =
     (let s = snd (set_thread_priority_audio J s)
      in if java_vm s
         then case ref_io J AttachDaemon [] s of
                (Inl _, s) \<Rightarrow> (False, s)
              | (Inr _, s) \<Rightarrow> (True, s)
         else (False, s))"

definition new_serial_poll :: "MidiSharedState \<Rightarrow> nat \<Rightarrow> SerialPoll" where
  "new_serial_poll shared now = \<lparr>sp_shared = shared, consecutive_errors = 0, last_change = now, polling = True\<rparr>"

text \<open>The turns of the loop, each with the time and the status read; an exception is described and
  cleared before it counts as an error.\<close>

fun poll_turns :: "SerialPin \<Rightarrow> SerialPin \<Rightarrow> (nat \<times> 32 word option) list \<Rightarrow> SerialPoll \<Rightarrow> SerialPoll" where
  "poll_turns dpin dapin [] p = p"
| "poll_turns dpin dapin ((now, status) # ts) p =
     (if polling p then poll_turns dpin dapin ts (snd (poll_once dpin dapin now status p)) else p)"

section \<open>Closing and listing\<close>

definition drop_serial :: "'w jni_env \<Rightarrow> SerialPaddleInput \<Rightarrow> ('w, unit) io" where
  "drop_serial J m s =
     (if java_vm s
      then case ref_io J AttachThread [] s of
             (Inl _, s') \<Rightarrow> (Inr (), s')
           | (Inr _, s') \<Rightarrow>
               ignore (on_error (value_io J (CallMethod (sa_helper m) ''close'' []) [])
                        (describe_and_clear_exception J)) s'
      else (Inr (), s))"

definition format_usb_serial_description :: "string \<Rightarrow> SerialPin \<Rightarrow> SerialPin \<Rightarrow> string" where
  "format_usb_serial_description = describe_serial ''USB-serial''"

text \<open>A length that cannot be read counts as 0.\<close>

definition available_ports :: "'w jni_env \<Rightarrow> nat \<Rightarrow> 'w jvm \<Rightarrow> string list \<times> 'w jvm" where
  "available_ports J dex_len =
     or_empty (bind_io require_jvm (\<lambda>ctx.
       bind_io (ref_io J AttachThread []) (\<lambda>_.
       bind_io (load_helper_class J dex_len) (\<lambda>cls.
       bind_io (call_object J (describe_and_clear_exception J)
                  (CallStaticOn cls ''listDevices'' [ObjArg ctx]) [] []) (\<lambda>arr.
       if arr = 0 then ok []
       else (\<lambda>s. let (len, s) = (case ref_io J (ArrayLength arr) [] s of
                                   (Inl _, s') \<Rightarrow> (0, s') | (Inr n, s') \<Rightarrow> (n, s'));
                     (names, s) = read_names J arr [0..<len] s
                 in (Inr names, s)))))))"

section \<open>Handles\<close>

lemma quiet_serial [quiets]:
  "quiet (describe_and_clear_exception J)" "quiet (load_helper_class J n)"
  unfolding describe_and_clear_exception_def load_helper_class_def by (intro quiets)+

text \<open>Nothing closes the helper object when a step after \<open>openDevice\<close> fails: the connection and the
  claimed interfaces of the USB device stay open.\<close>

lemma triple_open_serial:
  "triple (\<lambda>s. held (trace s) = Some []) (open_serial J n now name dpin dapin)
     (\<lambda>m. holding [JavaHelper (sa_helper m)])
     (\<lambda>s. held (trace s) = Some [] \<or> (\<exists>h. held (trace s) = Some [JavaHelper h]))"
proof -
  let ?E = "\<lambda>s. held (trace s) = Some [] \<or> (\<exists>h. held (trace s) = Some [JavaHelper h])"
  have hlp: "triple (\<lambda>s. held (trace s) = Some []) (open_serial_helper J n name) (\<lambda>h. holding [JavaHelper h]) ?E"
    unfolding open_serial_helper_def
    by (rule triple_weaken [OF triple_open_java_helper]) (auto intro: quiets)
  have res: "triple (holding [JavaHelper h]) (ok m) (\<lambda>m. holding [JavaHelper (sa_helper m)]) ?E"
    if "sa_helper m = h" for h m
    using that by (simp add: triple_def ok_def)
  have held: "holding [JavaHelper h] s \<Longrightarrow> ?E s" for h and s :: "'a jvm"
    by (auto simp: holding_def)
  show ?thesis
    unfolding open_serial_def
    by (rule triple_bind [OF hlp])
      ((rule quiet_bind_triple, (intro quiets), erule held) | (rule res, simp))+
qed

lemma drop_serial_closes:
  assumes "holding [JavaHelper (sa_helper m)] s" "drop_serial J m s = (r, s')"
  shows "held (trace s') = Some [] \<or> held (trace s') = Some [JavaHelper (sa_helper m)] \<and> last (trace s') = (AttachThread, None)"
proof (cases "fst (ref_call J AttachThread (world s))")
  case (Inl e)
  with assms show ?thesis
    by (auto simp: drop_serial_def holding_def ref_io_def logged_def outcome_def held_snoc Let_def split: prod.splits)
next
  case (Inr x)
  let ?close = "value_io J (CallMethod (sa_helper m) ''close'' []) []"
  define s1 where "s1 = snd (ref_io J AttachThread [] s)"
  have s1: "holding [JavaHelper (sa_helper m)] s1"
    using assms(1) by (simp add: s1_def ref_io_def holding_def case_prod_beta Let_def quiet_logged quiets)
  have "triple (holding [JavaHelper (sa_helper m)]) ?close (\<lambda>_. holding []) (holding [])"
    by (rule tripleI) (auto simp: value_io_def logged_def holding_def held_snoc Let_def split: prod.splits)
  then have "triple (holding [JavaHelper (sa_helper m)])
      (ignore (on_error ?close (describe_and_clear_exception J))) (\<lambda>_. holding []) (\<lambda>_. False)"
    by (intro triple_ignore triple_on_error [OF _ quiet_triple] quiets)
  moreover have "ignore (on_error ?close (describe_and_clear_exception J)) s1 = (r, s')"
    using assms Inr by (simp add: drop_serial_def holding_def s1_def ref_io_def case_prod_beta Let_def)
  ultimately have "holding [] s'" using s1 by (cases r) (auto dest: triple_Inl triple_Inr)
  then show ?thesis by (simp add: holding_def)
qed

section \<open>A device that is gone\<close>

definition failing :: "32 word option \<Rightarrow> bool" where
  "failing status \<longleftrightarrow> (case status of None \<Rightarrow> True | Some v \<Rightarrow> sint v < 0)"

lemma poll_once_failing: "failing status \<Longrightarrow> poll_once dpin dapin now status p = poll_failed p"
  by (simp add: failing_def poll_once_def split: option.splits)

lemma poll_turns_stopped: "\<not> polling p \<Longrightarrow> poll_turns dpin dapin ts p = p"
  by (cases ts) auto

lemma poll_turns_failing:
  assumes "polling p" "consecutive_errors p < MAX_ERRORS" "list_all (\<lambda>(now, status). failing status) fails"
    "MAX_ERRORS \<le> consecutive_errors p + length fails"
  shows "poll_turns dpin dapin (fails @ rest) p = p\<lparr>consecutive_errors := MAX_ERRORS, polling := False\<rparr>"
  using assms
proof (induction fails arbitrary: p)
  case (Cons f fails)
  obtain now status where f: "f = (now, status)" by (cases f)
  let ?p = "p\<lparr>consecutive_errors := consecutive_errors p + 1\<rparr>"
  have p: "snd (poll_once dpin dapin now status p) =
      (if MAX_ERRORS \<le> consecutive_errors p + 1 then ?p\<lparr>polling := False\<rparr> else ?p)"
    using Cons.prems(3) by (simp add: f poll_once_failing poll_failed_def Let_def)
  show ?case
  proof (cases "MAX_ERRORS \<le> consecutive_errors p + 1")
    case True
    then have "consecutive_errors p + 1 = MAX_ERRORS" using Cons.prems(2) by simp
    then show ?thesis using Cons.prems(1) p True by (simp add: f poll_turns_stopped)
  next
    case False
    then show ?thesis using Cons.prems Cons.IH [of ?p] p by (simp add: f)
  qed
qed simp

text \<open>C37: When the USB device disappears (fifty polls in a row fail), the polling thread ends and the
  paddles keep the state of the last good poll: a paddle that was down then is down in every later
  wait, even if the device answers again, so the keyer goes on keying.\<close>

theorem unplugged_paddle_stays_down:
  assumes "polling p" "consecutive_errors p < MAX_ERRORS" "list_all (\<lambda>(now, status). failing status) fails"
    and "MAX_ERRORS \<le> consecutive_errors p + length fails"
  shows "(let q = poll_turns dpin dapin (fails @ rest) p
    in \<not> polling q \<and> sp_shared q = sp_shared p \<and>
      (\<forall>seen timed_out ret. shared_wake seen timed_out (sp_shared q) = Some ret \<longrightarrow>
         dit ret = ms_dit (sp_shared p) \<and> dash ret = ms_dash (sp_shared p)))"
  by (auto simp: poll_turns_failing [OF assms] shared_wake_def shared_paddle_def Let_def split: if_splits)

theorem unplugged_paddle_stays_down_witness:
  "(let p = poll_turns CTS DSR [(1, Some 1)] (new_serial_poll (new_shared 0) 0);
        q = poll_turns CTS DSR (replicate 50 (2, None) @ [(3, Some 0)]) p
    in ms_dit (sp_shared p) \<and> \<not> polling q \<and> (\<forall>ret. shared_wake 0 True (sp_shared q) = Some ret \<longrightarrow> dit ret))"
proof -
  let ?p = "poll_turns CTS DSR [(1, Some 1)] (new_serial_poll (new_shared 0) 0)"
  have p: "polling ?p" "consecutive_errors ?p < MAX_ERRORS" "ms_dit (sp_shared ?p)" "consecutive_errors ?p = 0"
    by code_simp+
  have "list_all (\<lambda>(now, status). failing status) (replicate 50 (2 :: nat, None))"
    by (simp add: list_all_iff failing_def)
  moreover have "MAX_ERRORS \<le> consecutive_errors ?p + length (replicate 50 (2 :: nat, None :: 32 word option))"
    by (simp add: p(4) MAX_ERRORS_def del: poll_turns.simps)
  ultimately show ?thesis
    using unplugged_paddle_stays_down [OF p(1,2), of "replicate 50 (2, None)" CTS DSR "[(3, Some 0)]"] p(3)
    by (simp add: Let_def del: poll_turns.simps)
qed

end
