(* ===== verification/Sidetone.thy ===== *)
theory Sidetone
  imports Radio_Float
begin

text \<open>
  \<^verbatim>\<open>crates/radio-utils-keyer/src/sidetone.rs\<close>: the oscillator with its raised-cosine envelope. The
  sine and cosine of the \<^verbatim>\<open>libm\<close> crate are the arguments \<open>lsin\<close> and \<open>lcos\<close>, with the documented
  laws \<open>trig_laws\<close>. Audio samples are \<^verbatim>\<open>f32\<close>. \<open>sidetone_fades_out\<close>: under any use the tone is
  silent, exactly, 5.4 ms after the key is released.
\<close>

section \<open>The oscillator\<close>

record Sidetone =
  phase :: fval
  phase_inc :: fval
  st_sample_rate :: fval
  frequency :: fval
  volume :: fval
  st_key_down :: bool
  envelope :: fval
  ramp_pos :: fval
  ramp_inc :: fval
  delay_samples :: int

text \<open>\<^verbatim>\<open>core::f64::consts::PI\<close>.\<close>

definition F64_PI :: fval where
  "F64_PI = Fin (884279719003555 / 2 ^ 48)"

definition RISE_TIME_SECS :: fval where
  "RISE_TIME_SECS = f64_round (5 / 1000)"

abbreviation f32_add :: "fval \<Rightarrow> fval \<Rightarrow> fval" where
  "f32_add \<equiv> fl_add f32_round"
abbreviation f32_mul :: "fval \<Rightarrow> fval \<Rightarrow> fval" where
  "f32_mul \<equiv> fl_mul f32_round"

text \<open>\<^verbatim>\<open>x as f32\<close>.\<close>

fun f64_as_f32 :: "fval \<Rightarrow> fval" where
  "f64_as_f32 (Fin x) = f32_round x"
| "f64_as_f32 x = x"

definition phase_increment :: "fval \<Rightarrow> fval \<Rightarrow> fval" where
  "phase_increment freq rate = f64_div (f64_mul (f64_mul (Fin 2) F64_PI) freq) rate"

definition ramp_increment :: "fval \<Rightarrow> fval" where
  "ramp_increment rate = f64_div (Fin 1) (f64_mul RISE_TIME_SECS rate)"

definition new_sidetone :: "fval \<Rightarrow> fval \<Rightarrow> Sidetone" where
  "new_sidetone freq rate = \<lparr>phase = Fin 0, phase_inc = phase_increment freq rate, st_sample_rate = rate,
     frequency = freq, volume = Fin (1 / 2), st_key_down = False, envelope = Fin 0, ramp_pos = Fin 0,
     ramp_inc = ramp_increment rate, delay_samples = 0\<rparr>"

definition set_frequency :: "fval \<Rightarrow> Sidetone \<Rightarrow> Sidetone" where
  "set_frequency freq s = s\<lparr>frequency := freq, phase_inc := phase_increment freq (st_sample_rate s)\<rparr>"

definition set_volume :: "fval \<Rightarrow> Sidetone \<Rightarrow> Sidetone" where
  "set_volume v s = s\<lparr>volume := fl_clamp (Fin 0) (Fin 1) v\<rparr>"

definition set_delay_ms :: "int \<Rightarrow> Sidetone \<Rightarrow> Sidetone" where
  "set_delay_ms ms s =
     s\<lparr>delay_samples := f64_as_i32 (f64_mul (f64_div (f64_of_int ms) (Fin 1000)) (st_sample_rate s))\<rparr>"

definition tone_key_down :: "Sidetone \<Rightarrow> Sidetone" where
  "tone_key_down s = s\<lparr>st_key_down := True\<rparr>"

definition tone_key_up :: "Sidetone \<Rightarrow> Sidetone" where
  "tone_key_up s = s\<lparr>st_key_down := False\<rparr>"

definition set_tone_rate :: "fval \<Rightarrow> Sidetone \<Rightarrow> Sidetone" where
  "set_tone_rate rate s =
     s\<lparr>st_sample_rate := rate, phase_inc := phase_increment (frequency s) rate, ramp_inc := ramp_increment rate\<rparr>"

text \<open>One sample of the loop of \<open>process\<close>.\<close>

definition process_sample ::
  "(fval \<Rightarrow> fval) \<Rightarrow> (fval \<Rightarrow> fval) \<Rightarrow> fval \<Rightarrow> Sidetone \<Rightarrow> fval \<times> Sidetone" where
  "process_sample lsin lcos sample s =
     (let s = (if st_key_down s
               then s\<lparr>ramp_pos := fl_min (f64_add (ramp_pos s) (ramp_inc s)) (Fin 1)\<rparr>
               else s\<lparr>ramp_pos := fl_max (f64_sub (ramp_pos s) (ramp_inc s)) (Fin 0)\<rparr>);
          s = s\<lparr>envelope := f64_mul (Fin (1 / 2)) (f64_sub (Fin 1) (lcos (f64_mul F64_PI (ramp_pos s))))\<rparr>;
          tone = f64_as_f32 (lsin (phase s));
          sample = f32_add sample (f32_mul (f32_mul tone (f64_as_f32 (envelope s))) (volume s));
          ph = f64_add (phase s) (phase_inc s);
          two_pi = f64_mul (Fin 2) F64_PI
      in (sample, s\<lparr>phase := (if fl_le two_pi ph then f64_sub ph two_pi else ph)\<rparr>))"

fun process :: "(fval \<Rightarrow> fval) \<Rightarrow> (fval \<Rightarrow> fval) \<Rightarrow> fval list \<Rightarrow> Sidetone \<Rightarrow> fval list \<times> Sidetone" where
  "process lsin lcos [] s = ([], s)"
| "process lsin lcos (x # xs) s =
     (let (y, s) = process_sample lsin lcos x s; (ys, s) = process lsin lcos xs s in (y # ys, s))"

definition trig_laws :: "(fval \<Rightarrow> fval) \<Rightarrow> (fval \<Rightarrow> fval) \<Rightarrow> bool" where
  "trig_laws lsin lcos \<longleftrightarrow> lcos (Fin 0) = Fin 1 \<and> (\<forall>x. \<exists>y. lsin (Fin x) = Fin y \<and> \<bar>y\<bar> \<le> 1)"

section \<open>The state in use\<close>

text \<open>Rates from 8 to 192 kHz, tones up to 4 kHz.\<close>

fun usable_rate :: "fval \<Rightarrow> bool" where
  "usable_rate (Fin r) \<longleftrightarrow> 8000 \<le> r \<and> r \<le> 192000"
| "usable_rate _ \<longleftrightarrow> False"

fun usable_tone :: "fval \<Rightarrow> bool" where
  "usable_tone (Fin f) \<longleftrightarrow> 0 \<le> f \<and> f \<le> 4000"
| "usable_tone _ \<longleftrightarrow> False"

definition tone_ok :: "Sidetone \<Rightarrow> bool" where
  "tone_ok s \<longleftrightarrow> usable_tone (frequency s) \<and>
     (\<exists>r c. st_sample_rate s = Fin r \<and> usable_rate (Fin r) \<and> ramp_inc s = Fin c \<and> 1 \<le> c * (53 / 10000 * r) \<and> c \<le> 1) \<and>
     (\<exists>x. ramp_pos s = Fin x \<and> 0 \<le> x \<and> x \<le> 1) \<and>
     (\<exists>i. phase_inc s = Fin i \<and> 0 \<le> i \<and> i \<le> 4) \<and>
     (\<exists>p. phase s = Fin p \<and> 0 \<le> p \<and> p \<le> 2 * (884279719003555 / 2 ^ 48)) \<and>
     (\<exists>v. volume s = Fin v \<and> 0 \<le> v \<and> v \<le> 1)"

lemma two_pi: "f64_mul (Fin 2) F64_PI = Fin (2 * (884279719003555 / 2 ^ 48))"
  using f64_round_dyadic [of "884279719003555" 47] by (simp add: F64_PI_def)

lemma phase_increment_ok:
  assumes "usable_tone freq" "usable_rate rate"
  shows "\<exists>i. phase_increment freq rate = Fin i \<and> 0 \<le> i \<and> i \<le> 4"
proof -
  obtain f r where fr: "freq = Fin f" "rate = Fin r" "0 \<le> f" "f \<le> 4000" "8000 \<le> r"
    using assms by (cases freq; cases rate) auto
  have "2 * (884279719003555 / 2 ^ 48) * f \<le> 2 * (884279719003555 / 2 ^ 48) * 4000"
    using fr(4) by (rule mult_left_mono) simp
  also have "\<dots> \<le> 26000" by simp
  finally have "2 * (884279719003555 / 2 ^ 48) * f \<le> of_int 26000" by simp
  then have "\<exists>y. f64_round (2 * (884279719003555 / 2 ^ 48) * f) = Fin y \<and> of_int 0 \<le> y \<and> y \<le> of_int 26000"
    using fr(3) by (intro f64_round_between_int) simp_all
  then obtain y where y: "f64_round (2 * (884279719003555 / 2 ^ 48) * f) = Fin y" "0 \<le> y" "y \<le> 26000" by auto
  have "y / r \<le> 26000 / 8000" using y fr by (intro frac_le) simp_all
  also have "\<dots> \<le> of_int 4" by simp
  finally have "y / r \<le> of_int 4" .
  then have "\<exists>i. f64_round (y / r) = Fin i \<and> of_int 0 \<le> i \<and> i \<le> of_int 4"
    using y fr by (intro f64_round_between_int) simp_all
  then show ?thesis using y fr by (auto simp: phase_increment_def two_pi)
qed

lemma ramp_increment_ok:
  assumes "usable_rate (Fin r)"
  shows "\<exists>c. ramp_increment (Fin r) = Fin c \<and> 1 \<le> c * (53 / 10000 * r) \<and> c \<le> 1"
proof -
  have r: "8000 \<le> r" "r \<le> 192000" using assms by simp_all
  have "\<bar>5 / 1000\<bar> < (2 :: rat) powi (-7)" by (simp add: power_int_def power_divide)
  from f64_round_error [OF this] obtain c where c: "f64_round (5 / 1000) = Fin c" "\<bar>c - 5 / 1000\<bar> \<le> 2 powi (-61)" by auto
  have "(2 :: rat) powi (-61) \<le> 1 / 10000" by (simp add: power_int_def power_divide)
  with c(2) have c': "49 / 10000 \<le> c" "c \<le> 51 / 10000" unfolding abs_le_iff by linarith+
  have cr: "39 \<le> c * r" "c * r \<le> 1000" "c * r \<le> 51 / 10000 * r"
  proof -
    have "(49 / 10000) * 8000 \<le> c * r" using c' r by (intro mult_mono) simp_all
    then show "39 \<le> c * r" by simp
    have "c * r \<le> (51 / 10000) * 192000" using c' r by (intro mult_mono) simp_all
    then show "c * r \<le> 1000" by simp
    show "c * r \<le> 51 / 10000 * r" using c' r by (intro mult_right_mono) simp_all
  qed
  have "- (2 ^ 26) < c * r" "c * r < 2 ^ 26" using cr by simp_all
  from f64_round_close [OF this] obtain d where d: "f64_round (c * r) = Fin d" "c * r - 1 / 100000 \<le> d"
    "d \<le> c * r + 1 / 100000" by blast
  have d': "38 \<le> d" "d \<le> 52 / 10000 * r" using d(2,3) cr r by linarith+
  have "1 / d \<le> 1 / 38" using d' by (intro frac_le) simp_all
  moreover have "(2 :: rat) powi (-5) = 1 / 32" by (simp add: power_int_def power_divide)
  ultimately have "\<bar>1 / d\<bar> < 2 powi (-5)" using d' by simp
  from f64_round_error [OF this] obtain q where q: "f64_round (1 / d) = Fin q" "\<bar>q - 1 / d\<bar> \<le> 2 powi (-59)" by auto
  have "(2 :: rat) powi (-59) = 1 / 2 ^ 59" by (simp add: power_int_def power_divide)
  then have q': "q \<le> 1 / d + 1 / 2 ^ 59" "1 / d - 1 / 2 ^ 59 \<le> q" using q(2) unfolding abs_le_iff by linarith+
  then have "q \<le> 1" using \<open>1 / d \<le> 1 / 38\<close> by simp
  have "1 / (52 / 10000 * r) \<le> 1 / d" using d' by (intro frac_le) simp_all
  then have "1 / (52 / 10000 * r) - 1 / 2 ^ 59 \<le> q" using q'(2) by simp
  then have "(1 / (52 / 10000 * r) - 1 / 2 ^ 59) * (53 / 10000 * r) \<le> q * (53 / 10000 * r)"
    using r by (intro mult_right_mono) simp_all
  moreover have "(1 / (52 / 10000 * r) - 1 / 2 ^ 59) * (53 / 10000 * r) = 53 / 52 - 53 / 10000 * r / 2 ^ 59"
    using r by (simp add: field_simps)
  moreover have "1 \<le> 53 / 52 - 53 / 10000 * r / 2 ^ 59" using r by simp
  ultimately have "1 \<le> q * (53 / 10000 * r)" by linarith
  then show ?thesis using d(1) d' q(1) \<open>q \<le> 1\<close> c(1) by (simp add: ramp_increment_def RISE_TIME_SECS_def)
qed

lemma new_tone_ok: "usable_tone f \<Longrightarrow> usable_rate r \<Longrightarrow> tone_ok (new_sidetone f r)"
  using phase_increment_ok [of f r] ramp_increment_ok
  by (cases r) (auto simp: tone_ok_def new_sidetone_def intro!: exI [of _ "1 / 2 :: rat"])

text \<open>Any use of the oscillator: settings in range, the key, blocks of samples.\<close>

datatype tone_op = Frequency fval | Volume fval | DelayMs int | KeyDownOp | KeyUpOp | Rate fval | Process "fval list"

fun tone_step :: "(fval \<Rightarrow> fval) \<Rightarrow> (fval \<Rightarrow> fval) \<Rightarrow> tone_op \<Rightarrow> Sidetone \<Rightarrow> Sidetone" where
  "tone_step lsin lcos (Frequency f) s = set_frequency f s"
| "tone_step lsin lcos (Volume v) s = set_volume v s"
| "tone_step lsin lcos (DelayMs ms) s = set_delay_ms ms s"
| "tone_step lsin lcos KeyDownOp s = tone_key_down s"
| "tone_step lsin lcos KeyUpOp s = tone_key_up s"
| "tone_step lsin lcos (Rate r) s = set_tone_rate r s"
| "tone_step lsin lcos (Process xs) s = snd (process lsin lcos xs s)"

fun tone_op_ok :: "tone_op \<Rightarrow> bool" where
  "tone_op_ok (Frequency f) \<longleftrightarrow> usable_tone f"
| "tone_op_ok (Volume v) \<longleftrightarrow> v \<noteq> NaN"
| "tone_op_ok (Rate r) \<longleftrightarrow> usable_rate r"
| "tone_op_ok _ \<longleftrightarrow> True"

lemma step_down:
  assumes "0 \<le> x" "x \<le> 1" "0 \<le> c" "c \<le> 1"
  shows "\<exists>y. fl_max (f64_sub (Fin x) (Fin c)) (Fin 0) = Fin y \<and> 0 \<le> y \<and> y \<le> 1 \<and> y \<le> max 0 (x - c + 1 / 2 ^ 53)"
proof -
  have "\<bar>x - c\<bar> < 2 powi 1" using assms by simp
  from f64_round_error [OF this] obtain y where y: "f64_round (x - c) = Fin y" "\<bar>y - (x - c)\<bar> \<le> 2 powi (-53)" by auto
  have "\<exists>y. f64_round (x - c) = Fin y \<and> of_int (-1) \<le> y \<and> y \<le> of_int 1"
    using assms by (intro f64_round_between_int) simp_all
  moreover have e: "(2 :: rat) powi (-53) = 1 / 2 ^ 53" by (simp add: power_int_def power_divide)
  moreover from e y(2) have "y \<le> max 0 (x - c + 1 / 2 ^ 53)" unfolding abs_le_iff by linarith
  ultimately show ?thesis using y(1) by (auto simp: fl_max_def)
qed

lemma step_up:
  assumes "0 \<le> x" "x \<le> 1" "0 \<le> c" "c \<le> 1"
  shows "\<exists>y. fl_min (f64_add (Fin x) (Fin c)) (Fin 1) = Fin y \<and> 0 \<le> y \<and> y \<le> 1"
proof -
  have "\<exists>y. f64_round (x + c) = Fin y \<and> of_int 0 \<le> y \<and> y \<le> of_int 2"
    using assms by (intro f64_round_between_int) simp_all
  then show ?thesis by (auto simp: fl_min_def)
qed

text \<open>The phase stays within a turn.\<close>

lemma phase_step:
  assumes "0 \<le> p" "p \<le> 2 * (884279719003555 / 2 ^ 48)" "0 \<le> i" "i \<le> 4"
  shows "\<exists>q. (let ph = f64_add (Fin p) (Fin i); two_pi = f64_mul (Fin 2) F64_PI
      in if fl_le two_pi ph then f64_sub ph two_pi else ph) = Fin q \<and> 0 \<le> q \<and> q \<le> 2 * (884279719003555 / 2 ^ 48)"
proof -
  let ?t = "2 * (884279719003555 / 2 ^ 48) :: rat"
  have "\<exists>y. f64_round (p + i) = Fin y \<and> of_int 0 \<le> y \<and> y \<le> of_int 11"
    using assms by (intro f64_round_between_int) simp_all
  then obtain y where y: "f64_round (p + i) = Fin y" "0 \<le> y" "y \<le> 11" by auto
  show ?thesis
  proof (cases "?t \<le> y")
    case True
    then have "\<exists>q. f64_round (y - ?t) = Fin q \<and> of_int 0 \<le> q \<and> q \<le> of_int 5"
      using y(3) by (intro f64_round_between_int) simp_all
    then show ?thesis using True y two_pi by (auto simp: Let_def fl_le_def)
  next
    case False
    then show ?thesis using y two_pi by (auto simp: Let_def fl_le_def)
  qed
qed

lemma process_sample_fields:
  "frequency (snd (process_sample lsin lcos x s)) = frequency s"
  "st_sample_rate (snd (process_sample lsin lcos x s)) = st_sample_rate s"
  "phase_inc (snd (process_sample lsin lcos x s)) = phase_inc s"
  "ramp_inc (snd (process_sample lsin lcos x s)) = ramp_inc s"
  "volume (snd (process_sample lsin lcos x s)) = volume s"
  "st_key_down (snd (process_sample lsin lcos x s)) = st_key_down s"
  "ramp_pos (snd (process_sample lsin lcos x s)) = (if st_key_down s
     then fl_min (f64_add (ramp_pos s) (ramp_inc s)) (Fin 1) else fl_max (f64_sub (ramp_pos s) (ramp_inc s)) (Fin 0))"
  "phase (snd (process_sample lsin lcos x s)) = (let ph = f64_add (phase s) (phase_inc s); two_pi = f64_mul (Fin 2) F64_PI
      in if fl_le two_pi ph then f64_sub ph two_pi else ph)"
  by (simp_all add: process_sample_def Let_def)

lemma tone_ok_sample:
  assumes "tone_ok s"
  shows "tone_ok (snd (process_sample lsin lcos x s))"
proof -
  obtain r c z i p v where s: "usable_tone (frequency s)" "st_sample_rate s = Fin r" "usable_rate (Fin r)"
    "ramp_inc s = Fin c" "1 \<le> c * (53 / 10000 * r)" "c \<le> 1" "ramp_pos s = Fin z" "0 \<le> z" "z \<le> 1"
    "phase_inc s = Fin i" "0 \<le> i" "i \<le> 4" "phase s = Fin p" "0 \<le> p" "p \<le> 2 * (884279719003555 / 2 ^ 48)"
    "volume s = Fin v" "0 \<le> v" "v \<le> 1"
    using assms unfolding tone_ok_def by blast
  have "0 \<le> c"
  proof (rule ccontr)
    assume "\<not> 0 \<le> c"
    then have "c * (53 / 10000 * r) \<le> 0" using s(3) by (intro mult_nonpos_nonneg) simp_all
    then show False using s(5) by simp
  qed
  show ?thesis
    unfolding tone_ok_def process_sample_fields
    using s phase_step [OF s(14,15,11,12)] step_up [OF s(8,9) \<open>0 \<le> c\<close> s(6)] step_down [OF s(8,9) \<open>0 \<le> c\<close> s(6)]
    by (simp del: fl_add.simps fl_neg.simps add: s(4,7,10,13)) blast
qed

lemma tone_ok_process: "tone_ok s \<Longrightarrow> tone_ok (snd (process lsin lcos xs s))"
  by (induction xs arbitrary: s) (simp_all add: tone_ok_sample case_prod_beta Let_def)

lemma process_keeps:
  "st_key_down (snd (process lsin lcos xs s)) = st_key_down s" "ramp_inc (snd (process lsin lcos xs s)) = ramp_inc s"
  by (induction xs arbitrary: s) (simp_all add: process_sample_fields case_prod_beta Let_def)

lemma process_append: "process lsin lcos (xs @ ys) s =
    (let (as, s) = process lsin lcos xs s; (bs, s) = process lsin lcos ys s in (as @ bs, s))"
  by (induction xs arbitrary: s) (simp_all add: case_prod_beta Let_def)

lemma tone_ok_step: "tone_ok s \<Longrightarrow> tone_op_ok op \<Longrightarrow> tone_ok (tone_step lsin lcos op s)"
proof (induction op)
  case (Frequency f)
  then obtain r where "st_sample_rate s = Fin r" "usable_rate (Fin r)" by (auto simp: tone_ok_def)
  moreover from this Frequency(2) have "\<exists>i. phase_increment f (Fin r) = Fin i \<and> 0 \<le> i \<and> i \<le> 4"
    by (intro phase_increment_ok) simp_all
  ultimately show ?case using Frequency by (simp add: tone_ok_def set_frequency_def)
next
  case (Volume v)
  then show ?case by (cases v) (auto simp: tone_ok_def set_volume_def fl_clamp_def)
next
  case (Rate r)
  moreover obtain r' where "r = Fin r'" using Rate(2) by (cases r) simp_all
  moreover have "\<exists>i. phase_increment (frequency s) r = Fin i \<and> 0 \<le> i \<and> i \<le> 4"
    using Rate by (intro phase_increment_ok) (simp_all add: tone_ok_def)
  ultimately show ?case using ramp_increment_ok [of r'] by (simp add: tone_ok_def set_tone_rate_def)
next
  case (Process xs)
  then show ?case by (simp add: tone_ok_process)
qed (simp_all add: tone_ok_def set_delay_ms_def tone_key_down_def tone_key_up_def)

lemma tone_ok_steps:
  "tone_ok s \<Longrightarrow> list_all tone_op_ok ops \<Longrightarrow> tone_ok (fold (tone_step lsin lcos) ops s)"
  by (induction ops arbitrary: s) (simp_all add: tone_ok_step)

section \<open>Silence after the key\<close>

lemma ramp_down:
  "\<lbrakk>tone_ok s; \<not> st_key_down s; ramp_inc s = Fin c; ramp_pos s = Fin x; 1 / 2 ^ 53 \<le> c\<rbrakk> \<Longrightarrow>
    \<exists>y. ramp_pos (snd (process lsin lcos xs s)) = Fin y \<and> 0 \<le> y \<and>
      y \<le> max 0 (x - of_nat (length xs) * (c - 1 / 2 ^ 53))"
proof (induction xs arbitrary: s x)
  case Nil
  then show ?case by (auto simp: tone_ok_def)
next
  case (Cons a xs)
  let ?s = "snd (process_sample lsin lcos a s)" and ?d = "c - 1 / 2 ^ 53"
  have "0 \<le> x" "x \<le> 1" "c \<le> 1" "0 \<le> c"
    using Cons.prems by (auto simp: tone_ok_def intro: order_trans [of _ "1 / 2 ^ 53"])
  from step_down [OF this(1,2,4,3)] obtain y where y: "ramp_pos ?s = Fin y" "y \<le> max 0 (x - c + 1 / 2 ^ 53)"
    using Cons.prems by (auto simp: process_sample_fields)
  obtain z where z: "ramp_pos (snd (process lsin lcos xs ?s)) = Fin z" "0 \<le> z" "z \<le> max 0 (y - of_nat (length xs) * ?d)"
    using Cons.IH [of ?s y] y Cons.prems tone_ok_sample [of s lsin lcos a] by (auto simp: process_sample_fields)
  have "0 \<le> of_nat (length xs) * ?d" using Cons.prems(5) by simp
  then have "z \<le> max 0 (x - (?d + of_nat (length xs) * ?d))" using y(2) z(3) by linarith
  moreover have "?d + of_nat (length xs) * ?d = of_nat (length (a # xs)) * ?d" by (simp add: algebra_simps add_divide_distrib)
  ultimately have "z \<le> max 0 (x - of_nat (length (a # xs)) * ?d)" by simp
  moreover have "ramp_pos (snd (process lsin lcos (a # xs) s)) = Fin z" using z(1) by (simp add: case_prod_beta Let_def)
  ultimately show ?case using z(2) by blast
qed

lemma f32_unit: "\<bar>y\<bar> \<le> 1 \<Longrightarrow> \<exists>z. f32_round y = Fin z"
proof -
  assume "\<bar>y\<bar> \<le> 1"
  then have y: "of_int (-1) \<le> y" "y \<le> of_int 1" by auto
  have "(1 :: rat) < 2 powi 128" by (simp add: power_int_def)
  with fl_round_between [OF y, of 24 "-149" 128] show ?thesis
    using on_grid_of_int [of "-1" 24 "-149"] on_grid_of_int [of 1 24 "-149"] by (auto simp: f32_round_def)
qed

text \<open>An \<^verbatim>\<open>f32\<close> sample of an audio buffer.\<close>

fun f32_sample :: "fval \<Rightarrow> bool" where
  "f32_sample (Fin x) \<longleftrightarrow> f32_round x = Fin x"
| "f32_sample _ \<longleftrightarrow> False"

lemma silent_sample:
  assumes "trig_laws lsin lcos" "tone_ok s" "\<not> st_key_down s" "ramp_inc s = Fin c" "1 / 2 ^ 53 \<le> c"
    "ramp_pos s = Fin 0" "f32_sample x"
  shows "fst (process_sample lsin lcos x s) = x \<and> ramp_pos (snd (process_sample lsin lcos x s)) = Fin 0"
proof -
  have c: "0 \<le> c" "c \<le> 1" using assms(2,4,5) by (auto simp: tone_ok_def intro: order_trans [of _ "1 / 2 ^ 53"])
  have ramp: "fl_max (f64_sub (Fin 0) (Fin c)) (Fin 0) = Fin 0"
    using step_down [of 0 c] c assms(5) by auto
  obtain p v where p: "phase s = Fin p" "volume s = Fin v" using assms(2) by (auto simp: tone_ok_def)
  obtain y where y: "lsin (Fin p) = Fin y" "\<bar>y\<bar> \<le> 1" using assms(1) by (auto simp: trig_laws_def)
  obtain z where z: "f32_round y = Fin z" using f32_unit [OF y(2)] by blast
  have zero: "f64_round 0 = Fin 0" "f32_round 0 = Fin 0" by (simp_all add: f64_round_def f32_round_def fl_round_def)
  have "lcos (f64_mul F64_PI (Fin 0)) = Fin 1" using assms(1) zero by (simp add: trig_laws_def F64_PI_def)
  moreover obtain w where "x = Fin w" "f32_round w = Fin w" using assms(7) by (cases x) simp_all
  ultimately show ?thesis
    using assms(3,4,6) ramp p y(1) z zero
    by (simp add: process_sample_def Let_def del: fl_add.simps(1) fl_neg.simps) (simp add: zero)
qed

lemma silent_process:
  "\<lbrakk>trig_laws lsin lcos; tone_ok s; \<not> st_key_down s; ramp_inc s = Fin c; 1 / 2 ^ 53 \<le> c; ramp_pos s = Fin 0;
    list_all f32_sample xs\<rbrakk> \<Longrightarrow> fst (process lsin lcos xs s) = xs"
proof (induction xs arbitrary: s)
  case (Cons x xs)
  let ?s = "snd (process_sample lsin lcos x s)"
  have "fst (process_sample lsin lcos x s) = x" "ramp_pos ?s = Fin 0"
    using silent_sample [of lsin lcos s c x] Cons.prems by simp_all
  moreover from this(2) have "fst (process lsin lcos xs ?s) = xs"
    using Cons.prems tone_ok_sample [of s lsin lcos x] by (intro Cons.IH) (simp_all add: process_sample_fields)
  ultimately show ?case by (simp add: case_prod_beta Let_def)
qed simp

text \<open>C39: After any sequence of settings, key changes and blocks, once the key is released: the samples
  processed later than 5.4 ms after the release are left exactly as they are, for every sample rate
  from 8 to 192 kHz.
\<close>

theorem sidetone_fades_out:
  assumes "trig_laws lsin lcos" "usable_tone f" "usable_rate rate" "list_all tone_op_ok ops"
    and "s = tone_key_up (fold (tone_step lsin lcos) ops (new_sidetone f rate))" "st_sample_rate s = Fin r"
    and "54 / 10000 * r \<le> of_nat (length before)" "list_all f32_sample samples"
  shows "fst (process lsin lcos (before @ samples) s) = fst (process lsin lcos before s) @ samples"
proof -
  have ok: "tone_ok s" "\<not> st_key_down s"
    using tone_ok_steps [OF new_tone_ok [OF assms(2,3)] assms(4), of lsin lcos]
    by (simp_all add: assms(5) tone_ok_def tone_key_up_def)
  obtain c x where c: "ramp_inc s = Fin c" "1 \<le> c * (53 / 10000 * r)" "ramp_pos s = Fin x" "x \<le> 1"
    and r: "8000 \<le> r" "r \<le> 192000"
    using ok(1) assms(6) by (auto simp: tone_ok_def)
  let ?d = "c - 1 / 2 ^ 53" and ?m = "54 / 10000 * r"
  have "54 / 53 \<le> c * ?m" using c(2) by simp
  moreover have "?m / 2 ^ 53 \<le> 1 / 53" using r by simp
  moreover have "?d * ?m = c * ?m - ?m / 2 ^ 53" by (simp add: algebra_simps)
  ultimately have dm: "1 \<le> ?d * ?m" by linarith
  have d: "1 / 2 ^ 53 \<le> c"
  proof (rule ccontr)
    assume "\<not> 1 / 2 ^ 53 \<le> c"
    then have "?d * ?m \<le> 0" using r by (intro mult_nonpos_nonneg) simp_all
    then show False using dm by linarith
  qed
  then have "?d * ?m \<le> of_nat (length before) * ?d"
    using assms(7) by (subst mult.commute) (intro mult_right_mono, simp_all)
  then have "x - of_nat (length before) * ?d \<le> 0" using dm c(4) by linarith
  then have "ramp_pos (snd (process lsin lcos before s)) = Fin 0"
    using ramp_down [OF ok c(1,3) d, of lsin lcos before] by auto
  then have "fst (process lsin lcos samples (snd (process lsin lcos before s))) = samples"
    using silent_process [OF assms(1) tone_ok_process [OF ok(1)] _ _ d _ assms(8)] ok(2) c(1)
    by (simp add: process_keeps)
  then show ?thesis by (simp add: process_append case_prod_beta Let_def)
qed

theorem sidetone_fades_out_witness:
  "last (fst (process (\<lambda>_. Fin (1 / 2)) (\<lambda>x. if x = Fin 0 then Fin 1 else Fin 0) (replicate 260 (Fin 0) @ [Fin 1])
      (tone_key_up (fold (tone_step (\<lambda>_. Fin (1 / 2)) (\<lambda>x. if x = Fin 0 then Fin 1 else Fin 0))
        [Volume (Fin 1), KeyDownOp, Process (replicate 10 (Fin 0))] (new_sidetone (Fin 600) (Fin 48000)))))) = Fin 1"
proof -
  let ?sin = "\<lambda>_ :: fval. Fin (1 / 2)" and ?cos = "\<lambda>x. if x = Fin 0 then Fin 1 else Fin 0"
  let ?ops = "[Volume (Fin 1), KeyDownOp, Process (replicate 10 (Fin 0))]"
  let ?s = "tone_key_up (fold (tone_step ?sin ?cos) ?ops (new_sidetone (Fin 600) (Fin 48000)))"
  have "st_sample_rate (snd (process ?sin ?cos xs s)) = st_sample_rate s" for xs s
    by (induction xs arbitrary: s) (simp_all add: process_sample_fields case_prod_beta Let_def)
  then have rate: "st_sample_rate ?s = Fin 48000"
    by (simp add: tone_key_up_def tone_key_down_def set_volume_def new_sidetone_def)
  have "f32_round 1 = Fin 1" by code_simp
  then have ok: "trig_laws ?sin ?cos" "list_all tone_op_ok ?ops" "list_all f32_sample [Fin 1]"
    by (auto simp: trig_laws_def intro: exI [of _ "1 / 2 :: rat"])
  have "fst (process ?sin ?cos (replicate 260 (Fin 0) @ [Fin 1]) ?s) =
      fst (process ?sin ?cos (replicate 260 (Fin 0)) ?s) @ [Fin 1]"
    by (rule sidetone_fades_out [OF ok(1) _ _ ok(2) refl rate _ ok(3)]) simp_all
  then show ?thesis by (simp only: last_snoc)
qed

end
