(* ===== verification/Proto_Types.thy ===== *)
theory Proto_Types
  imports Radio_Float Radio_Interfaces
begin

text \<open>
  \<^verbatim>\<open>crates/radio-utils-protocol/src/types.rs\<close>: the boards, the sample-rate and filter tables,
  the discovered device and the packing of IQ samples. A slice access out of range panics in
  Rust: the definitions that index a buffer give an option, \<open>None\<close> being the panic. IQ samples
  (\<^verbatim>\<open>num_complex::Complex<f64>\<close>) are pairs of \<^verbatim>\<open>f64\<close> values, of which this file uses only the
  fields. A zero has no sign in \<open>fval\<close>.
\<close>

section \<open>Errors and boards\<close>

datatype ProtocolError = Io string | NoDevicesFound | NotConnected | InvalidPacket string
  | Timeout | ConnectionLost

datatype HpsdrHw = Hermes | HermesLite

fun p1_code :: "HpsdrHw \<Rightarrow> u8" where
  "p1_code Hermes = 1"
| "p1_code HermesLite = 6"

definition from_p1_code :: "u8 \<Rightarrow> HpsdrHw option" where
  "from_p1_code c = (if c = 1 then Some Hermes else if c = 6 then Some HermesLite else None)"

text \<open>\<^verbatim>\<open>to_lowercase\<close> on the characters that matter here: no character outside ASCII lowers to
  one of the letters of the names compared with.\<close>

definition char_lower :: "char \<Rightarrow> char" where
  "char_lower c = (let n = (of_char c :: nat) in if 65 \<le> n \<and> n \<le> 90 then char_of (n + 32) else c)"

definition from_name :: "string \<Rightarrow> HpsdrHw option" where
  "from_name name =
     (let n = map char_lower name
      in if n = ''hermes'' then Some Hermes
         else if n = ''hermeslite'' \<or> n = ''hermeslite2'' then Some HermesLite
         else None)"

definition all_names :: "string list" where
  "all_names = [''hermes'', ''hermeslite'']"

fun max_ddcs :: "HpsdrHw \<Rightarrow> u8" where
  "max_ddcs Hermes = 4"
| "max_ddcs HermesLite = 2"

fun rx_meter_cal_offset :: "HpsdrHw \<Rightarrow> fval" where
  "rx_meter_cal_offset Hermes = Fin (-20)"
| "rx_meter_cal_offset HermesLite = Fin (-19)"

fun show_hw :: "HpsdrHw \<Rightarrow> string" where
  "show_hw Hermes = ''Hermes''"
| "show_hw HermesLite = ''HermesLite''"

section \<open>Sample rates\<close>

definition SAMPLE_RATES_P1 :: "(u32 \<times> u8) list" where
  "SAMPLE_RATES_P1 = [(48000, 0), (96000, 1), (192000, 2), (384000, 3)]"

definition sample_rate_to_p1_code :: "u32 \<Rightarrow> u8" where
  "sample_rate_to_p1_code rate =
     (case find (\<lambda>(r, c). r = rate) SAMPLE_RATES_P1 of Some (r, c) \<Rightarrow> c | None \<Rightarrow> 0)"

definition p1_code_to_sample_rate :: "u8 \<Rightarrow> u32 option" where
  "p1_code_to_sample_rate code =
     (case find (\<lambda>(r, c). c = code) SAMPLE_RATES_P1 of Some (r, c) \<Rightarrow> Some r | None \<Rightarrow> None)"

section \<open>Filters\<close>

definition alex_tx_lpf_for_freq :: "u32 \<Rightarrow> u8" where
  "alex_tx_lpf_for_freq freq_hz =
     (if freq_hz \<le> 2500000 then 0x08
      else if freq_hz \<le> 5000000 then 0x04
      else if freq_hz \<le> 8000000 then 0x02
      else if freq_hz \<le> 16500000 then 0x01
      else if freq_hz \<le> 24000000 then 0x40
      else if freq_hz \<le> 35600000 then 0x20
      else 0x10)"

definition alex_rx_hpf_for_freq :: "u32 \<Rightarrow> u8" where
  "alex_rx_hpf_for_freq freq_hz =
     (if freq_hz < 1500000 then 0x20
      else if freq_hz < 6500000 then 0x10
      else if freq_hz < 9500000 then 0x08
      else if freq_hz < 13000000 then 0x04
      else if freq_hz < 20000000 then 0x01
      else if freq_hz < 50000000 then 0x02
      else 0x42)"

definition n2adr_oc_for_freq :: "u32 \<Rightarrow> u8" where
  "n2adr_oc_for_freq freq_hz =
     (if freq_hz \<le> 2000000 then 1
      else if freq_hz \<le> 4000000 then 66
      else if freq_hz \<le> 8000000 then 68
      else if freq_hz \<le> 15000000 then 72
      else if freq_hz \<le> 22000000 then 80
      else if freq_hz \<le> 30000000 then 96
      else 64)"

section \<open>Devices\<close>

text \<open>An IPv4 socket address.\<close>

type_synonym SocketAddr = "u32 \<times> u16"

record DiscoveredDevice =
  addr :: SocketAddr
  mac :: "u8 list"
  hw_type :: HpsdrHw
  firmware_version :: u8
  num_rxs :: u8
  status_code :: u8

definition hex_digit :: "nat \<Rightarrow> char" where
  "hex_digit n = (if n < 10 then char_of (n + 48) else char_of (n + 87))"

definition hex_byte :: "u8 \<Rightarrow> string" where
  "hex_byte b = [hex_digit (unat b div 16), hex_digit (unat b mod 16)]"

fun intercalate :: "'a list \<Rightarrow> 'a list list \<Rightarrow> 'a list" where
  "intercalate sep [] = []"
| "intercalate sep [x] = x"
| "intercalate sep (x # y # ys) = x @ sep @ intercalate sep (y # ys)"

definition mac_to_string :: "u8 list \<Rightarrow> string" where
  "mac_to_string m = intercalate '':'' (map hex_byte m)"

fun dec_digits :: "nat \<Rightarrow> string" where
  "dec_digits n = (if n < 10 then [char_of (n + 48)]
                   else dec_digits (n div 10) @ [char_of (n mod 10 + 48)])"

definition show_addr :: "SocketAddr \<Rightarrow> string" where
  "show_addr a = (let (b3, b2, b1, b0) = u32_to_be (fst a)
     in intercalate ''.'' (map (\<lambda>b. dec_digits (unat b)) [b3, b2, b1, b0])
        @ '':'' @ dec_digits (unat (snd a)))"

definition show_device :: "DiscoveredDevice \<Rightarrow> string" where
  "show_device d = show_hw (hw_type d) @ '' at '' @ show_addr (addr d) @ '' (MAC='' @
     mac_to_string (mac d) @ '', FW='' @ dec_digits (unat (firmware_version d)) @ '', RXs='' @
     dec_digits (unat (num_rxs d)) @ '')''"

record RadioStatus =
  rs_ptt :: bool
  rs_adc_overflow :: u8
  rs_forward_power :: u16
  rs_reverse_power :: u16
  rs_exciter_power :: u16
  rs_supply_voltage :: u16
  rs_pa_current :: u16

definition default_radio_status :: RadioStatus where
  "default_radio_status = \<lparr>rs_ptt = False, rs_adc_overflow = 0, rs_forward_power = 0,
     rs_reverse_power = 0, rs_exciter_power = 0, rs_supply_voltage = 0, rs_pa_current = 0\<rparr>"

section \<open>IQ samples\<close>

datatype Cx = Cx (re: fval) (im: fval)

text \<open>Three big-endian bytes in the upper 24 bits of an \<^verbatim>\<open>i32\<close>.\<close>

definition i24_high :: "u8 \<Rightarrow> u8 \<Rightarrow> u8 \<Rightarrow> int" where
  "i24_high a b c = sint (push_bit 24 (ucast a :: u32) OR push_bit 16 (ucast b) OR push_bit 8 (ucast c))"

definition unpack_iq_24bit :: "bytes \<Rightarrow> nat \<Rightarrow> Cx option" where
  "unpack_iq_24bit buf offset =
     (if offset + 6 \<le> length buf
      then let i_raw = i24_high (buf ! offset) (buf ! (offset + 1)) (buf ! (offset + 2));
               q_raw = i24_high (buf ! (offset + 3)) (buf ! (offset + 4)) (buf ! (offset + 5))
           in Some (Cx (f64_div (f64_of_int i_raw) (Fin 2147483648))
                       (fl_neg (f64_div (f64_of_int q_raw) (Fin 2147483648))))
      else None)"

definition pack_iq_24bit_into_ex :: "bytes \<Rightarrow> nat \<Rightarrow> Cx \<Rightarrow> bool \<Rightarrow> (bytes \<times> nat) option" where
  "pack_iq_24bit_into_ex buf offset sample negate_q =
     (let max_val = Fin 8388607;
          iv = f64_as_i32 (f64_mul (fl_clamp (Fin (-1)) (Fin 1) (re sample)) max_val);
          q = (if negate_q then fl_neg (im sample) else im sample);
          qv = f64_as_i32 (f64_mul (fl_clamp (Fin (-1)) (Fin 1) q) max_val);
          iu = (word_of_int iv :: u32) AND 0xFFFFFF;
          qu = (word_of_int qv :: u32) AND 0xFFFFFF
      in if offset + 6 \<le> length buf
         then Some (buf[offset := ucast (drop_bit 16 iu AND 0xFF),
                        offset + 1 := ucast (drop_bit 8 iu AND 0xFF),
                        offset + 2 := ucast (iu AND 0xFF),
                        offset + 3 := ucast (drop_bit 16 qu AND 0xFF),
                        offset + 4 := ucast (drop_bit 8 qu AND 0xFF),
                        offset + 5 := ucast (qu AND 0xFF)], offset + 6)
         else None)"

definition pack_iq_24bit_into :: "bytes \<Rightarrow> nat \<Rightarrow> Cx \<Rightarrow> (bytes \<times> nat) option" where
  "pack_iq_24bit_into buf offset sample = pack_iq_24bit_into_ex buf offset sample False"

definition pack_iq_24bit_into_negate_q :: "bytes \<Rightarrow> nat \<Rightarrow> Cx \<Rightarrow> (bytes \<times> nat) option" where
  "pack_iq_24bit_into_negate_q buf offset sample = pack_iq_24bit_into_ex buf offset sample True"

text \<open>\<^verbatim>\<open>i16::from_be_bytes\<close> and \<^verbatim>\<open>to_be_bytes\<close>.\<close>

definition i16_from_be :: "u8 \<Rightarrow> u8 \<Rightarrow> int" where
  "i16_from_be a b = sint (u16_from_be a b)"

definition i16_to_be :: "int \<Rightarrow> u8 \<times> u8" where
  "i16_to_be k = u16_to_be (word_of_int k)"

text \<open>Whole blocks of eight bytes; a rest of fewer bytes is ignored.\<close>

definition unpack_tx_iq_16bit :: "bytes \<Rightarrow> Cx list" where
  "unpack_tx_iq_16bit data =
     (let n_blocks = length data div 8
      in map (\<lambda>k. let off = k * 8;
                       i_val = i16_from_be (data ! (off + 4)) (data ! (off + 5));
                       q_val = i16_from_be (data ! (off + 6)) (data ! (off + 7))
                   in Cx (f64_div (f64_of_int i_val) (Fin 32768))
                         (f64_div (f64_of_int q_val) (Fin 32768))) [0..<n_blocks])"

definition quantize16 :: "fval \<Rightarrow> int" where
  "quantize16 x = f64_as_i16 (f64_mul (fl_clamp (Fin (-1)) (Fin 1) x) (Fin 32767))"

definition pack_tx_iq_16bit :: "Cx list \<Rightarrow> bytes" where
  "pack_tx_iq_16bit samples =
     concat (map (\<lambda>s. let (i0, i1) = i16_to_be (quantize16 (re s));
                           (q0, q1) = i16_to_be (quantize16 (im s))
                       in [0, 0, 0, 0, i0, i1, q0, q1]) samples)"

section \<open>Codes\<close>

interpretation board_code: roundtrip_codec p1_code from_p1_code "\<lambda>_. True"
proof
  fix hw show "from_p1_code (p1_code hw) = Some hw"
    by (cases hw) (simp_all add: from_p1_code_def)
qed

lemma rate_code_table:
  "(r, c) \<in> set SAMPLE_RATES_P1 \<Longrightarrow> sample_rate_to_p1_code r = c \<and> p1_code_to_sample_rate c = Some r"
  by (auto simp: SAMPLE_RATES_P1_def sample_rate_to_p1_code_def p1_code_to_sample_rate_def)

interpretation rate_code: roundtrip_codec sample_rate_to_p1_code p1_code_to_sample_rate
    "\<lambda>r. r \<in> fst ` set SAMPLE_RATES_P1"
  by unfold_locales (use rate_code_table in fastforce)

text \<open>Board codes and sample-rate codes are injective on the boards and the four supported
  rates and decode back to what was encoded; every other code is rejected (and an unsupported
  rate is sent as the code of 48 kHz).\<close>

theorem wire_codes_roundtrip:
  "from_p1_code (p1_code hw) = Some hw \<and>
   (from_p1_code c = Some hw' \<longleftrightarrow> c = p1_code hw') \<and>
   (p1_code_to_sample_rate k = Some r \<longleftrightarrow> (r, k) \<in> set SAMPLE_RATES_P1) \<and>
   sample_rate_to_p1_code r' = (case map_of SAMPLE_RATES_P1 r' of Some c' \<Rightarrow> c' | None \<Rightarrow> 0)"
proof (intro conjI)
  show "from_p1_code (p1_code hw) = Some hw" by (rule board_code.dec_enc) simp
  show "from_p1_code c = Some hw' \<longleftrightarrow> c = p1_code hw'"
    by (cases hw') (auto simp: from_p1_code_def)
  show "p1_code_to_sample_rate k = Some r \<longleftrightarrow> (r, k) \<in> set SAMPLE_RATES_P1"
    by (auto simp: p1_code_to_sample_rate_def SAMPLE_RATES_P1_def split: if_splits)
  show "sample_rate_to_p1_code r' = (case map_of SAMPLE_RATES_P1 r' of Some c' \<Rightarrow> c' | None \<Rightarrow> 0)"
    by (auto simp: sample_rate_to_p1_code_def SAMPLE_RATES_P1_def)
qed

section \<open>Quantisation\<close>

text \<open>Scaling a sample in \<open>[-1, 1]\<close> by the largest sample value and truncating.\<close>

lemma quantize_bounds:
  assumes x: "- 1 \<le> x" "x \<le> 1" and M: "0 < M" "M < 2 ^ 25"
  shows "\<exists>y. f64_mul (fl_clamp (Fin (- 1)) (Fin 1) (Fin x)) (Fin (of_int M)) = Fin y \<and>
    - M \<le> trunc y \<and> trunc y \<le> M \<and> \<bar>of_int (trunc y) - x * of_int M\<bar> < 1 + 1 / 100000"
proof -
  have cl: "fl_clamp (Fin (- 1)) (Fin 1) (Fin x) = Fin x"
    using x by (auto simp: fl_clamp_def)
  have xM: "of_int (- M) \<le> x * of_int M" "x * of_int M \<le> of_int M"
  proof -
    have "0 \<le> (of_int M :: rat)" using M by simp
    from mult_right_mono [OF x(1) this] mult_right_mono [OF x(2) this]
    show "of_int (- M) \<le> x * of_int M" "x * of_int M \<le> of_int M" by simp_all
  qed
  have "rat_of_int M < rat_of_int (2 ^ 25)" using M(2) by (simp only: of_int_less_iff)
  then have Mr: "of_int M < (2 ^ 25 :: rat)" by simp
  then have "- (2 ^ 26) < x * of_int M" "x * of_int M < 2 ^ 26" using xM by simp_all
  then obtain y where y: "f64_round (x * of_int M) = Fin y"
    "x * of_int M - 1 / 100000 \<le> y" "y \<le> x * of_int M + 1 / 100000"
    using f64_round_close by blast
  obtain y' where "f64_round (x * of_int M) = Fin y'" "of_int (- M) \<le> y'" "y' \<le> of_int M"
    using f64_round_between_int [OF xM] M by auto
  with y(1) have "- M \<le> trunc y \<and> trunc y \<le> M" using trunc_between [of "- M" y M] by simp
  moreover have "\<bar>of_int (trunc y) - y\<bar> < 1"
    by (simp add: trunc_def) linarith
  with y(2,3) have "\<bar>of_int (trunc y) - x * of_int M\<bar> < 1 + 1 / 100000"
    unfolding abs_less_iff by linarith
  ultimately show ?thesis using y(1) cl by auto
qed

lemma as_int_trunc: "lo \<le> trunc y \<Longrightarrow> trunc y \<le> hi \<Longrightarrow> fl_as_int lo hi (Fin y) = trunc y"
  by simp

text \<open>The three low bytes of a 24-bit number, read back into the upper bytes of an \<^verbatim>\<open>i32\<close>.\<close>

lemma i24_roundtrip:
  assumes "- (2 ^ 23) \<le> k" "k < 2 ^ 23"
  defines "w \<equiv> (word_of_int k :: u32) AND 0xFFFFFF"
  shows "i24_high (ucast (drop_bit 16 w AND 0xFF)) (ucast (drop_bit 8 w AND 0xFF)) (ucast (w AND 0xFF))
    = k * 256"
proof -
  let ?r = "push_bit 24 (ucast (ucast (drop_bit 16 w AND 0xFF) :: u8) :: u32)
    OR push_bit 16 (ucast (ucast (drop_bit 8 w AND 0xFF) :: u8)) OR push_bit 8 (ucast (ucast (w AND 0xFF) :: u8))"
  have m: "(0xFFFFFF :: u32) = mask 24" "(0xFF :: u32) = mask 8" by (simp_all add: mask_eq_exp_minus_1)
  have "?r = push_bit 8 (word_of_int k)"
  proof (rule bit_word_eqI)
    fix n :: nat
    assume "n < LENGTH(32)"
    then consider "n < 8" | "8 \<le> n" "n < 16" | "16 \<le> n" "n < 24" | "24 \<le> n" "n < 32"
      by fastforce
    then show "bit ?r n = bit (push_bit 8 (word_of_int k :: u32)) n"
      by cases (auto simp: w_def m bit_simps)
  qed
  also have "\<dots> = word_of_int (k * 256)"
    by (simp add: push_bit_eq_mult wi_hom_mult [symmetric] mult.commute)
  finally have "i24_high (ucast (drop_bit 16 w AND 0xFF)) (ucast (drop_bit 8 w AND 0xFF)) (ucast (w AND 0xFF))
      = sint (word_of_int (k * 256) :: u32)" by (simp add: i24_high_def)
  also have "\<dots> = k * 256" using assms(1,2)
    unfolding sint_sbintrunc' by (intro signed_take_bit_int_eq_self) simp_all
  finally show ?thesis .
qed

lemma i16_roundtrip:
  assumes "- (2 ^ 15) \<le> k" "k < 2 ^ 15"
  shows "(case i16_to_be k of (a, b) \<Rightarrow> i16_from_be a b) = k"
  using u16_be_roundtrip [of "word_of_int k"] assms
  by (simp add: i16_to_be_def i16_from_be_def case_prod_beta sint_sbintrunc' signed_take_bit_int_eq_self)

text \<open>A component in range.\<close>

definition unit_sample :: "Cx \<Rightarrow> bool" where
  "unit_sample s \<longleftrightarrow> (\<exists>x y. s = Cx (Fin x) (Fin y) \<and> \<bar>x\<bar> \<le> 1 \<and> \<bar>y\<bar> \<le> 1)"

lemma unit_sample_simps [simp]: "unit_sample (Cx (Fin x) (Fin y)) \<longleftrightarrow> \<bar>x\<bar> \<le> 1 \<and> \<bar>y\<bar> \<le> 1"
  by (auto simp: unit_sample_def)

text \<open>Both components finite and within \<open>e\<close> of those of the other sample.\<close>

definition near :: "rat \<Rightarrow> Cx \<Rightarrow> Cx \<Rightarrow> bool" where
  "near e s s' \<longleftrightarrow> (\<exists>x y x' y'. s = Cx (Fin x) (Fin y) \<and> s' = Cx (Fin x') (Fin y') \<and>
     \<bar>x' - x\<bar> \<le> e \<and> \<bar>y' - y\<bar> \<le> e)"

text \<open>Quantised to 24 bits and read back as a fraction.\<close>

lemma dequantized24:
  assumes "\<bar>x\<bar> \<le> 1"
  shows "\<exists>k. f64_as_i32 (f64_mul (fl_clamp (Fin (- 1)) (Fin 1) (Fin x)) (Fin 8388607)) = k \<and>
    - (2 ^ 23) \<le> k \<and> k < 2 ^ 23 \<and>
    (\<exists>x'. f64_div (f64_of_int (k * 256)) (Fin 2147483648) = Fin x' \<and> \<bar>x' - x\<bar> \<le> 3 / 8388608)"
proof -
  have x: "- 1 \<le> x" "x \<le> 1" using assms by simp_all
  obtain y where y: "f64_mul (fl_clamp (Fin (- 1)) (Fin 1) (Fin x)) (Fin (of_int 8388607)) = Fin y"
    "- 8388607 \<le> trunc y" "trunc y \<le> 8388607" "\<bar>of_int (trunc y) - x * of_int 8388607\<bar> < 1 + 1 / 100000"
    using quantize_bounds [OF x, of 8388607] by auto
  define k where "k = trunc y"
  have e: "f64_div (f64_of_int (k * 256)) (Fin 2147483648) = Fin (of_int k / 2 ^ 23)"
  proof -
    have "f64_of_int (k * 256) = Fin (of_int (k * 256))"
      using y(2,3) by (intro f64_of_int_exact) (simp add: k_def)
    moreover have "of_int (k * 256) / 2147483648 = (of_int k / 2 ^ 23 :: rat)" by simp
    moreover have "f64_round (of_int k / 2 ^ 23) = Fin (of_int k / 2 ^ 23)"
      using y(2,3) by (intro f64_round_dyadic) (simp_all add: k_def)
    ultimately show ?thesis by simp
  qed
  have "\<bar>of_int k - x * 8388608\<bar> \<le> 3"
    using y(4) x unfolding k_def abs_less_iff abs_le_iff by simp
  then have "\<bar>of_int k / 2 ^ 23 - x\<bar> \<le> 3 / 8388608"
    unfolding abs_le_iff by simp
  with e have "\<exists>x'. f64_div (f64_of_int (k * 256)) (Fin 2147483648) = Fin x' \<and> \<bar>x' - x\<bar> \<le> 3 / 8388608"
    by blast
  moreover have "f64_as_i32 (f64_mul (fl_clamp (Fin (- 1)) (Fin 1) (Fin x)) (Fin 8388607)) = k"
    using y(1-3) by (simp add: f64_as_i32_def k_def)
  ultimately show ?thesis using y(2,3) by (auto simp: k_def)
qed

lemma dequantized16:
  assumes "\<bar>x\<bar> \<le> 1"
  shows "\<exists>k. quantize16 (Fin x) = k \<and> - (2 ^ 15) \<le> k \<and> k < 2 ^ 15 \<and>
    (\<exists>x'. f64_div (f64_of_int k) (Fin 32768) = Fin x' \<and> \<bar>x' - x\<bar> \<le> 3 / 32768)"
proof -
  have x: "- 1 \<le> x" "x \<le> 1" using assms by simp_all
  obtain y where y: "f64_mul (fl_clamp (Fin (- 1)) (Fin 1) (Fin x)) (Fin (of_int 32767)) = Fin y"
    "- 32767 \<le> trunc y" "trunc y \<le> 32767" "\<bar>of_int (trunc y) - x * of_int 32767\<bar> < 1 + 1 / 100000"
    using quantize_bounds [OF x, of 32767] by auto
  define k where "k = trunc y"
  have "f64_of_int k = Fin (of_int k)"
    using y(2,3) by (intro f64_of_int_exact) (simp add: k_def)
  moreover have "f64_round (of_int k / 2 ^ 15) = Fin (of_int k / 2 ^ 15)"
    using y(2,3) by (intro f64_round_dyadic) (simp_all add: k_def)
  ultimately have e: "f64_div (f64_of_int k) (Fin 32768) = Fin (of_int k / 2 ^ 15)" by simp
  have "\<bar>of_int k - x * 32768\<bar> \<le> 3"
    using y(4) x unfolding k_def abs_less_iff abs_le_iff by simp
  then have "\<bar>of_int k / 2 ^ 15 - x\<bar> \<le> 3 / 32768"
    unfolding abs_le_iff by simp
  with e have "\<exists>x'. f64_div (f64_of_int k) (Fin 32768) = Fin x' \<and> \<bar>x' - x\<bar> \<le> 3 / 32768"
    by blast
  moreover have "quantize16 (Fin x) = k"
    using y(1-3) by (simp add: quantize16_def f64_as_i16_def k_def)
  ultimately show ?thesis using y(2,3) by (auto simp: k_def)
qed

lemma pack_then_nth:
  assumes "length bs = 6" "offset + 6 \<le> length buf" "i < 6"
  shows "(buf[offset := bs ! 0, offset + 1 := bs ! 1, offset + 2 := bs ! 2, offset + 3 := bs ! 3,
    offset + 4 := bs ! 4, offset + 5 := bs ! 5]) ! (offset + i) = bs ! i"
proof -
  have "i = 0 \<or> i = 1 \<or> i = 2 \<or> i = 3 \<or> i = 4 \<or> i = 5" using assms(3) by auto
  then show ?thesis using assms(1,2) by auto
qed

text \<open>The six bytes of a sample, and what they read back as.\<close>

definition iq24 :: "Cx \<Rightarrow> bytes" where
  "iq24 s = (let iu = (word_of_int (f64_as_i32 (f64_mul (fl_clamp (Fin (- 1)) (Fin 1) (re s)) (Fin 8388607))) :: u32) AND 0xFFFFFF;
                 qu = (word_of_int (f64_as_i32 (f64_mul (fl_clamp (Fin (- 1)) (Fin 1) (im s)) (Fin 8388607))) :: u32) AND 0xFFFFFF
   in [ucast (drop_bit 16 iu AND 0xFF), ucast (drop_bit 8 iu AND 0xFF), ucast (iu AND 0xFF),
       ucast (drop_bit 16 qu AND 0xFF), ucast (drop_bit 8 qu AND 0xFF), ucast (qu AND 0xFF)])"

lemma length_iq24 [simp]: "length (iq24 s) = 6"
  by (simp add: iq24_def Let_def)

lemma pack_as_write:
  "offset + 6 \<le> length buf \<Longrightarrow> pack_iq_24bit_into buf offset s = Some (write_at offset (iq24 s) buf, offset + 6)"
proof -
  have six: "write_at off [a, b, c, d, e, g] buf =
      buf[off := a, off + 1 := b, off + 2 := c, off + 3 := d, off + 4 := e, off + 5 := g]" for off a b c d e g
    by (simp add: eval_nat_numeral)
  assume "offset + 6 \<le> length buf"
  then show ?thesis
    unfolding pack_iq_24bit_into_def pack_iq_24bit_into_ex_def iq24_def Let_def six
    by (simp only: if_True if_False simp_thms)
qed

lemma unpack_iq24:
  assumes "unit_sample s" "offset + 6 \<le> length buf" "\<And>i. i < 6 \<Longrightarrow> buf ! (offset + i) = iq24 s ! i"
  shows "\<exists>s'. unpack_iq_24bit buf offset = Some s' \<and> near (3 / 8388608) (Cx (re s) (fl_neg (im s))) s'"
proof -
  obtain x y where s: "s = Cx (Fin x) (Fin y)" "\<bar>x\<bar> \<le> 1" "\<bar>y\<bar> \<le> 1"
    using assms(1) by (auto simp: unit_sample_def)
  obtain k x' where k: "f64_as_i32 (f64_mul (fl_clamp (Fin (- 1)) (Fin 1) (Fin x)) (Fin 8388607)) = k"
    "- (2 ^ 23) \<le> k" "k < 2 ^ 23" "f64_div (f64_of_int (k * 256)) (Fin 2147483648) = Fin x'"
    "\<bar>x' - x\<bar> \<le> 3 / 8388608"
    using dequantized24 [OF s(2)] by blast
  obtain l y' where l: "f64_as_i32 (f64_mul (fl_clamp (Fin (- 1)) (Fin 1) (Fin y)) (Fin 8388607)) = l"
    "- (2 ^ 23) \<le> l" "l < 2 ^ 23" "f64_div (f64_of_int (l * 256)) (Fin 2147483648) = Fin y'"
    "\<bar>y' - y\<bar> \<le> 3 / 8388608"
    using dequantized24 [OF s(3)] by blast
  have "unpack_iq_24bit buf offset = Some (Cx (Fin x') (Fin (- y')))"
    using assms(2) assms(3) [of 0] assms(3) [of 1] assms(3) [of 2] assms(3) [of 3] assms(3) [of 4] assms(3) [of 5]
      i24_roundtrip [OF k(2,3)] i24_roundtrip [OF l(2,3)] k(1,4) l(1,4)
    by (simp add: unpack_iq_24bit_def iq24_def s(1) Let_def)
  moreover have "\<bar>- y' - - y\<bar> \<le> 3 / 8388608" using l(5) unfolding abs_le_iff by linarith
  ultimately show ?thesis using k(5) s(1) by (auto simp: near_def)
qed

text \<open>Packing a sample with components in \<open>[-1, 1]\<close> at any place of a buffer where six bytes
  fit, and unpacking it there, gives the sample back up to 3/2^23 in each component, with the Q
  sign convention cancelling out, and touches no other byte; without the six bytes both
  operations panic.\<close>

theorem iq_24bit_roundtrip:
  assumes "unit_sample s"
  shows "if offset + 6 \<le> length buf
    then \<exists>buf' s'. pack_iq_24bit_into_negate_q buf offset s = Some (buf', offset + 6) \<and>
      length buf' = length buf \<and> (\<forall>i. i < offset \<or> offset + 6 \<le> i \<longrightarrow> buf' ! i = buf ! i) \<and>
      unpack_iq_24bit buf' offset = Some s' \<and> near (3 / 8388608) s s'
    else pack_iq_24bit_into_negate_q buf offset s = None \<and> unpack_iq_24bit buf offset = None"
proof (cases "offset + 6 \<le> length buf")
  case fits: True
  obtain x y where s: "s = Cx (Fin x) (Fin y)" "\<bar>x\<bar> \<le> 1" "\<bar>- y\<bar> \<le> 1"
    using assms by (auto simp: unit_sample_def)
  obtain k x' where k: "f64_as_i32 (f64_mul (fl_clamp (Fin (- 1)) (Fin 1) (Fin x)) (Fin 8388607)) = k"
    "- (2 ^ 23) \<le> k" "k < 2 ^ 23" "f64_div (f64_of_int (k * 256)) (Fin 2147483648) = Fin x'"
    "\<bar>x' - x\<bar> \<le> 3 / 8388608"
    using dequantized24 [OF s(2)] by blast
  obtain l y' where l: "f64_as_i32 (f64_mul (fl_clamp (Fin (- 1)) (Fin 1) (Fin (- y))) (Fin 8388607)) = l"
    "- (2 ^ 23) \<le> l" "l < 2 ^ 23" "f64_div (f64_of_int (l * 256)) (Fin 2147483648) = Fin y'"
    "\<bar>y' - - y\<bar> \<le> 3 / 8388608"
    using dequantized24 [OF s(3)] by blast
  define iu qu where "iu = (word_of_int k :: u32) AND 0xFFFFFF" and "qu = (word_of_int l :: u32) AND 0xFFFFFF"
  define bs where "bs = [ucast (drop_bit 16 iu AND 0xFF), ucast (drop_bit 8 iu AND 0xFF), ucast (iu AND 0xFF),
      ucast (drop_bit 16 qu AND 0xFF), ucast (drop_bit 8 qu AND 0xFF), ucast (qu AND 0xFF) :: u8]"
  define buf' where "buf' = buf[offset := bs ! 0, offset + 1 := bs ! 1, offset + 2 := bs ! 2,
      offset + 3 := bs ! 3, offset + 4 := bs ! 4, offset + 5 := bs ! 5]"
  have pack: "pack_iq_24bit_into_negate_q buf offset s = Some (buf', offset + 6)"
    using fits k(1) l(1)
    by (simp add: pack_iq_24bit_into_negate_q_def pack_iq_24bit_into_ex_def s(1) buf'_def bs_def
        iu_def qu_def Let_def)
  have nth: "i < 6 \<Longrightarrow> buf' ! (offset + i) = bs ! i" for i
    using pack_then_nth [of bs offset buf i] fits by (simp add: buf'_def bs_def)
  have "unpack_iq_24bit buf' offset = Some (Cx (Fin x') (Fin (- y')))"
    using fits nth [of 0] nth [of 1] nth [of 2] nth [of 3] nth [of 4] nth [of 5]
      i24_roundtrip [OF k(2,3)] i24_roundtrip [OF l(2,3)] k(4) l(4)
    by (simp add: unpack_iq_24bit_def bs_def iu_def qu_def buf'_def [THEN arg_cong [of _ _ length]])
  moreover have "near (3 / 8388608) s (Cx (Fin x') (Fin (- y')))"
  proof -
    have "\<bar>- y' - y\<bar> \<le> 3 / 8388608" using l(5) unfolding abs_le_iff by linarith
    with k(5) s(1) show ?thesis by (auto simp: near_def)
  qed
  moreover have "i < offset \<or> offset + 6 \<le> i \<Longrightarrow> buf' ! i = buf ! i" for i
    by (auto simp: buf'_def)
  ultimately show ?thesis using fits pack by (auto simp: buf'_def)
qed (simp add: pack_iq_24bit_into_negate_q_def pack_iq_24bit_into_ex_def unpack_iq_24bit_def Let_def)

theorem iq_24bit_roundtrip_witness:
  "\<exists>buf' s'. pack_iq_24bit_into_negate_q (replicate 8 0) 1 (Cx (Fin (1/2)) (Fin (- 1))) = Some (buf', 7) \<and>
    unpack_iq_24bit buf' 1 = Some s' \<and> near (3 / 8388608) (Cx (Fin (1/2)) (Fin (- 1))) s'"
proof -
  have "unit_sample (Cx (Fin (1/2)) (Fin (- 1)))" by simp
  from iq_24bit_roundtrip [OF this, of 1 "replicate 8 0"] show ?thesis by auto
qed

lemma unpack_pack16:
  assumes "list_all unit_sample samples"
  shows "list_all2 (near (3 / 32768)) samples (unpack_tx_iq_16bit (pack_tx_iq_16bit samples))"
proof -
  define blk where "blk s = (let (i0, i1) = i16_to_be (quantize16 (re s));
      (q0, q1) = i16_to_be (quantize16 (im s)) in [0, 0, 0, 0, i0, i1, q0, q1])" for s
  have len: "length (blk s) = 8" for s by (simp add: blk_def case_prod_beta Let_def)
  have pack: "pack_tx_iq_16bit ss = concat (map blk ss)" for ss
    unfolding pack_tx_iq_16bit_def blk_def ..
  have total: "length (concat (map blk ss)) = 8 * length ss" for ss
    by (induction ss) (simp_all add: len)
  have at: "concat (map blk ss) ! (k * 8 + i) = blk (ss ! k) ! i" if "k < length ss" "i < 8" for ss k i
    using that
  proof (induction ss arbitrary: k)
    case (Cons t ss)
    then show ?case by (cases k) (simp_all add: nth_append len)
  qed simp
  have "near (3 / 32768) (samples ! k) (unpack_tx_iq_16bit (pack_tx_iq_16bit samples) ! k)"
    if k: "k < length samples" for k
  proof -
    obtain x y where s: "samples ! k = Cx (Fin x) (Fin y)" "\<bar>x\<bar> \<le> 1" "\<bar>y\<bar> \<le> 1"
      using assms k by (auto simp: unit_sample_def list_all_length)
    obtain l x' where l: "quantize16 (Fin x) = l" "- (2 ^ 15) \<le> l" "l < 2 ^ 15"
      "f64_div (f64_of_int l) (Fin 32768) = Fin x'" "\<bar>x' - x\<bar> \<le> 3 / 32768"
      using dequantized16 [OF s(2)] by blast
    obtain m y' where m: "quantize16 (Fin y) = m" "- (2 ^ 15) \<le> m" "m < 2 ^ 15"
      "f64_div (f64_of_int m) (Fin 32768) = Fin y'" "\<bar>y' - y\<bar> \<le> 3 / 32768"
      using dequantized16 [OF s(3)] by blast
    have "unpack_tx_iq_16bit (pack_tx_iq_16bit samples) ! k = Cx (Fin x') (Fin y')"
      using at [OF k, of 4] at [OF k, of 5] at [OF k, of 6] at [OF k, of 7] k
        i16_roundtrip [OF l(2,3)] i16_roundtrip [OF m(2,3)] l(1,4) m(1,4)
      by (simp add: unpack_tx_iq_16bit_def pack total blk_def s(1) case_prod_beta Let_def)
    with s(1) l(5) m(5) show ?thesis by (auto simp: near_def)
  qed
  moreover have "length (unpack_tx_iq_16bit (pack_tx_iq_16bit samples)) = length samples"
    by (simp add: unpack_tx_iq_16bit_def pack total)
  ultimately show ?thesis by (simp add: list_all2_conv_all_nth)
qed

text \<open>The 16-bit transmit samples survive packing and unpacking in number, in order and up to
  3/2^15 in each component.\<close>

theorem tx_iq_16bit_roundtrip:
  assumes "list_all unit_sample samples"
  shows "list_all2 (near (3 / 32768)) samples (unpack_tx_iq_16bit (pack_tx_iq_16bit samples))"
  using assms by (rule unpack_pack16)

theorem tx_iq_16bit_roundtrip_witness:
  "list_all2 (near (3 / 32768)) [Cx (Fin (1/2)) (Fin 0), Cx (Fin 1) (Fin (- 1))]
    (unpack_tx_iq_16bit (pack_tx_iq_16bit [Cx (Fin (1/2)) (Fin 0), Cx (Fin 1) (Fin (- 1))]))"
  by (rule tx_iq_16bit_roundtrip) simp

end
