(* ===== verification/Iq_Accumulator.thy ===== *)
theory Iq_Accumulator
  imports Radio_Interfaces Proto_Types "HOL-Library.Sublist"
begin

text \<open>
  \<^verbatim>\<open>crates/radio-utils-protocol/src/iq_accumulator.rs\<close>: samples arrive in chunks of any size and
  leave in blocks of a fixed size; beyond sixteen blocks the oldest samples are dropped. A
  \<^verbatim>\<open>VecDeque\<close> is the list of its elements; where its ring is cut into two slices
  (\<^verbatim>\<open>as_slices\<close>) is an argument of the operation. \<open>None\<close> is a failed \<^verbatim>\<open>debug_assert\<close>.
\<close>

record IqAccumulator =
  buffer :: "Cx list"
  block_size :: nat

definition new_accumulator :: "nat \<Rightarrow> IqAccumulator option" where
  "new_accumulator bs = (if 0 < bs then Some \<lparr>buffer = [], block_size = bs\<rparr> else None)"

definition set_block_size :: "nat \<Rightarrow> IqAccumulator \<Rightarrow> IqAccumulator option" where
  "set_block_size bs acc = (if 0 < bs then Some (acc\<lparr>block_size := bs, buffer := []\<rparr>) else None)"

definition push_samples :: "Cx list \<Rightarrow> IqAccumulator \<Rightarrow> IqAccumulator" where
  "push_samples samples acc =
     (let buf = buffer acc @ samples;
          high_water = block_size acc * 16
      in if length buf > high_water
         then let excess = length buf - high_water in acc\<lparr>buffer := drop excess buf\<rparr>
         else acc\<lparr>buffer := buf\<rparr>)"

text \<open>\<^verbatim>\<open>out[from..from + len].copy_from_slice(xs)\<close>\<close>

definition copy_from_slice :: "'a list \<Rightarrow> nat \<Rightarrow> 'a list \<Rightarrow> 'a list" where
  "copy_from_slice out start xs = take start out @ xs @ drop (start + length xs) out"

definition next_block :: "nat \<Rightarrow> Cx list \<Rightarrow> IqAccumulator \<Rightarrow> (bool \<times> Cx list \<times> IqAccumulator) option" where
  "next_block split_at out acc =
     (if length out < block_size acc then None
      else if length (buffer acc) < block_size acc then Some (False, out, acc)
      else let a = take split_at (buffer acc); b = drop split_at (buffer acc);
               out = (if block_size acc \<le> length a
                      then copy_from_slice out 0 (take (block_size acc) a)
                      else let from_a = length a; out = copy_from_slice out 0 a
                           in copy_from_slice out from_a (take (block_size acc - from_a) b))
           in Some (True, out, acc\<lparr>buffer := drop (block_size acc) (buffer acc)\<rparr>))"

definition clear_samples :: "IqAccumulator \<Rightarrow> IqAccumulator" where
  "clear_samples acc = acc\<lparr>buffer := []\<rparr>"

definition samples_len :: "IqAccumulator \<Rightarrow> nat" where
  "samples_len acc = length (buffer acc)"

definition samples_is_empty :: "IqAccumulator \<Rightarrow> bool" where
  "samples_is_empty acc = (buffer acc = [])"

section \<open>A bounded log\<close>

interpretation iq_log: evicting_log push_samples buffer "\<lambda>acc. block_size acc * 16" "\<lambda>_. True"
  by unfold_locales (auto simp: push_samples_def keep_last_def Let_def)

lemma next_block_result:
  "block_size acc \<le> length out \<Longrightarrow> next_block split_at out acc = Some (
     if block_size acc \<le> length (buffer acc)
     then (True, take (block_size acc) (buffer acc) @ drop (block_size acc) out,
           acc\<lparr>buffer := drop (block_size acc) (buffer acc)\<rparr>)
     else (False, out, acc))"
proof -
  have "take k xs @ take (n - k) (drop k xs) = take n xs" if "k \<le> n" for k n and xs :: "Cx list"
    using that by (simp flip: take_add)
  then show "block_size acc \<le> length out \<Longrightarrow> ?thesis"
    by (auto simp: next_block_def copy_from_slice_def Let_def min_def simp flip: append_assoc)
qed

section \<open>Runs\<close>

datatype iq_op = Push "Cx list" | Next nat "Cx list" | Clear

text \<open>The blocks delivered by a sequence of operations.\<close>

fun iq_run :: "iq_op list \<Rightarrow> IqAccumulator \<Rightarrow> (Cx list list \<times> IqAccumulator) option" where
  "iq_run [] acc = Some ([], acc)"
| "iq_run (Push xs # ops) acc = iq_run ops (push_samples xs acc)"
| "iq_run (Clear # ops) acc = iq_run ops (clear_samples acc)"
| "iq_run (Next split_at out # ops) acc =
     (case next_block split_at out acc of
        None \<Rightarrow> None
      | Some (ok, out', acc') \<Rightarrow>
          map_option (\<lambda>(blocks, acc''). ((if ok then [take (block_size acc) out'] else []) @ blocks, acc''))
            (iq_run ops acc'))"

fun pushed :: "iq_op list \<Rightarrow> Cx list" where
  "pushed [] = []"
| "pushed (Push xs # ops) = xs @ pushed ops"
| "pushed (_ # ops) = pushed ops"

definition roomy :: "nat \<Rightarrow> iq_op \<Rightarrow> bool" where
  "roomy bs op = (case op of Next split_at out \<Rightarrow> bs \<le> length out | _ \<Rightarrow> True)"

text \<open>The general law, from any state.\<close>

lemma iq_run_stream:
  assumes "list_all (roomy (block_size acc)) ops"
  shows "\<exists>blocks acc'. iq_run ops acc = Some (blocks, acc') \<and> block_size acc' = block_size acc \<and>
    list_all (\<lambda>b. length b = block_size acc) blocks \<and>
    (length (buffer acc) \<le> block_size acc * 16 \<longrightarrow> length (buffer acc') \<le> block_size acc * 16) \<and>
    subseq (concat blocks @ buffer acc') (buffer acc @ pushed ops) \<and>
    (length (buffer acc @ pushed ops) \<le> block_size acc * 16 \<and> Clear \<notin> set ops \<longrightarrow>
      concat blocks @ buffer acc' = buffer acc @ pushed ops)"
  using assms
proof (induction ops acc rule: iq_run.induct)
  case (2 xs ops acc)
  let ?acc = "push_samples xs acc"
  have "block_size ?acc = block_size acc" by (simp add: push_samples_def Let_def)
  moreover have "length (buffer ?acc) \<le> block_size acc * 16" using iq_log.push_bounded by blast
  moreover obtain old where "buffer acc @ xs = old @ buffer ?acc"
    using keep_last_suffix iq_log.push_contents by metis
  moreover have "length (buffer acc @ xs) \<le> block_size acc * 16 \<Longrightarrow> buffer ?acc = buffer acc @ xs"
    using iq_log.push_fits by simp
  moreover obtain blocks acc' where "iq_run ops ?acc = Some (blocks, acc')"
    "block_size acc' = block_size ?acc"
    "list_all (\<lambda>b. length b = block_size ?acc) blocks"
    "length (buffer ?acc) \<le> block_size ?acc * 16 \<longrightarrow> length (buffer acc') \<le> block_size ?acc * 16"
    "subseq (concat blocks @ buffer acc') (buffer ?acc @ pushed ops)"
    "length (buffer ?acc @ pushed ops) \<le> block_size ?acc * 16 \<and> Clear \<notin> set ops \<longrightarrow>
      concat blocks @ buffer acc' = buffer ?acc @ pushed ops"
    using 2 \<open>block_size ?acc = block_size acc\<close> by force
  moreover from this(5) have "subseq (concat blocks @ buffer acc') (old @ buffer ?acc @ pushed ops)"
    by (rule list_emb_append2)
  ultimately show ?case by (auto simp flip: append_assoc)
next
  case (3 ops acc)
  let ?acc = "clear_samples acc"
  have b: "block_size ?acc = block_size acc" "buffer ?acc = []" by (simp_all add: clear_samples_def)
  obtain blocks acc' where "iq_run ops ?acc = Some (blocks, acc')"
    "block_size acc' = block_size ?acc"
    "list_all (\<lambda>b. length b = block_size ?acc) blocks"
    "length (buffer ?acc) \<le> block_size ?acc * 16 \<longrightarrow> length (buffer acc') \<le> block_size ?acc * 16"
    "subseq (concat blocks @ buffer acc') (buffer ?acc @ pushed ops)"
    using 3 b by force
  moreover from this(5) have "subseq (concat blocks @ buffer acc') (buffer acc @ pushed ops)"
    using b by (simp add: list_emb_append2)
  ultimately show ?case using b by auto
next
  case (4 split_at out ops acc)
  have room: "block_size acc \<le> length out" using 4(2) by (simp add: roomy_def)
  show ?case
  proof (cases "block_size acc \<le> length (buffer acc)")
    case True
    let ?acc = "acc\<lparr>buffer := drop (block_size acc) (buffer acc)\<rparr>"
    have nb: "next_block split_at out acc =
        Some (True, take (block_size acc) (buffer acc) @ drop (block_size acc) out, ?acc)"
      using next_block_result [OF room] True by simp
    obtain blocks acc' where IH: "iq_run ops ?acc = Some (blocks, acc')"
      "block_size acc' = block_size acc"
      "list_all (\<lambda>b. length b = block_size acc) blocks"
      "length (buffer ?acc) \<le> block_size acc * 16 \<longrightarrow> length (buffer acc') \<le> block_size acc * 16"
      "subseq (concat blocks @ buffer acc') (buffer ?acc @ pushed ops)"
      "length (buffer ?acc @ pushed ops) \<le> block_size acc * 16 \<and> Clear \<notin> set ops \<longrightarrow>
        concat blocks @ buffer acc' = buffer ?acc @ pushed ops"
      using 4(1) [OF nb refl refl] 4(2) by auto
    have "subseq (take (block_size acc) (buffer acc) @ (concat blocks @ buffer acc'))
        (take (block_size acc) (buffer acc) @ (buffer ?acc @ pushed ops))"
      by (rule subseq_append' [THEN iffD2, OF IH(5)])
    then have "subseq (take (block_size acc) (buffer acc) @ concat blocks @ buffer acc') (buffer acc @ pushed ops)"
      by (simp flip: append_assoc)
    moreover have "concat blocks @ buffer acc' = buffer ?acc @ pushed ops \<Longrightarrow>
        take (block_size acc) (buffer acc) @ concat blocks @ buffer acc' = buffer acc @ pushed ops"
      by (simp flip: append_assoc)
    moreover have "length (buffer acc @ pushed ops) \<le> block_size acc * 16 \<Longrightarrow>
        length (buffer ?acc @ pushed ops) \<le> block_size acc * 16" by simp
    ultimately show ?thesis using nb True IH by auto
  next
    case False
    then have nb: "next_block split_at out acc = Some (False, out, acc)"
      using next_block_result [OF room] by simp
    have "list_all (roomy (block_size acc)) ops" using 4(2) by simp
    from 4(1) [OF nb refl refl this] obtain blocks acc' where "iq_run ops acc = Some (blocks, acc')"
      "block_size acc' = block_size acc" "list_all (\<lambda>b. length b = block_size acc) blocks"
      "length (buffer acc) \<le> block_size acc * 16 \<longrightarrow> length (buffer acc') \<le> block_size acc * 16"
      "subseq (concat blocks @ buffer acc') (buffer acc @ pushed ops)"
      "length (buffer acc @ pushed ops) \<le> block_size acc * 16 \<and> Clear \<notin> set ops \<longrightarrow>
        concat blocks @ buffer acc' = buffer acc @ pushed ops"
      by blast
    then show ?thesis using nb by auto
  qed
qed simp

text \<open>C16: A new accumulator, under any sequence of pushes, block requests (with room for a block in
  the output) and clears: no operation panics, every block delivered is full, at most sixteen blocks
  stay buffered, and the samples delivered and still buffered are a subsequence of those pushed, in
  order, each at most once. As long as no more than sixteen blocks are pushed nothing is lost.\<close>

theorem accumulator_stream:
  assumes "new_accumulator bs = Some acc" "list_all (roomy bs) ops"
  shows "\<exists>blocks acc'. iq_run ops acc = Some (blocks, acc') \<and>
    list_all (\<lambda>b. length b = bs) blocks \<and> samples_len acc' \<le> 16 * bs \<and>
    subseq (concat blocks @ buffer acc') (pushed ops) \<and>
    (length (pushed ops) \<le> 16 * bs \<and> Clear \<notin> set ops \<longrightarrow> concat blocks @ buffer acc' = pushed ops)"
  using assms iq_run_stream [of acc ops]
  by (auto simp: new_accumulator_def samples_len_def mult.commute split: if_splits)

theorem accumulator_stream_witness:
  "\<exists>blocks acc'. iq_run [Push [Cx (Fin 1) (Fin 0), Cx (Fin 2) (Fin 0), Cx (Fin 3) (Fin 0)],
      Next 1 [Cx NaN NaN, Cx NaN NaN], Next 0 [Cx NaN NaN, Cx NaN NaN]]
      \<lparr>buffer = [], block_size = 2\<rparr> = Some (blocks, acc') \<and>
    concat blocks @ buffer acc' = [Cx (Fin 1) (Fin 0), Cx (Fin 2) (Fin 0), Cx (Fin 3) (Fin 0)]"
  using accumulator_stream [of 2 "\<lparr>buffer = [], block_size = 2\<rparr>"
      "[Push [Cx (Fin 1) (Fin 0), Cx (Fin 2) (Fin 0), Cx (Fin 3) (Fin 0)],
        Next 1 [Cx NaN NaN, Cx NaN NaN], Next 0 [Cx NaN NaN, Cx NaN NaN]]"]
  by (auto simp: new_accumulator_def roomy_def)

end
