(* ===== verification/Hash_Map.thy ===== *)
theory Hash_Map
  imports Radio_Prelude "HOL-Library.AList" "HOL-Library.Multiset"
begin

text \<open>
  Rust's \<^verbatim>\<open>HashMap\<close> as an association list with distinct keys. The order of iteration is
  unspecified in Rust: an operation that iterates takes it as an argument, a function that permutes
  the keys.
\<close>

type_synonym ('k, 'v) hash_map = "('k \<times> 'v) list"

abbreviation hm_get :: "('k, 'v) hash_map \<Rightarrow> 'k \<Rightarrow> 'v option" where
  "hm_get \<equiv> map_of"

abbreviation hm_insert :: "'k \<Rightarrow> 'v \<Rightarrow> ('k, 'v) hash_map \<Rightarrow> ('k, 'v) hash_map" where
  "hm_insert \<equiv> AList.update"

abbreviation hm_remove :: "'k \<Rightarrow> ('k, 'v) hash_map \<Rightarrow> ('k, 'v) hash_map" where
  "hm_remove \<equiv> AList.delete"

text \<open>\<^verbatim>\<open>*map.get(&k).unwrap_or(&v)\<close> and \<^verbatim>\<open>map.entry(k).or_insert(v)\<close>\<close>

definition hm_get_or :: "('k, 'v) hash_map \<Rightarrow> 'k \<Rightarrow> 'v \<Rightarrow> 'v" where
  "hm_get_or m k v = (case map_of m k of Some w \<Rightarrow> w | None \<Rightarrow> v)"

definition hm_or_insert :: "'k \<Rightarrow> 'v \<Rightarrow> ('k, 'v) hash_map \<Rightarrow> ('k, 'v) hash_map" where
  "hm_or_insert k v m = (case map_of m k of Some _ \<Rightarrow> m | None \<Rightarrow> AList.update k v m)"

definition hm_entries :: "('k list \<Rightarrow> 'k list) \<Rightarrow> ('k, 'v) hash_map \<Rightarrow> ('k \<times> 'v) list" where
  "hm_entries order m = map (\<lambda>k. (k, the (map_of m k))) (order (map fst m))"

definition any_order :: "('k list \<Rightarrow> 'k list) \<Rightarrow> bool" where
  "any_order order \<longleftrightarrow> (\<forall>ks. mset (order ks) = mset ks)"

named_theorems map_simps \<open>lookups in updated hash maps\<close>

lemma hm_get_insert [map_simps]: "map_of (AList.update k v m) k' = (if k' = k then Some v else map_of m k')"
  by (simp add: update_conv')

lemma hm_get_remove [map_simps]: "map_of (AList.delete k m) k' = (if k' = k then None else map_of m k')"
  by (simp add: delete_conv')

lemma hm_get_or_insert [map_simps]:
  "map_of (hm_or_insert k v m) k' =
    (if k' = k then Some (case map_of m k of Some w \<Rightarrow> w | None \<Rightarrow> v) else map_of m k')"
  by (auto simp: hm_or_insert_def map_simps split: option.splits)

lemma hm_entries_get:
  assumes "any_order order"
  shows "(k, v) \<in> set (hm_entries order m) \<longleftrightarrow> map_of m k = Some v"
proof -
  have "set (order (map fst m)) = dom (map_of m)"
    using assms unfolding any_order_def dom_map_of_conv_image_fst by (metis list.set_map set_mset_mset)
  then have "(k, v) \<in> set (hm_entries order m) \<longleftrightarrow> k \<in> dom (map_of m) \<and> v = the (map_of m k)"
    by (auto simp: hm_entries_def)
  then show ?thesis by auto
qed

end
