(* ===== verification/Emu_Radio.thy ===== *)
theory Emu_Radio
  imports Radio_Interfaces Proto_Types Hash_Map
begin

text \<open>
  \<^verbatim>\<open>crates/radio-utils-emu/src/radio.rs\<close>: the emulated radio's identity, receiver noise, the
  recording of transmissions and their playback. \<open>num_complex\<close>, \<open>rand\<close> and \<open>rand_distr\<close> and
  the floating-point functions whose precision Rust leaves open are the record \<open>externals\<close>; the
  clock readings of \<^verbatim>\<open>Instant::now\<close> and the iteration order of hash maps are arguments.
  \<open>None\<close> is a panic or a loop that does not end. Counters of recorders and epochs are \<open>nat\<close>.
\<close>

section \<open>What the code calls\<close>

record 'g externals =
  cx_add :: "Cx \<Rightarrow> Cx \<Rightarrow> Cx"
  cx_mul :: "Cx \<Rightarrow> Cx \<Rightarrow> Cx"
  cx_scale :: "Cx \<Rightarrow> fval \<Rightarrow> Cx"
  f64_cos :: "fval \<Rightarrow> fval"
  f64_sin :: "fval \<Rightarrow> fval"
  f64_sqrt :: "fval \<Rightarrow> fval"
  f64_powf :: "fval \<Rightarrow> fval \<Rightarrow> fval"
  normal_sample :: "'g \<Rightarrow> fval \<times> 'g"

text \<open>An instance to evaluate with: complex arithmetic as \<^verbatim>\<open>num_complex\<close> documents it, and the
  values of the other functions at zero.\<close>

definition plain_externals :: "unit externals" where
  "plain_externals = \<lparr>
     cx_add = (\<lambda>a b. Cx (f64_add (re a) (re b)) (f64_add (im a) (im b))),
     cx_mul = (\<lambda>a b. Cx (f64_sub (f64_mul (re a) (re b)) (f64_mul (im a) (im b)))
                        (f64_add (f64_mul (re a) (im b)) (f64_mul (im a) (re b)))),
     cx_scale = (\<lambda>a x. Cx (f64_mul (re a) x) (f64_mul (im a) x)),
     f64_cos = (\<lambda>_. Fin 1), f64_sin = (\<lambda>_. Fin 0), f64_sqrt = (\<lambda>x. x), f64_powf = (\<lambda>_ _. Fin 1),
     normal_sample = (\<lambda>g. (Fin 0, g))\<rparr>"

abbreviation cx_zero :: Cx where
  "cx_zero \<equiv> Cx (Fin 0) (Fin 0)"

definition PI :: fval where
  "PI = f64_round (3141592653589793238462643 / 1000000000000000000000000)"

definition f64_of_u32 :: "u32 \<Rightarrow> fval" where
  "f64_of_u32 w = f64_of_int (uint w)"

text \<open>\<^verbatim>\<open>f64::round\<close> (half away from zero) and \<^verbatim>\<open>rem_euclid\<close>, which adds the modulus to a
  negative exact remainder.\<close>

fun f64_round_half_away :: "fval \<Rightarrow> fval" where
  "f64_round_half_away (Fin x) = Fin (of_int (if 0 \<le> x then \<lfloor>x + 1/2\<rfloor> else - \<lfloor>1/2 - x\<rfloor>))"
| "f64_round_half_away x = x"

fun f64_rem_euclid :: "fval \<Rightarrow> fval \<Rightarrow> fval" where
  "f64_rem_euclid (Fin x) (Fin y) =
     (if y = 0 then NaN
      else let r = x - of_int (trunc (x / y)) * y
           in if r < 0 then f64_add (Fin r) (Fin \<bar>y\<bar>) else Fin r)"
| "f64_rem_euclid (Fin x) (Inf s) = (if x < 0 then Inf False else Fin x)"
| "f64_rem_euclid _ _ = NaN"

section \<open>HwInfo\<close>

record HwInfo =
  hw :: HpsdrHw
  hw_mac :: "u8 list"
  hw_firmware_version :: u8
  mercury_versions :: "u8 list"
  penny_version :: u8
  metis_version :: u8

definition new_hw_info :: "HpsdrHw \<Rightarrow> u8 list \<Rightarrow> HwInfo" where
  "new_hw_info h m = \<lparr>hw = h, hw_mac = m, hw_firmware_version = 25,
     mercury_versions = [25, 25, 25, 25], penny_version = 25, metis_version = 25\<rparr>"

definition mac_string :: "HwInfo \<Rightarrow> string" where
  "mac_string h = intercalate '':'' (map hex_byte (hw_mac h))"

text \<open>\<open>drawn\<close> is what the random generator filled the six bytes with.\<close>

definition random_mac :: "u8 list \<Rightarrow> u8 list" where
  "random_mac drawn = drawn[0 := (drawn ! 0 OR 0x02) AND 0xFE]"

section \<open>SignalGenerator\<close>

record 'g SignalGenerator =
  sg_sample_rate :: u32
  sg_noise_level :: fval
  sg_rng :: 'g

definition new_siggen :: "u32 \<Rightarrow> fval \<Rightarrow> 'g \<Rightarrow> 'g SignalGenerator" where
  "new_siggen sr level g = \<lparr>sg_sample_rate = sr, sg_noise_level = level, sg_rng = g\<rparr>"

fun add_noise_loop :: "'g externals \<Rightarrow> fval \<Rightarrow> 'g \<Rightarrow> Cx list \<Rightarrow> Cx list \<times> 'g" where
  "add_noise_loop E level g [] = ([], g)"
| "add_noise_loop E level g (s # out) =
     (let (x, g) = normal_sample E g; (y, g) = normal_sample E g;
          s' = cx_add E s (Cx (f64_mul x level) (f64_mul y level));
          (out', g) = add_noise_loop E level g out
      in (s' # out', g))"

definition add_noise_into ::
  "'g externals \<Rightarrow> 'g SignalGenerator \<Rightarrow> Cx list \<Rightarrow> Cx list \<times> 'g SignalGenerator" where
  "add_noise_into E sg out =
     (if fl_le (sg_noise_level sg) (Fin 0) then (out, sg)
      else let (out', g) = add_noise_loop E (sg_noise_level sg) (sg_rng sg) out
           in (out', sg\<lparr>sg_rng := g\<rparr>))"

section \<open>LiveBuffer\<close>

definition ECHO_ATTENUATION_DB :: fval where
  "ECHO_ATTENUATION_DB = Fin 30"

definition LIVE_DELAY :: nat where
  "LIVE_DELAY = 1024"

definition LOOP_TAIL_SILENCE_SEC :: fval where
  "LOOP_TAIL_SILENCE_SEC = Fin (1/2)"

text \<open>Durations and instants are nanoseconds.\<close>

definition LOOP_SESSION_GAP :: nat where
  "LOOP_SESSION_GAP = 30 * 1000000000"

definition as_secs_f64 :: "nat \<Rightarrow> fval" where
  "as_secs_f64 d = f64_add (f64_of_int (int (d div 1000000000)))
     (f64_div (f64_of_int (int (d mod 1000000000))) (Fin 1000000000))"

datatype EchoMode = Loop | Live

record LiveBuffer =
  lb_data :: "Cx list"
  drained :: nat
  epoch :: nat
  lb_max_samples :: nat
  client_offsets :: "(SocketAddr, nat) hash_map"

definition new_live_buffer :: "nat \<Rightarrow> LiveBuffer" where
  "new_live_buffer m = \<lparr>lb_data = [], drained = 0, epoch = 0, lb_max_samples = m, client_offsets = []\<rparr>"

definition restart_with_epoch :: "nat \<Rightarrow> LiveBuffer \<Rightarrow> LiveBuffer" where
  "restart_with_epoch ep b = b\<lparr>lb_data := [], drained := 0, epoch := ep, client_offsets := []\<rparr>"

definition start_client :: "SocketAddr \<Rightarrow> LiveBuffer \<Rightarrow> LiveBuffer" where
  "start_client client b =
     (let abs_tail = drained b + length (lb_data b)
      in b\<lparr>client_offsets := hm_insert client abs_tail (client_offsets b)\<rparr>)"

definition stop_client :: "SocketAddr \<Rightarrow> LiveBuffer \<Rightarrow> LiveBuffer" where
  "stop_client client b = b\<lparr>client_offsets := hm_remove client (client_offsets b)\<rparr>"

text \<open>\<^verbatim>\<open>Vec::resize\<close> with zero samples, and the loop adding \<open>samples\<close> from an index on.\<close>

definition resize :: "nat \<Rightarrow> Cx list \<Rightarrow> Cx list" where
  "resize n xs = take n xs @ replicate (n - length xs) cx_zero"

fun mix_at :: "'g externals \<Rightarrow> nat \<Rightarrow> Cx list \<Rightarrow> Cx list \<Rightarrow> Cx list" where
  "mix_at E off [] out = out"
| "mix_at E off (s # samples) out = mix_at E (Suc off) samples (out[off := cx_add E (out ! off) s])"

definition feed_from :: "'g externals \<Rightarrow> SocketAddr \<Rightarrow> Cx list \<Rightarrow> LiveBuffer \<Rightarrow> LiveBuffer" where
  "feed_from E client samples b =
     (if samples = [] then b
      else case hm_get (client_offsets b) client of
        None \<Rightarrow> b
      | Some abs_offset \<Rightarrow>
          let cur_abs = (if abs_offset < drained b then drained b else abs_offset);
              rel_offset = cur_abs - drained b;
              needed = rel_offset + length samples;
              out = (if length (lb_data b) < needed then resize needed (lb_data b) else lb_data b);
              out = mix_at E rel_offset samples out;
              b = b\<lparr>lb_data := out,
                    client_offsets := hm_insert client (cur_abs + length samples) (client_offsets b)\<rparr>
          in if lb_max_samples b < length (lb_data b)
             then let excess = length (lb_data b) - lb_max_samples b
                  in b\<lparr>lb_data := drop excess (lb_data b), drained := drained b + excess\<rparr>
             else b)"

section \<open>EchoBuffer\<close>

record EchoPlaybackState =
  playback_pos :: "(u32, nat) hash_map"
  shift_phase :: "(u32, fval) hash_map"
  live_pos :: "(u32, nat) hash_map"
  live_shift_phase :: "(u32, fval) hash_map"
  live_epoch :: "(u32, nat) hash_map"
  scratch :: "Cx list"

definition new_playback_state :: EchoPlaybackState where
  "new_playback_state = \<lparr>playback_pos = [], shift_phase = [], live_pos = [], live_shift_phase = [],
     live_epoch = [], scratch = []\<rparr>"

record FreqRecorder =
  active_count :: nat
  rec_sample_rate :: u32
  recording :: "Cx list"
  last_ptt_off :: "nat option"

record EchoBuffer =
  max_duration :: fval
  eb_mode :: EchoMode
  attenuation :: fval
  echoes :: "(u32, Cx list) hash_map"
  recorders :: "(u32, FreqRecorder) hash_map"
  eb_live :: "(u32, LiveBuffer) hash_map"
  next_epoch :: nat

definition new_echo_buffer :: "'g externals \<Rightarrow> EchoMode \<Rightarrow> EchoBuffer" where
  "new_echo_buffer E m = \<lparr>max_duration = Fin 10, eb_mode = m,
     attenuation = f64_powf E (Fin 10) (f64_div (fl_neg ECHO_ATTENUATION_DB) (Fin 20)),
     echoes = [], recorders = [], eb_live = [], next_epoch = 1\<rparr>"

definition has_data :: "EchoBuffer \<Rightarrow> bool" where
  "has_data eb = (case eb_mode eb of Loop \<Rightarrow> echoes eb \<noteq> [] | Live \<Rightarrow> eb_live eb \<noteq> [])"

text \<open>\<^verbatim>\<open>(sample_rate as f64 * max_duration) as usize\<close>\<close>

definition max_samples_of :: "fval \<Rightarrow> u32 \<Rightarrow> nat" where
  "max_samples_of dur sr = f64_as_usize (f64_mul (f64_of_u32 sr) dur)"

text \<open>The first recorder of a frequency: the recording resumes after a short gap (loop mode), or
  starts afresh. The two clock readings are those of the session test and of the padding.\<close>

definition open_recording :: "nat \<Rightarrow> nat \<Rightarrow> u32 \<Rightarrow> EchoMode \<Rightarrow> fval \<Rightarrow> FreqRecorder \<Rightarrow> FreqRecorder" where
  "open_recording now now' sr mode dur r =
     (let r = r\<lparr>rec_sample_rate := sr\<rparr>;
          resume = (mode = Loop \<and>
            (case last_ptt_off r of Some t \<Rightarrow> now - t < LOOP_SESSION_GAP | None \<Rightarrow> False))
      in if resume then
           let elapsed = now' - the (last_ptt_off r);
               gap_samples = f64_as_usize (f64_mul (as_secs_f64 elapsed) (f64_of_u32 sr));
               max_samples = max_samples_of dur sr;
               pad_len = min gap_samples (max_samples - length (recording r))
           in r\<lparr>recording := recording r @ replicate pad_len cx_zero\<rparr>
         else r\<lparr>recording := []\<rparr>)"

definition open_live :: "u32 \<Rightarrow> u32 \<Rightarrow> EchoBuffer \<Rightarrow> EchoBuffer" where
  "open_live freq sr eb =
     (if eb_mode eb = Live then
        let max_samples = max_samples_of (max_duration eb) sr;
            ep = next_epoch eb;
            live_buf = (case hm_get (eb_live eb) freq of Some b \<Rightarrow> b
                        | None \<Rightarrow> new_live_buffer max_samples);
            live_buf = restart_with_epoch ep (live_buf\<lparr>lb_max_samples := max_samples\<rparr>)
        in eb\<lparr>next_epoch := ep + 1, eb_live := hm_insert freq live_buf (eb_live eb)\<rparr>
      else eb)"

definition join_live :: "u32 \<Rightarrow> SocketAddr \<Rightarrow> EchoBuffer \<Rightarrow> EchoBuffer" where
  "join_live freq client eb =
     (if eb_mode eb = Live
      then case hm_get (eb_live eb) freq of
          Some live_buf \<Rightarrow> eb\<lparr>eb_live := hm_insert freq (start_client client live_buf) (eb_live eb)\<rparr>
        | None \<Rightarrow> eb
      else eb)"

definition start_recording ::
  "nat \<Rightarrow> nat \<Rightarrow> u32 \<Rightarrow> SocketAddr \<Rightarrow> u32 \<Rightarrow> EchoBuffer \<Rightarrow> EchoBuffer" where
  "start_recording now now' freq client sr eb =
     (let r = (case hm_get (recorders eb) freq of Some r \<Rightarrow> r
               | None \<Rightarrow> \<lparr>active_count = 0, rec_sample_rate = sr, recording = [], last_ptt_off = None\<rparr>);
          (r, eb) = (if active_count r = 0
                     then (open_recording now now' sr (eb_mode eb) (max_duration eb) r, open_live freq sr eb)
                     else (r, eb));
          r = r\<lparr>active_count := active_count r + 1\<rparr>;
          eb = eb\<lparr>recorders := hm_insert freq r (recorders eb)\<rparr>
      in join_live freq client eb)"

definition is_recording_on :: "u32 \<Rightarrow> EchoBuffer \<Rightarrow> bool" where
  "is_recording_on freq eb = (case hm_get (recorders eb) freq of Some r \<Rightarrow> 0 < active_count r | None \<Rightarrow> False)"

text \<open>The recording keeps its newest samples.\<close>

definition append_recording :: "nat \<Rightarrow> Cx list \<Rightarrow> FreqRecorder \<Rightarrow> FreqRecorder" where
  "append_recording max_samples samples r =
     (let r = r\<lparr>recording := recording r @ samples\<rparr>
      in if max_samples < length (recording r)
         then let excess = length (recording r) - max_samples
              in r\<lparr>recording := drop excess (recording r)\<rparr>
         else r)"

definition feed :: "'g externals \<Rightarrow> u32 \<Rightarrow> SocketAddr \<Rightarrow> Cx list \<Rightarrow> EchoBuffer \<Rightarrow> EchoBuffer" where
  "feed E freq client samples eb =
     (if samples = [] then eb
      else if \<not> is_recording_on freq eb then eb
      else if eb_mode eb = Live
      then let max_samples = (case hm_get (recorders eb) freq of
                  None \<Rightarrow> 480000
                | Some r \<Rightarrow> max_samples_of (max_duration eb) (rec_sample_rate r));
               live_buf = (case hm_get (eb_live eb) freq of Some b \<Rightarrow> b
                           | None \<Rightarrow> new_live_buffer max_samples)
           in eb\<lparr>eb_live := hm_insert freq (feed_from E client samples live_buf) (eb_live eb)\<rparr>
      else case hm_get (recorders eb) freq of
          None \<Rightarrow> eb
        | Some r \<Rightarrow>
            let max_samples = max_samples_of (max_duration eb) (rec_sample_rate r)
            in eb\<lparr>recorders := hm_insert freq (append_recording max_samples samples r) (recorders eb)\<rparr>)"

text \<open>Sample differs from zero in a component (NaN does).\<close>

definition non_zero :: "Cx \<Rightarrow> bool" where
  "non_zero s = (re s \<noteq> Fin 0 \<or> im s \<noteq> Fin 0)"

definition trim_zeros :: "Cx list \<Rightarrow> Cx list" where
  "trim_zeros buf = rev (dropWhile (\<lambda>s. \<not> non_zero s) (rev (dropWhile (\<lambda>s. \<not> non_zero s) buf)))"

fun crossfade :: "'g externals \<Rightarrow> nat \<Rightarrow> nat \<Rightarrow> nat \<Rightarrow> Cx list \<Rightarrow> Cx list" where
  "crossfade E fade buf_len 0 buf = buf"
| "crossfade E fade buf_len (Suc k) buf =
     (let i = fade - Suc k;
          w = f64_mul (Fin (1/2)) (f64_sub (Fin 1)
                (f64_cos E (f64_div (f64_mul PI (f64_of_int (int i))) (f64_of_int (int fade)))));
          tail_idx = buf_len - fade + i
      in crossfade E fade buf_len k
           (buf[i := cx_add E (cx_scale E (buf ! i) w)
                       (cx_scale E (buf ! tail_idx) (f64_sub (Fin 1) w))]))"

text \<open>What a recording becomes: trimmed, followed by silence, its end faded into its start.\<close>

definition append_silence :: "u32 \<Rightarrow> nat \<Rightarrow> Cx list \<Rightarrow> Cx list" where
  "append_silence sr max_samples buf =
     (let tail_pad = f64_as_usize (f64_round_half_away (f64_mul (f64_of_u32 sr) LOOP_TAIL_SILENCE_SEC));
          pad_room = max_samples - length buf;
          pad = min tail_pad pad_room
      in if 0 < pad then buf @ replicate pad cx_zero else buf)"

definition fade_loop :: "'g externals \<Rightarrow> u32 \<Rightarrow> Cx list \<Rightarrow> Cx list" where
  "fade_loop E sr buf =
     (let fade_samples = min (f64_as_usize (f64_mul (f64_of_u32 sr) (f64_round (1/25)))) (length buf div 4);
          buf_len = length buf
      in if 1 < fade_samples
         then take (buf_len - fade_samples) (crossfade E fade_samples buf_len fade_samples buf)
         else buf)"

definition loop_of_recording :: "'g externals \<Rightarrow> u32 \<Rightarrow> nat \<Rightarrow> Cx list \<Rightarrow> Cx list" where
  "loop_of_recording E sr max_samples buf = fade_loop E sr (append_silence sr max_samples (trim_zeros buf))"

definition commit_freq :: "'g externals \<Rightarrow> u32 \<Rightarrow> EchoBuffer \<Rightarrow> EchoBuffer" where
  "commit_freq E freq eb =
     (case hm_get (recorders eb) freq of
        None \<Rightarrow> eb
      | Some r \<Rightarrow>
          if recording r = [] then eb
          else if freq = 0 then eb\<lparr>recorders := hm_insert freq (r\<lparr>recording := []\<rparr>) (recorders eb)\<rparr>
          else
            let sr = rec_sample_rate r;
                max_samples = max_samples_of (max_duration eb) sr;
                buf = take max_samples (recording r)
            in if buf = [] then eb
               else if \<not> list_ex non_zero buf then eb
               else eb\<lparr>echoes := hm_insert freq (loop_of_recording E sr max_samples buf) (echoes eb)\<rparr>)"

definition leave_live :: "u32 \<Rightarrow> SocketAddr \<Rightarrow> EchoBuffer \<Rightarrow> EchoBuffer" where
  "leave_live freq client eb =
     (if eb_mode eb = Live
      then case hm_get (eb_live eb) freq of
          Some b \<Rightarrow> eb\<lparr>eb_live := hm_insert freq (stop_client client b) (eb_live eb)\<rparr>
        | None \<Rightarrow> eb
      else eb)"

definition stamp_ptt_off :: "nat \<Rightarrow> u32 \<Rightarrow> EchoBuffer \<Rightarrow> EchoBuffer" where
  "stamp_ptt_off now freq eb =
     (case hm_get (recorders eb) freq of
        Some r \<Rightarrow> eb\<lparr>recorders := hm_insert freq (r\<lparr>last_ptt_off := Some now\<rparr>) (recorders eb)\<rparr>
      | None \<Rightarrow> eb)"

definition stop_recording :: "'g externals \<Rightarrow> nat \<Rightarrow> u32 \<Rightarrow> SocketAddr \<Rightarrow> EchoBuffer \<Rightarrow> EchoBuffer" where
  "stop_recording E now freq client eb =
     (case hm_get (recorders eb) freq of
        None \<Rightarrow> eb
      | Some r \<Rightarrow>
          if active_count r = 0 then eb
          else
            let count = active_count r - 1;
                eb = eb\<lparr>recorders := hm_insert freq (r\<lparr>active_count := count\<rparr>) (recorders eb)\<rparr>;
                eb = leave_live freq client eb
            in if count = 0
               then let eb = stamp_ptt_off now freq eb
                    in if eb_mode eb = Loop then commit_freq E freq eb else eb
               else eb)"

section \<open>Playback\<close>

text \<open>The loop that copies the echo, wrapping at its end; \<^verbatim>\<open>%\<close> by an empty echo panics.\<close>

partial_function (option) copy_wrapped ::
  "Cx list \<Rightarrow> nat \<Rightarrow> nat \<Rightarrow> nat \<Rightarrow> Cx list \<Rightarrow> (Cx list \<times> nat) option" where
  "copy_wrapped echo_buf pos write_pos remaining scr =
     (if 0 < remaining
      then let available = min remaining (length echo_buf - pos)
           in if length scr < write_pos + available \<or> length echo_buf < pos + available
                 \<or> length echo_buf = 0 then None
              else copy_wrapped echo_buf ((pos + available) mod length echo_buf) (write_pos + available)
                     (remaining - available)
                     (take write_pos scr @ take available (drop pos echo_buf) @ drop (write_pos + available) scr)
      else Some (scr, pos))"

fun rotate_samples :: "'g externals \<Rightarrow> Cx \<Rightarrow> Cx \<Rightarrow> Cx list \<Rightarrow> Cx list" where
  "rotate_samples E osc phasor [] = []"
| "rotate_samples E osc phasor (s # ss) = cx_mul E s osc # rotate_samples E (cx_mul E osc phasor) phasor ss"

text \<open>The frequency shift of the first \<open>n\<close> samples of the scratch buffer, with the next phase.\<close>

definition frequency_shift ::
  "'g externals \<Rightarrow> fval \<Rightarrow> u32 \<Rightarrow> fval \<Rightarrow> nat \<Rightarrow> Cx list \<Rightarrow> Cx list \<times> fval" where
  "frequency_shift E offset_hz sample_rate phase0 n scr =
     (let sr = f64_of_u32 sample_rate;
          step = f64_div (f64_mul (f64_mul (Fin 2) PI) offset_hz) sr;
          phasor = Cx (f64_cos E step) (f64_sin E step);
          osc = Cx (f64_cos E phase0) (f64_sin E phase0);
          new_phase = f64_rem_euclid (f64_add phase0 (f64_mul step (f64_of_int (int n)))) (f64_mul (Fin 2) PI)
      in (rotate_samples E osc phasor (take n scr) @ drop n scr, new_phase))"

definition accumulate :: "'g externals \<Rightarrow> Cx list \<Rightarrow> Cx list \<Rightarrow> Cx list" where
  "accumulate E out scr = map (\<lambda>(o', s). cx_add E o' s) (zip out (take (length out) scr))"

text \<open>One recorded frequency of \<open>generate_echo_into\<close>.\<close>

definition echo_step ::
  "'g externals \<Rightarrow> u32 \<Rightarrow> u32 \<Rightarrow> u32 \<times> Cx list \<Rightarrow> EchoPlaybackState \<times> Cx list \<times> Cx list \<Rightarrow>
   (EchoPlaybackState \<times> Cx list \<times> Cx list) option" where
  "echo_step E rx_freq sample_rate fe st =
     (let (freq, echo_buf) = fe; (ps, scr, out) = st;
          n_samples = length out;
          half_bw = f64_div (f64_of_u32 sample_rate) (Fin 2);
          offset_hz = f64_sub (f64_of_u32 rx_freq) (f64_of_u32 freq)
      in if fl_less half_bw (fl_abs offset_hz) then Some st
         else if length echo_buf = 0 then None
         else
           let pos = hm_get_or (playback_pos ps) freq 0 mod length echo_buf
           in case copy_wrapped echo_buf pos 0 n_samples scr of
                None \<Rightarrow> None
              | Some (scr, pos) \<Rightarrow>
                  let ps = ps\<lparr>playback_pos := hm_insert freq pos (playback_pos ps)\<rparr>;
                      (scr, ps) =
                        (if offset_hz \<noteq> Fin 0
                         then let phase0 = hm_get_or (shift_phase ps) freq (Fin 0);
                                  (scr, new_phase) = frequency_shift E offset_hz sample_rate phase0 n_samples scr
                              in (scr, ps\<lparr>shift_phase := hm_insert freq new_phase (shift_phase ps)\<rparr>)
                         else (scr, ps))
                  in Some (ps, scr, accumulate E out scr))"

text \<open>The loops over the hash map's entries.\<close>

fun steps :: "('a \<Rightarrow> 's \<Rightarrow> 's option) \<Rightarrow> 'a list \<Rightarrow> 's \<Rightarrow> 's option" where
  "steps f [] st = Some st"
| "steps f (x # xs) st = (case f x st of None \<Rightarrow> None | Some st \<Rightarrow> steps f xs st)"

definition generate_echo_into ::
  "'g externals \<Rightarrow> (u32 list \<Rightarrow> u32 list) \<Rightarrow> EchoBuffer \<Rightarrow> EchoPlaybackState \<Rightarrow> Cx list \<Rightarrow> u32 \<Rightarrow> u32 \<Rightarrow>
   (EchoPlaybackState \<times> Cx list) option" where
  "generate_echo_into E order eb ps out rx_freq sample_rate =
     (let n_samples = length out;
          out = replicate n_samples cx_zero
      in if echoes eb = [] then Some (ps, out)
         else
           let scr = (if length (scratch ps) < n_samples then resize n_samples (scratch ps) else scratch ps)
           in case steps (echo_step E rx_freq sample_rate) (hm_entries order (echoes eb))
                     (ps\<lparr>scratch := []\<rparr>, scr, out) of
                None \<Rightarrow> None
              | Some (ps, scr, out) \<Rightarrow>
                  Some (ps\<lparr>scratch := scr\<rparr>, map (\<lambda>s. cx_scale E s (attenuation eb)) out))"

text \<open>Resetting the read position when the buffer was restarted or is new to the client.\<close>

definition follow_epoch :: "u32 \<Rightarrow> LiveBuffer \<Rightarrow> EchoPlaybackState \<Rightarrow> EchoPlaybackState" where
  "follow_epoch freq live_buf ps =
     (let write_head = drained live_buf + length (lb_data live_buf);
          current_epoch = epoch live_buf;
          ps = ps\<lparr>live_epoch := hm_or_insert freq 0 (live_epoch ps)\<rparr>
      in if hm_get_or (live_epoch ps) freq 0 \<noteq> current_epoch
         then ps\<lparr>live_epoch := hm_insert freq current_epoch (live_epoch ps),
                 live_pos := hm_insert freq (write_head - LIVE_DELAY) (live_pos ps),
                 live_shift_phase := hm_insert freq (Fin 0) (live_shift_phase ps)\<rparr>
         else ps)"

text \<open>Copying what can be read; the slices are in range whenever \<open>idx < readable_end\<close>.\<close>

definition copy_live ::
  "EchoBuffer \<Rightarrow> u32 \<Rightarrow> LiveBuffer \<Rightarrow> nat \<Rightarrow> EchoPlaybackState \<times> Cx list \<Rightarrow> EchoPlaybackState \<times> Cx list" where
  "copy_live eb freq live_buf n_samples st =
     (let (ps, scr) = st;
          samples = lb_data live_buf;
          dr = drained live_buf;
          write_head = dr + length samples;
          default_pos = write_head - LIVE_DELAY;
          abs_pos = max (hm_get_or (live_pos ps) freq default_pos) dr;
          idx = abs_pos - dr;
          readable_end = (if is_recording_on freq eb then length samples - LIVE_DELAY
                          else length samples);
          scr = replicate n_samples cx_zero @ drop n_samples scr;
          (scr, abs_pos) =
            (if idx < readable_end
             then let n = min n_samples (readable_end - idx)
                  in (take n (drop idx samples) @ drop n scr, abs_pos + n)
             else (scr, abs_pos))
      in (ps\<lparr>live_pos := hm_insert freq abs_pos (live_pos ps)\<rparr>, scr))"

text \<open>One live frequency of \<open>generate_live_echo_into\<close>.\<close>

definition live_step ::
  "'g externals \<Rightarrow> EchoBuffer \<Rightarrow> u32 \<Rightarrow> u32 \<Rightarrow> u32 \<times> LiveBuffer \<Rightarrow>
   EchoPlaybackState \<times> Cx list \<times> Cx list \<Rightarrow> EchoPlaybackState \<times> Cx list \<times> Cx list" where
  "live_step E eb rx_freq sample_rate fb st =
     (let (freq, live_buf) = fb; (ps, scr, out) = st;
          n_samples = length out;
          half_bw = f64_div (f64_of_u32 sample_rate) (Fin 2);
          offset_hz = f64_sub (f64_of_u32 rx_freq) (f64_of_u32 freq)
      in if fl_less half_bw (fl_abs offset_hz) then st
         else
           let (ps, scr) = copy_live eb freq live_buf n_samples (follow_epoch freq live_buf ps, scr);
               (scr, ps) =
                 (if offset_hz \<noteq> Fin 0
                  then let phase0 = hm_get_or (live_shift_phase ps) freq (Fin 0);
                           (scr, new_phase) = frequency_shift E offset_hz sample_rate phase0 n_samples scr
                       in (scr, ps\<lparr>live_shift_phase := hm_insert freq new_phase (live_shift_phase ps)\<rparr>)
                  else (scr, ps))
           in (ps, scr, accumulate E out scr))"

definition generate_live_echo_into ::
  "'g externals \<Rightarrow> (u32 list \<Rightarrow> u32 list) \<Rightarrow> EchoBuffer \<Rightarrow> EchoPlaybackState \<Rightarrow> Cx list \<Rightarrow> u32 \<Rightarrow> u32 \<Rightarrow>
   EchoPlaybackState \<times> Cx list" where
  "generate_live_echo_into E order eb ps out rx_freq sample_rate =
     (let n_samples = length out;
          out = replicate n_samples cx_zero
      in if eb_live eb = [] then (ps, out)
         else
           let scr = (if length (scratch ps) < n_samples then resize n_samples (scratch ps) else scratch ps);
               (ps, scr, out) = fold (live_step E eb rx_freq sample_rate) (hm_entries order (eb_live eb))
                 (ps\<lparr>scratch := []\<rparr>, scr, out)
           in (ps\<lparr>scratch := scr\<rparr>, map (\<lambda>s. cx_scale E s (attenuation eb)) out))"

text \<open>The number of samples written and the buffer.\<close>

definition unpack_tx_iq_16bit_into :: "bytes \<Rightarrow> Cx list \<Rightarrow> nat \<times> Cx list" where
  "unpack_tx_iq_16bit_into data out =
     (let n_blocks = min (length data div 8) (length out)
      in (n_blocks,
          map (\<lambda>k. let off = k * 8;
                       i_val = i16_from_be (data ! (off + 4)) (data ! (off + 5));
                       q_val = i16_from_be (data ! (off + 6)) (data ! (off + 7))
                   in Cx (f64_div (f64_of_int i_val) (Fin 32768))
                         (f64_div (f64_of_int q_val) (Fin 32768))) [0..<n_blocks]
          @ drop n_blocks out))"

end
