(* ===== verification/Proto_Packets.thy ===== *)
theory Proto_Packets
  imports Proto_Types
begin

text \<open>
  \<^verbatim>\<open>crates/radio-utils-protocol/src/packets.rs\<close>: parsing the 1032-byte packets of the radio and
  building those of the host. \<open>parse_rx_packet\<close> gives an option of an option: the outer \<open>None\<close>
  is a panic (an index out of range), which \<open>parse_rx_packet_reference\<close> shows never happens; the
  inner \<open>None\<close> is the rejected packet.
\<close>

section \<open>Status\<close>

record P1Status =
  p1_ptt :: bool
  p1_adc_overflow :: u8
  p1_forward_power :: u16
  p1_reverse_power :: u16
  p1_exciter_power :: u16
  p1_supply_voltage :: u16
  response_addr :: u8

definition default_p1_status :: P1Status where
  "default_p1_status = \<lparr>p1_ptt = False, p1_adc_overflow = 0, p1_forward_power = 0,
     p1_reverse_power = 0, p1_exciter_power = 0, p1_supply_voltage = 0, response_addr = 0\<rparr>"

record P1RxFrame =
  rx_samples :: "Cx list list"
  rx_status :: P1Status

definition parse_response_control_bytes ::
  "P1Status \<Rightarrow> u8 \<Rightarrow> u8 \<Rightarrow> u8 \<Rightarrow> u8 \<Rightarrow> u8 \<Rightarrow> P1Status" where
  "parse_response_control_bytes st c0 c1 c2 c3 c4 =
     (let address = c0 AND 0x7E;
          st = st\<lparr>p1_ptt := (c0 AND 0x01 \<noteq> 0), response_addr := address\<rparr>
      in if address = 0x00 then st\<lparr>p1_adc_overflow := c1\<rparr>
         else if address = 0x08
         then st\<lparr>p1_exciter_power := u16_from_be c1 c2, p1_forward_power := u16_from_be c3 c4\<rparr>
         else if address = 0x10 then st\<lparr>p1_reverse_power := u16_from_be c1 c2\<rparr>
         else if address = 0x18 then st\<lparr>p1_supply_voltage := u16_from_be c3 c4\<rparr>
         else st)"

section \<open>Received packets\<close>

text \<open>One row: a sample for each DDC, pushed on its list.\<close>

definition push_row :: "bytes \<Rightarrow> nat \<Rightarrow> nat \<Rightarrow> Cx list list \<Rightarrow> Cx list list option" where
  "push_row data nddc offset samples =
     those (map (\<lambda>(ddc, ddc_samples).
       let sample_offset = offset + ddc * 6
       in if ddc < nddc \<and> sample_offset + 6 \<le> length data
          then map_option (\<lambda>iq. ddc_samples @ [iq]) (unpack_iq_24bit data sample_offset)
          else Some ddc_samples) (enumerate 0 samples))"

text \<open>The loop \<^verbatim>\<open>while offset + bytes_per_row <= iq_end\<close>.\<close>

function parse_rows :: "bytes \<Rightarrow> nat \<Rightarrow> nat \<Rightarrow> nat \<Rightarrow> Cx list list \<Rightarrow> Cx list list option" where
  "parse_rows data nddc iq_end offset samples =
     (if offset + (6 * nddc + 2) \<le> iq_end
      then (case push_row data nddc offset samples of
              None \<Rightarrow> None
            | Some samples \<Rightarrow> parse_rows data nddc iq_end (offset + (6 * nddc + 2)) samples)
      else Some samples)"
  by pat_completeness auto
termination
  by (relation "measure (\<lambda>(data, nddc, iq_end, offset, samples). iq_end - offset)") auto

declare parse_rows.simps [simp del]

definition parse_frame :: "bytes \<Rightarrow> nat \<Rightarrow> nat \<Rightarrow> P1RxFrame \<Rightarrow> P1RxFrame option option" where
  "parse_frame data nddc frame_idx fr =
     (let base = 8 + frame_idx * 512;
          sync_ok = (data ! base = 0x7F \<and> data ! (base + 1) = 0x7F \<and> data ! (base + 2) = 0x7F)
      in if \<not> sync_ok then Some None
         else let st = parse_response_control_bytes (rx_status fr) (data ! (base + 3))
                         (data ! (base + 4)) (data ! (base + 5)) (data ! (base + 6)) (data ! (base + 7))
              in map_option (\<lambda>samples. Some \<lparr>rx_samples = samples, rx_status = st\<rparr>)
                   (parse_rows data nddc (base + 512) (base + 8) (rx_samples fr)))"

definition parse_rx_packet :: "bytes \<Rightarrow> nat \<Rightarrow> P1RxFrame option option" where
  "parse_rx_packet data nddc =
     (if length data < 1032 \<or> nddc = 0 then Some None
      else case parse_frame data nddc 0
                  \<lparr>rx_samples = replicate nddc [], rx_status = default_p1_status\<rparr> of
        None \<Rightarrow> None
      | Some None \<Rightarrow> Some None
      | Some (Some fr) \<Rightarrow> parse_frame data nddc 1 fr)"

section \<open>Transmitted packets\<close>

text \<open>The samples of the two sub-frames, 63 each; missing ones are zero, Q is negated.\<close>

definition tx_block :: "Cx list \<Rightarrow> nat \<Rightarrow> bytes" where
  "tx_block tx_iq sample_idx =
     (let (iv, qv) = (if sample_idx < length tx_iq
                      then let s = tx_iq ! sample_idx
                           in (quantize16 (re s), quantize16 (fl_neg (im s)))
                      else (0, 0));
          iw = (word_of_int iv :: u16); qw = (word_of_int qv :: u16)
      in [0, 0, 0, 0, ucast (drop_bit 8 iw), ucast (iw AND 0xFF), ucast (drop_bit 8 qw), ucast (qw AND 0xFF)])"

definition tx_subframe :: "Cx list \<Rightarrow> bytes \<Rightarrow> nat \<Rightarrow> bytes" where
  "tx_subframe tx_iq cb frame_idx =
     [0x7F, 0x7F, 0x7F] @ cb @ concat (map (\<lambda>i. tx_block tx_iq (frame_idx * 63 + i)) [0..<63])"

text \<open>\<open>control_bytes\<close> and \<open>control_bytes2\<close> are arrays of five bytes.\<close>

definition build_tx_packet :: "u32 \<Rightarrow> Cx list \<Rightarrow> bytes \<Rightarrow> bytes \<Rightarrow> bytes" where
  "build_tx_packet sequence tx_iq control_bytes control_bytes2 =
     [0xEF, 0xFE, 0x01, 0x02,
      ucast (drop_bit 24 sequence AND 0xFF), ucast (drop_bit 16 sequence AND 0xFF),
      ucast (drop_bit 8 sequence AND 0xFF), ucast (sequence AND 0xFF)]
     @ tx_subframe tx_iq control_bytes 0 @ tx_subframe tx_iq control_bytes2 1"

text \<open>The frequency is a \<^verbatim>\<open>u64\<close>, clamped to \<^verbatim>\<open>u32::MAX\<close>.\<close>

definition build_control_bytes ::
  "u8 \<Rightarrow> 64 word \<Rightarrow> u8 \<Rightarrow> bool \<Rightarrow> u8 \<Rightarrow> u8 \<Rightarrow> u8 \<Rightarrow> bytes" where
  "build_control_bytes address frequency sample_rate_index ptt nddc rx_attenuation tx_drive =
     (let c0 = address OR (if ptt then 0x01 else 0x00) in
      if address = 0x00
      then [c0, sample_rate_index AND 0x03, 0, 0,
            push_bit 3 ((if nddc = 0 then 0 else nddc - 1) AND 0x07) OR 0x04]
      else if address \<in> {0x02, 0x04, 0x06, 0x08, 0x0A, 0x0C, 0x0E}
      then let freq = (ucast (min frequency 0xFFFFFFFF) :: u32)
           in [c0, ucast (drop_bit 24 freq AND 0xFF), ucast (drop_bit 16 freq AND 0xFF),
               ucast (drop_bit 8 freq AND 0xFF), ucast (freq AND 0xFF)]
      else if address = 0x12 then [c0, tx_drive, 0, 0, 0]
      else if address = 0x14 then [c0, 0, 0, 0, rx_attenuation AND 0x1F]
      else [c0, 0, 0, 0, 0])"

section \<open>What a received packet contains\<close>

definition sample_at :: "bytes \<Rightarrow> nat \<Rightarrow> Cx" where
  "sample_at data offset = the (unpack_iq_24bit data offset)"

lemma push_row_samples:
  assumes "offset + 6 * nddc \<le> length data" "length samples = nddc"
  shows "push_row data nddc offset samples =
    Some (map (\<lambda>ddc. samples ! ddc @ [sample_at data (offset + 6 * ddc)]) [0..<nddc])"
proof -
  have "(case (enumerate 0 samples) ! ddc of (ddc, ddc_samples) \<Rightarrow>
      let sample_offset = offset + ddc * 6
      in if ddc < nddc \<and> sample_offset + 6 \<le> length data
         then map_option (\<lambda>iq. ddc_samples @ [iq]) (unpack_iq_24bit data sample_offset)
         else Some ddc_samples) = Some (samples ! ddc @ [sample_at data (offset + 6 * ddc)])"
    if "ddc < nddc" for ddc
  proof -
    have "6 * ddc + 6 \<le> 6 * nddc" using that by simp
    then have "offset + ddc * 6 + 6 \<le> length data" using assms(1) by linarith
    then show ?thesis using that assms(2)
      by (auto simp: nth_enumerate_eq sample_at_def unpack_iq_24bit_def Let_def mult.commute)
  qed
  then have eq: "map (\<lambda>(ddc, ddc_samples).
       let sample_offset = offset + ddc * 6
       in if ddc < nddc \<and> sample_offset + 6 \<le> length data
          then map_option (\<lambda>iq. ddc_samples @ [iq]) (unpack_iq_24bit data sample_offset)
          else Some ddc_samples) (enumerate 0 samples)
      = map Some (map (\<lambda>ddc. samples ! ddc @ [sample_at data (offset + 6 * ddc)]) [0..<nddc])"
    using assms(2) by (intro nth_equalityI) auto
  have those_Some: "those (map Some xs) = Some xs" for xs :: "Cx list list"
    by (induction xs) auto
  show ?thesis unfolding push_row_def eq by (rule those_Some)
qed

lemma parse_rows_samples:
  assumes "iq_end \<le> length data" "length samples = nddc"
  shows "parse_rows data nddc iq_end offset samples =
    Some (map (\<lambda>ddc. samples ! ddc @ map (\<lambda>r. sample_at data (offset + r * (6 * nddc + 2) + 6 * ddc))
      [0..<(iq_end - offset) div (6 * nddc + 2)]) [0..<nddc])"
  using assms
proof (induction data nddc iq_end offset samples rule: parse_rows.induct)
  case (1 data nddc iq_end offset samples)
  let ?row = "6 * nddc + 2"
  show ?case
  proof (cases "offset + ?row \<le> iq_end")
    case True
    let ?s = "map (\<lambda>ddc. samples ! ddc @ [sample_at data (offset + 6 * ddc)]) [0..<nddc]"
    have p: "push_row data nddc offset samples = Some ?s"
      using True 1(2,3) by (intro push_row_samples) auto
    obtain k where k: "(iq_end - offset) div ?row = Suc k" "(iq_end - (offset + ?row)) div ?row = k"
      using True le_div_geq [of ?row "iq_end - offset"] by (auto simp: diff_diff_add)
    have "parse_rows data nddc iq_end offset samples = parse_rows data nddc iq_end (offset + ?row) ?s"
      using True p by (subst parse_rows.simps) simp
    also have "\<dots> = Some (map (\<lambda>ddc. ?s ! ddc @ map (\<lambda>r. sample_at data (offset + ?row + r * ?row + 6 * ddc))
        [0..<k]) [0..<nddc])"
      using 1(1) [OF True p] 1(2) k(2) by simp
    also have "\<dots> = Some (map (\<lambda>ddc. samples ! ddc @ map (\<lambda>r. sample_at data (offset + r * ?row + 6 * ddc))
        [0..<Suc k]) [0..<nddc])"
    proof -
      have "offset + ?row + r * ?row + 6 * ddc = offset + Suc r * ?row + 6 * ddc" for r ddc by simp
      then show ?thesis by (simp only: map_upt_Suc) (simp del: upt_Suc mult_Suc)
    qed
    finally show ?thesis by (simp only: k(1))
  next
    case False
    then show ?thesis using 1(3) by (subst parse_rows.simps) (auto intro: nth_equalityI)
  qed
qed

text \<open>The sync bytes of a sub-frame, its samples for one DDC, and its status.\<close>

definition synced :: "bytes \<Rightarrow> nat \<Rightarrow> bool" where
  "synced data f \<longleftrightarrow> take 3 (drop (8 + f * 512) data) = [0x7F, 0x7F, 0x7F]"

definition ddc_samples :: "bytes \<Rightarrow> nat \<Rightarrow> nat \<Rightarrow> nat \<Rightarrow> Cx list" where
  "ddc_samples data nddc ddc f =
     map (\<lambda>r. sample_at data (16 + f * 512 + r * (6 * nddc + 2) + 6 * ddc)) [0..<504 div (6 * nddc + 2)]"

definition subframe_status :: "bytes \<Rightarrow> nat \<Rightarrow> P1Status \<Rightarrow> P1Status" where
  "subframe_status data f st = parse_response_control_bytes st (data ! (11 + f * 512))
     (data ! (12 + f * 512)) (data ! (13 + f * 512)) (data ! (14 + f * 512)) (data ! (15 + f * 512))"

lemma parse_frame_result:
  assumes "1032 \<le> length data" "f < 2" "length (rx_samples fr) = nddc"
  shows "parse_frame data nddc f fr = Some (if synced data f
    then Some \<lparr>rx_samples = map (\<lambda>ddc. rx_samples fr ! ddc @ ddc_samples data nddc ddc f) [0..<nddc],
               rx_status = subframe_status data f (rx_status fr)\<rparr>
    else None)"
proof -
  have "f = 0 \<or> f = 1" using assms(2) by auto
  then have "8 + f * 512 + 3 \<le> length data" using assms(1) by auto
  then have sync: "synced data f \<longleftrightarrow> data ! (8 + f * 512) = 0x7F \<and> data ! (8 + f * 512 + 1) = 0x7F
      \<and> data ! (8 + f * 512 + 2) = 0x7F"
    by (auto simp: synced_def take_Suc_conv_app_nth numeral_3_eq_3 numeral_2_eq_2)
  have "8 + f * 512 + 512 \<le> length data" using \<open>f = 0 \<or> f = 1\<close> assms(1) by auto
  note rows = parse_rows_samples [OF this assms(3), of "8 + f * 512 + 8"]
  have "8 + f * 512 + 512 - (8 + f * 512 + 8) = 504" "8 + f * 512 + 8 = 16 + f * 512" by simp_all
  then show ?thesis
    using rows sync
    by (simp add: parse_frame_def Let_def ddc_samples_def subframe_status_def add.commute [of 3])
qed

lemma parse_rx_packet_result:
  "parse_rx_packet data nddc = Some (
     if 1032 \<le> length data \<and> nddc \<noteq> 0 \<and> synced data 0 \<and> synced data 1
     then Some \<lparr>rx_samples = map (\<lambda>ddc. ddc_samples data nddc ddc 0 @ ddc_samples data nddc ddc 1) [0..<nddc],
                rx_status = subframe_status data 1 (subframe_status data 0 default_p1_status)\<rparr>
     else None)"
proof (cases "1032 \<le> length data \<and> nddc \<noteq> 0")
  case True
  then have len: "1032 \<le> length data" by simp
  let ?fr = "\<lparr>rx_samples = replicate nddc [], rx_status = default_p1_status\<rparr>"
  let ?fr1 = "\<lparr>rx_samples = map (\<lambda>ddc. rx_samples ?fr ! ddc @ ddc_samples data nddc ddc 0) [0..<nddc],
      rx_status = subframe_status data 0 (rx_status ?fr)\<rparr>"
  have 0: "parse_frame data nddc 0 ?fr = Some (if synced data 0 then Some ?fr1 else None)"
    using len by (intro parse_frame_result) simp_all
  have 1: "parse_frame data nddc 1 ?fr1 = Some (if synced data 1 then
      Some \<lparr>rx_samples = map (\<lambda>ddc. rx_samples ?fr1 ! ddc @ ddc_samples data nddc ddc 1) [0..<nddc],
           rx_status = subframe_status data 1 (rx_status ?fr1)\<rparr> else None)"
    using len by (intro parse_frame_result) simp_all
  have "map (\<lambda>ddc. rx_samples ?fr1 ! ddc @ ddc_samples data nddc ddc 1) [0..<nddc] =
      map (\<lambda>ddc. ddc_samples data nddc ddc 0 @ ddc_samples data nddc ddc 1) [0..<nddc]"
    by (rule map_cong) simp_all
  with True 0 1 show ?thesis by (simp add: parse_rx_packet_def)
qed (auto simp: parse_rx_packet_def)

text \<open>C15: Parsing a received packet never panics. It accepts exactly the packets of at least 1032
  bytes with both sync patterns (and a non-zero number of receivers); the samples of each receiver
  are those at the interleaved places of the first and then the second sub-frame, the last partial
  row being ignored, and the status is that of the two control blocks applied in order.\<close>

theorem parse_rx_packet_reference:
  "parse_rx_packet data nddc = Some (
     if 1032 \<le> length data \<and> nddc \<noteq> 0 \<and> synced data 0 \<and> synced data 1
     then Some \<lparr>rx_samples = map (\<lambda>ddc. ddc_samples data nddc ddc 0 @ ddc_samples data nddc ddc 1) [0..<nddc],
                rx_status = subframe_status data 1 (subframe_status data 0 default_p1_status)\<rparr>
     else None)"
  by (rule parse_rx_packet_result)

section \<open>What a transmitted packet contains\<close>

definition conjugate :: "Cx \<Rightarrow> Cx" where
  "conjugate s = Cx (re s) (fl_neg (im s))"

definition zero_sample :: Cx where
  "zero_sample = Cx (Fin 0) (Fin 0)"

text \<open>What sub-frame \<open>f\<close> carries: 63 samples from place \<open>63 f\<close>, zero past the end.\<close>

definition carried :: "Cx list \<Rightarrow> nat \<Rightarrow> Cx list" where
  "carried tx_iq f = map (\<lambda>i. if f * 63 + i < length tx_iq then conjugate (tx_iq ! (f * 63 + i))
                              else zero_sample) [0..<63]"

lemma low_byte: "(ucast (w AND 0xFF :: u16) :: u8) = ucast w"
proof (rule bit_word_eqI)
  fix n :: nat assume "n < LENGTH(8)"
  then have "n = 0 \<or> n = 1 \<or> n = 2 \<or> n = 3 \<or> n = 4 \<or> n = 5 \<or> n = 6 \<or> n = 7" by auto
  then show "bit (ucast (w AND 0xFF :: u16) :: u8) n = bit (ucast w :: u8) n"
    by (auto simp: bit_simps)
qed

lemma low_byte32: "(ucast (w AND 0xFF :: u32) :: u8) = ucast w"
proof (rule bit_word_eqI)
  fix n :: nat assume "n < LENGTH(8)"
  then have "n = 0 \<or> n = 1 \<or> n = 2 \<or> n = 3 \<or> n = 4 \<or> n = 5 \<or> n = 6 \<or> n = 7" by auto
  then show "bit (ucast (w AND 0xFF :: u32) :: u8) n = bit (ucast w :: u8) n"
    by (auto simp: bit_simps)
qed

lemma five_elements:
  assumes "length xs = 5"
  obtains a b c d e where "xs = [a, b, c, d, e]"
  using assms by (auto simp: length_Suc_conv eval_nat_numeral)

lemma quantize16_zero: "quantize16 (Fin 0) = 0"
  by code_simp

lemma tx_subframe_bytes:
  "tx_subframe tx_iq cb f = [0x7F, 0x7F, 0x7F] @ cb @ pack_tx_iq_16bit (carried tx_iq f)"
proof -
  define blk where "blk s = (let (i0, i1) = i16_to_be (quantize16 (re s));
      (q0, q1) = i16_to_be (quantize16 (im s)) in [0, 0, 0, 0, i0, i1, q0, q1])" for s
  have "tx_block tx_iq k = blk (if k < length tx_iq then conjugate (tx_iq ! k) else zero_sample)" for k
    by (simp add: tx_block_def blk_def Let_def i16_to_be_def u16_to_be_def low_byte conjugate_def
        zero_sample_def quantize16_zero case_prod_beta)
  then have "map (\<lambda>i. tx_block tx_iq (f * 63 + i)) [0..<63] = map blk (carried tx_iq f)"
    by (simp add: carried_def o_def)
  then show ?thesis
    unfolding tx_subframe_def pack_tx_iq_16bit_def blk_def by (simp only:)
qed

lemma length_pack16: "length (pack_tx_iq_16bit samples) = 8 * length samples"
  by (induction samples) (simp_all add: pack_tx_iq_16bit_def case_prod_beta Let_def)

lemma length_tx_subframe: "length cb = 5 \<Longrightarrow> length (tx_subframe tx_iq cb f) = 512"
  by (simp add: tx_subframe_bytes length_pack16 carried_def)

lemma unit_conjugate [simp]: "unit_sample s \<Longrightarrow> unit_sample (conjugate s)"
  by (auto simp: unit_sample_def conjugate_def)

lemma unit_carried: "list_all unit_sample tx_iq \<Longrightarrow> list_all unit_sample (carried tx_iq f)"
  by (auto simp: carried_def list_all_iff zero_sample_def)

text \<open>C21: A packet built for the radio has 1032 bytes: the header with the sequence number in
  big-endian order, then per sub-frame the sync pattern, its control block, and 63 samples (for samples in \<open>[-1, 1]\<close>) from
  which the receiver's unpacking gives back the samples with Q negated (up to 3/2^15), in order,
  and zero where there are no more.\<close>

theorem build_tx_packet_contents:
  assumes "length cb = 5" "length cb2 = 5" "list_all unit_sample tx_iq"
  shows "let p = build_tx_packet sequence tx_iq cb cb2 in
    length p = 1032 \<and> take 4 p = [0xEF, 0xFE, 0x01, 0x02] \<and>
    u32_from_be (p ! 4) (p ! 5) (p ! 6) (p ! 7) = sequence \<and>
    synced p 0 \<and> synced p 1 \<and> take 5 (drop 11 p) = cb \<and> take 5 (drop 523 p) = cb2 \<and>
    list_all2 (near (3 / 32768)) (carried tx_iq 0) (unpack_tx_iq_16bit (take 504 (drop 16 p))) \<and>
    list_all2 (near (3 / 32768)) (carried tx_iq 1) (unpack_tx_iq_16bit (take 504 (drop 528 p)))"
proof -
  have len: "length (pack_tx_iq_16bit (carried tx_iq f)) = 504" for f
    by (simp add: length_pack16 carried_def)
  have near: "list_all2 (near (3 / 32768)) (carried tx_iq f)
      (unpack_tx_iq_16bit (pack_tx_iq_16bit (carried tx_iq f)))" for f
    using assms(3) by (intro unpack_pack16 unit_carried)
  have seq: "u32_from_be (ucast (drop_bit 24 sequence AND 0xFF)) (ucast (drop_bit 16 sequence AND 0xFF))
      (ucast (drop_bit 8 sequence AND 0xFF)) (ucast (sequence AND 0xFF)) = sequence"
    using u32_be_roundtrip [of sequence] by (simp add: u32_to_be_def low_byte32)
  obtain a b c d e where cb: "cb = [a, b, c, d, e]" using assms(1) by (rule five_elements)
  obtain a' b' c' d' e' where cb2: "cb2 = [a', b', c', d', e']" using assms(2) by (rule five_elements)
  show ?thesis
    using near [of 0] near [of 1] len [of 0] len [of 1] seq
    by (simp add: build_tx_packet_def tx_subframe_bytes cb cb2 synced_def Let_def)
qed

theorem build_tx_packet_contents_witness:
  "u32_from_be (build_tx_packet 7 [Cx (Fin (1/2)) (Fin 1)] [0, 1, 0, 0, 4] [2, 0, 0, 0, 0] ! 4)
     (build_tx_packet 7 [Cx (Fin (1/2)) (Fin 1)] [0, 1, 0, 0, 4] [2, 0, 0, 0, 0] ! 5)
     (build_tx_packet 7 [Cx (Fin (1/2)) (Fin 1)] [0, 1, 0, 0, 4] [2, 0, 0, 0, 0] ! 6)
     (build_tx_packet 7 [Cx (Fin (1/2)) (Fin 1)] [0, 1, 0, 0, 4] [2, 0, 0, 0, 0] ! 7) = 7 \<and>
   length (build_tx_packet 7 [Cx (Fin (1/2)) (Fin 1)] [0, 1, 0, 0, 4] [2, 0, 0, 0, 0]) = 1032"
  using build_tx_packet_contents [of "[0, 1, 0, 0, 4]" "[2, 0, 0, 0, 0]" "[Cx (Fin (1/2)) (Fin 1)]" 7]
  by (simp add: Let_def)

end
