(* ===== verification/Emu_Protocol1.thy ===== *)
theory Emu_Protocol1
  imports Emu_Radio Proto_Packets
begin

text \<open>
  \<^verbatim>\<open>crates/radio-utils-emu/src/protocol1.rs\<close>: the emulator's side of Protocol 1. A client's state
  is changed by the host's packets and read to build the packets sent back; the echo buffer is
  shared by all clients behind a lock, so every operation on it takes and returns it (\<open>None\<close>: the
  emulator runs without one). The clock readings of one sub-frame are the argument \<open>clock\<close>, the
  order of hash-map iteration is \<open>order\<close>. Sending, spawning and channel operations are actions
  returned by the step functions.
\<close>

definition PACKET_SIZE :: nat where "PACKET_SIZE = 1032"
definition SUBFRAME_SIZE :: nat where "SUBFRAME_SIZE = 512"
definition SYNC :: bytes where "SYNC = [0x7F, 0x7F, 0x7F]"
definition DEFAULT_MAX_CLIENTS :: nat where "DEFAULT_MAX_CLIENTS = 32"
definition MAX_TX_IQ_SAMPLES :: nat where "MAX_TX_IQ_SAMPLES = 63"
definition RESPONSE_ADDRS :: bytes where "RESPONSE_ADDRS = [0x00, 0x08, 0x10, 0x18]"

section \<open>Client state\<close>

record SiggenConfig =
  cfg_sample_rate :: u32
  cfg_noise_level :: fval

record 'g ClientState =
  cs_addr :: SocketAddr
  cs_sample_rate :: u32
  cs_nddc :: u8
  rx_frequencies :: "u32 list"
  tx_frequency :: u32
  cs_ptt :: bool
  cs_tx_drive :: u8
  oc_outputs :: u8
  pa_enabled :: bool
  data_seq :: u32
  control_idx :: u8
  siggen :: "'g SignalGenerator"
  echo_playback :: EchoPlaybackState
  pkt_buf :: bytes
  freq_buf :: "u32 list"
  ddc_sample_bufs :: "Cx list list"
  tx_iq_buf :: "Cx list"
  recording_freq :: "u32 option"
  tx_envelope :: fval

definition new_client :: "SocketAddr \<Rightarrow> SiggenConfig \<Rightarrow> 'g \<Rightarrow> 'g ClientState" where
  "new_client a cfg g = \<lparr>cs_addr = a, cs_sample_rate = cfg_sample_rate cfg, cs_nddc = 1,
     rx_frequencies = replicate 12 7074000, tx_frequency = 7074000, cs_ptt = False, cs_tx_drive = 0,
     oc_outputs = 0, pa_enabled = False, data_seq = 0, control_idx = 0,
     siggen = new_siggen (cfg_sample_rate cfg) (cfg_noise_level cfg) g,
     echo_playback = new_playback_state, pkt_buf = replicate PACKET_SIZE 0, freq_buf = replicate 12 0,
     ddc_sample_bufs = replicate 12 [], tx_iq_buf = replicate MAX_TX_IQ_SAMPLES cx_zero,
     recording_freq = None, tx_envelope = Fin 0\<rparr>"

definition next_seq :: "'g ClientState \<Rightarrow> u32 \<times> 'g ClientState" where
  "next_seq cs = (data_seq cs, cs\<lparr>data_seq := data_seq cs + 1\<rparr>)"

section \<open>Discovery response\<close>

text \<open>\<open>mac\<close> is an array of six bytes, \<open>mercury_versions\<close> one of four.\<close>

definition build_discovery_response :: "HwInfo \<Rightarrow> u8 \<Rightarrow> bytes" where
  "build_discovery_response h nddc =
     [0xEF, 0xFE, 0x02] @ hw_mac h @ [hw_firmware_version h, p1_code (hw h), 0, 0, 0]
     @ mercury_versions h @ [penny_version h, metis_version h, nddc] @ replicate 39 0"

section \<open>Control\<close>

text \<open>Address 0x00: sample rate, number of receivers, open-collector outputs.\<close>

definition set_rate :: "u8 \<Rightarrow> 'g ClientState \<Rightarrow> 'g ClientState" where
  "set_rate rate_code cs =
     (case p1_code_to_sample_rate rate_code of
        Some rate \<Rightarrow>
          if cs_sample_rate cs \<noteq> rate
          then cs\<lparr>cs_sample_rate := rate, siggen := (siggen cs)\<lparr>sg_sample_rate := rate\<rparr>\<rparr>
          else cs
      | None \<Rightarrow> cs)"

definition control_general :: "u8 \<Rightarrow> u8 \<Rightarrow> u8 \<Rightarrow> 'g ClientState \<Rightarrow> 'g ClientState" where
  "control_general c1 c2 c4 cs =
     (let rate_code = c1 AND 0x03;
          cs = set_rate rate_code cs;
          nddc = (drop_bit 3 c4 AND 0x07) + 1;
          cs = (if nddc \<noteq> cs_nddc cs then cs\<lparr>cs_nddc := nddc\<rparr> else cs);
          oc = drop_bit 1 c2
      in if oc \<noteq> oc_outputs cs then cs\<lparr>oc_outputs := oc\<rparr> else cs)"

text \<open>Address 0x12: drive and power amplifier.\<close>

definition control_drive :: "u8 \<Rightarrow> u8 \<Rightarrow> 'g ClientState \<Rightarrow> 'g ClientState" where
  "control_drive c1 c2 cs =
     (let cs = (if cs_tx_drive cs \<noteq> c1 then cs\<lparr>cs_tx_drive := c1\<rparr> else cs);
          pa_enable = (c2 AND 0x08 \<noteq> 0)
      in if pa_enable \<noteq> pa_enabled cs then cs\<lparr>pa_enabled := pa_enable\<rparr> else cs)"

definition process_control ::
  "'g ClientState \<Rightarrow> u8 \<Rightarrow> u8 \<Rightarrow> u8 \<Rightarrow> u8 \<Rightarrow> u8 \<Rightarrow> bool \<times> 'g ClientState" where
  "process_control cs c0 c1 c2 c3 c4 =
     (let mox = (c0 AND 0x01 \<noteq> 0);
          addr_field = c0 AND 0xFE;
          ptt_changed = (mox \<noteq> cs_ptt cs);
          cs = (if ptt_changed then cs\<lparr>cs_ptt := mox\<rparr> else cs);
          cs =
            (if addr_field = 0x00 then control_general c1 c2 c4 cs
             else if addr_field = 0x02 then
               let freq = u32_from_be c1 c2 c3 c4
               in (if tx_frequency cs \<noteq> freq then cs\<lparr>tx_frequency := freq\<rparr> else cs)
             else if 0x04 \<le> addr_field \<and> addr_field < 0x12 \<and> unat addr_field mod 2 = 0 then
               let ddc_idx = (unat addr_field - 4) div 2;
                   freq = u32_from_be c1 c2 c3 c4
               in (if ddc_idx < length (rx_frequencies cs) \<and> rx_frequencies cs ! ddc_idx \<noteq> freq
                   then cs\<lparr>rx_frequencies := (rx_frequencies cs)[ddc_idx := freq]\<rparr>
                   else cs)
             else if addr_field = 0x12 then control_drive c1 c2 cs
             else cs)
      in (ptt_changed, cs))"

section \<open>Host data\<close>

definition sample_magnitude :: "'g externals \<Rightarrow> Cx \<Rightarrow> fval" where
  "sample_magnitude E s = f64_sqrt E (f64_add (f64_mul (re s) (re s)) (f64_mul (im s) (im s)))"

definition tx_peak :: "'g externals \<Rightarrow> Cx list \<Rightarrow> fval" where
  "tx_peak E samples = fold (\<lambda>x acc. fl_max acc x) (map (sample_magnitude E) samples) (Fin 0)"

definition next_envelope :: "fval \<Rightarrow> fval \<Rightarrow> fval" where
  "next_envelope env peak =
     (if fl_less env peak then peak
      else f64_add (f64_mul env (f64_round (19/20))) (f64_mul peak (f64_round (1/20))))"

type_synonym clock = "nat \<times> nat \<times> nat"

text \<open>One pass of the loop of \<open>process_host_frame\<close>, on the 512 bytes of a sub-frame.\<close>

definition process_host_subframe ::
  "'g externals \<Rightarrow> clock \<Rightarrow> bytes \<Rightarrow> 'g ClientState \<times> EchoBuffer option \<Rightarrow> 'g ClientState \<times> EchoBuffer option" where
  "process_host_subframe E clock sf st =
     (let (cs, echo) = st; (now, now', stopped) = clock in
      if take 3 sf \<noteq> SYNC then (cs, echo)
      else
        let (ptt_changed, cs) = process_control cs (sf ! 3) (sf ! 4) (sf ! 5) (sf ! 6) (sf ! 7)
        in if cs_ptt cs then
             let tx_data = take (MAX_TX_IQ_SAMPLES * 8) (drop 8 sf);
                 (n, iq) = unpack_tx_iq_16bit_into tx_data (tx_iq_buf cs);
                 cs = cs\<lparr>tx_iq_buf := iq\<rparr>;
                 peak = tx_peak E (take n iq);
                 cs = cs\<lparr>tx_envelope := next_envelope (tx_envelope cs) peak\<rparr>
             in case echo of
                  None \<Rightarrow> (cs, None)
                | Some echo_buf \<Rightarrow>
                    let (cs, echo_buf) =
                          (if ptt_changed
                           then (cs\<lparr>recording_freq := Some (tx_frequency cs)\<rparr>,
                                 start_recording now now' (tx_frequency cs) (cs_addr cs) (cs_sample_rate cs) echo_buf)
                           else (cs, echo_buf))
                    in case recording_freq cs of
                         Some freq \<Rightarrow> (cs, Some (feed E freq (cs_addr cs) (take n (tx_iq_buf cs)) echo_buf))
                       | None \<Rightarrow> (cs, Some echo_buf)
           else
             let cs = cs\<lparr>tx_envelope := Fin 0\<rparr>
             in case echo of
                  None \<Rightarrow> (cs, None)
                | Some echo_buf \<Rightarrow>
                    if ptt_changed
                    then case recording_freq cs of
                        Some freq \<Rightarrow> (cs\<lparr>recording_freq := None\<rparr>,
                                     Some (stop_recording E stopped freq (cs_addr cs) echo_buf))
                      | None \<Rightarrow> (cs, Some echo_buf)
                    else (cs, Some echo_buf))"

definition subframe_at :: "bytes \<Rightarrow> nat \<Rightarrow> bytes" where
  "subframe_at data offset = take SUBFRAME_SIZE (drop offset data)"

definition process_host_frame ::
  "'g externals \<Rightarrow> clock \<Rightarrow> clock \<Rightarrow> bytes \<Rightarrow> 'g ClientState \<times> EchoBuffer option \<Rightarrow>
   'g ClientState \<times> EchoBuffer option" where
  "process_host_frame E clock clock' data st =
     (if length data < PACKET_SIZE then st
      else if data ! 0 \<noteq> 0xEF \<or> data ! 1 \<noteq> 0xFE \<or> data ! 2 \<noteq> 0x01 then st
      else process_host_subframe E clock' (subframe_at data 520)
             (process_host_subframe E clock (subframe_at data 8) st))"

text \<open>One pass of the loop of \<open>handle_host_data\<close>: the client's own state first, then the echo
  buffer under the write lock.\<close>

definition handle_subframe ::
  "'g externals \<Rightarrow> clock \<Rightarrow> bytes \<Rightarrow> 'g ClientState \<times> EchoBuffer option \<Rightarrow> 'g ClientState \<times> EchoBuffer option" where
  "handle_subframe E clock sf st =
     (let (cs, echo) = st; (now, now', stopped) = clock in
      if take 3 sf \<noteq> SYNC then (cs, echo)
      else
        let (ptt_changed, cs) = process_control cs (sf ! 3) (sf ! 4) (sf ! 5) (sf ! 6) (sf ! 7);
            (tx_samples, cs) =
              (if cs_ptt cs then
                 let tx_data = take (MAX_TX_IQ_SAMPLES * 8) (drop 8 sf);
                     (n, iq) = unpack_tx_iq_16bit_into tx_data (tx_iq_buf cs);
                     peak = tx_peak E (take n iq)
                 in (Some n, cs\<lparr>tx_iq_buf := iq, tx_envelope := next_envelope (tx_envelope cs) peak\<rparr>)
               else (None, cs\<lparr>tx_envelope := Fin 0\<rparr>))
        in if ptt_changed \<or> tx_samples \<noteq> None
           then case echo of
               None \<Rightarrow> (cs, None)
             | Some echo_buf \<Rightarrow>
                 let (cs, echo_buf) =
                       (if ptt_changed then
                          if cs_ptt cs
                          then (cs\<lparr>recording_freq := Some (tx_frequency cs)\<rparr>,
                                start_recording now now' (tx_frequency cs) (cs_addr cs) (cs_sample_rate cs) echo_buf)
                          else case recording_freq cs of
                              Some freq \<Rightarrow> (cs\<lparr>recording_freq := None\<rparr>,
                                           stop_recording E stopped freq (cs_addr cs) echo_buf)
                            | None \<Rightarrow> (cs, echo_buf)
                        else (cs, echo_buf))
                 in case tx_samples of
                      None \<Rightarrow> (cs, Some echo_buf)
                    | Some n \<Rightarrow>
                        (case recording_freq cs of
                           Some freq \<Rightarrow> (cs, Some (feed E freq (cs_addr cs) (take n (tx_iq_buf cs)) echo_buf))
                         | None \<Rightarrow> (cs, Some echo_buf))
           else (cs, echo))"

definition handle_host_data ::
  "'g externals \<Rightarrow> clock \<Rightarrow> clock \<Rightarrow> bytes \<Rightarrow> 'g ClientState \<times> EchoBuffer option \<Rightarrow>
   'g ClientState \<times> EchoBuffer option" where
  "handle_host_data E clock clock' data st =
     (if length data < PACKET_SIZE then st
      else handle_subframe E clock' (subframe_at data 520)
             (handle_subframe E clock (subframe_at data 8) st))"

section \<open>Building packets\<close>

definition be16 :: "nat \<Rightarrow> bytes" where
  "be16 k = (let (a, b) = u16_to_be (of_nat k) in [a, b])"

definition power_frac :: "'g ClientState \<Rightarrow> fval" where
  "power_frac cs = f64_mul (f64_div (f64_of_int (uint (cs_tx_drive cs))) (Fin 255))
     (fl_clamp (Fin 0) (Fin 1) (tx_envelope cs))"

text \<open>C1 to C4 of the response to an address.\<close>

definition response_bytes :: "'g externals \<Rightarrow> 'g ClientState \<Rightarrow> HwInfo \<Rightarrow> u8 \<Rightarrow> bytes" where
  "response_bytes E cs h c0_addr =
     (let keyed = (cs_ptt cs \<and> 0 < cs_tx_drive cs);
          fwd = f64_as_u16 (f64_mul (f64_sqrt E (power_frac cs)) (Fin 3800)) in
      if c0_addr = 0x00 then [0x00, hw_firmware_version h, penny_version h, 0x00]
      else if c0_addr = 0x08 then
        let exc = f64_as_u16 (f64_mul (f64_sqrt E (power_frac cs)) (Fin 800))
        in (if keyed then be16 exc @ be16 fwd else be16 0 @ be16 0)
      else if c0_addr = 0x10 then
        (if keyed then be16 (f64_as_u16 (fl_max (f64_mul (f64_of_int (int fwd)) (f64_round (13/100))) (Fin 1)))
         else be16 0) @ be16 3200
      else if c0_addr = 0x18 then
        be16 (if cs_ptt cs then unat (cs_tx_drive cs) * 5 else 0) @ be16 3200
      else [0, 0, 0, 0])"

text \<open>The samples of one receiver: the echo, or silence, and the receiver noise.\<close>

definition generate_ddc ::
  "'g externals \<Rightarrow> (u32 list \<Rightarrow> u32 list) \<Rightarrow> EchoBuffer option \<Rightarrow> nat \<Rightarrow> nat \<Rightarrow> 'g ClientState \<Rightarrow> 'g ClientState option" where
  "generate_ddc E order echo spr ddc_idx cs =
     (if length (ddc_sample_bufs cs) \<le> ddc_idx then None
      else
        let ddc_buf = resize spr (ddc_sample_bufs cs ! ddc_idx);
            generated = (case echo of
                None \<Rightarrow> Some (echo_playback cs, replicate spr cx_zero)
              | Some echo_ref \<Rightarrow>
                  if has_data echo_ref
                  then case eb_mode echo_ref of
                      Live \<Rightarrow> Some (generate_live_echo_into E order echo_ref (echo_playback cs) ddc_buf
                                     (freq_buf cs ! ddc_idx) (cs_sample_rate cs))
                    | Loop \<Rightarrow> generate_echo_into E order echo_ref (echo_playback cs) ddc_buf
                                     (freq_buf cs ! ddc_idx) (cs_sample_rate cs)
                  else Some (echo_playback cs, replicate spr cx_zero))
        in case generated of
             None \<Rightarrow> None
           | Some (ps, ddc_buf) \<Rightarrow>
               let (ddc_buf, sg) = add_noise_into E (siggen cs) ddc_buf
               in Some (cs\<lparr>echo_playback := ps, siggen := sg,
                           ddc_sample_bufs := (ddc_sample_bufs cs)[ddc_idx := ddc_buf]\<rparr>))"

text \<open>The interleaved samples: a row holds one sample per receiver and two microphone bytes.\<close>

definition pack_row :: "Cx list list \<Rightarrow> nat \<Rightarrow> nat \<Rightarrow> bytes \<times> nat \<Rightarrow> (bytes \<times> nat) option" where
  "pack_row bufs nddc row st =
     (case steps (\<lambda>ddc_idx (buf, off).
               if ddc_idx < length bufs \<and> row < length (bufs ! ddc_idx)
               then pack_iq_24bit_into buf off (bufs ! ddc_idx ! row) else None) [0..<nddc] st of
        None \<Rightarrow> None
      | Some (buf, off) \<Rightarrow> if off + 2 \<le> length buf then Some (buf[off := 0, off + 1 := 0], off + 2) else None)"

definition fill_subframe_sync ::
  "'g externals \<Rightarrow> (u32 list \<Rightarrow> u32 list) \<Rightarrow> HwInfo \<Rightarrow> EchoBuffer option \<Rightarrow> nat \<Rightarrow>
   'g ClientState \<times> bytes \<Rightarrow> ('g ClientState \<times> bytes) option" where
  "fill_subframe_sync E order h echo offset st =
     (let (cs, buf) = st;
          nddc = max (unat (cs_nddc cs)) 1;
          spr = 504 div (6 * nddc + 2);
          c0_addr = RESPONSE_ADDRS ! (unat (control_idx cs) mod length RESPONSE_ADDRS);
          cs = cs\<lparr>control_idx := of_nat ((unat (control_idx cs) + 1) mod length RESPONSE_ADDRS)\<rparr>;
          ptt_bit = (if cs_ptt cs then 1 else 0)
      in if length buf < offset + SUBFRAME_SIZE \<or> 12 < nddc then None
         else
           let buf = write_at offset ([0x7F, 0x7F, 0x7F, c0_addr OR ptt_bit] @ response_bytes E cs h c0_addr) buf;
               cs = cs\<lparr>freq_buf := take nddc (rx_frequencies cs) @ drop nddc (freq_buf cs)\<rparr>
           in case steps (generate_ddc E order echo spr) [0..<nddc] cs of
                None \<Rightarrow> None
              | Some cs \<Rightarrow>
                  (case steps (pack_row (ddc_sample_bufs cs) nddc) [0..<spr] (buf, offset + 8) of
                     None \<Rightarrow> None
                   | Some (buf, data_offset) \<Rightarrow>
                       Some (cs, if data_offset < offset + SUBFRAME_SIZE
                                 then write_at data_offset (replicate (offset + SUBFRAME_SIZE - data_offset) 0) buf
                                 else buf)))"

definition build_data_packet_sync ::
  "'g externals \<Rightarrow> (u32 list \<Rightarrow> u32 list) \<Rightarrow> HwInfo \<Rightarrow> EchoBuffer option \<Rightarrow> 'g ClientState \<Rightarrow>
   'g ClientState option" where
  "build_data_packet_sync E order h echo cs =
     (let (s, cs) = next_seq cs; (s0, s1, s2, s3) = u32_to_be s
      in if length (pkt_buf cs) < 8 then None
         else
           let buf = write_at 0 [0xEF, 0xFE, 0x01, 0x06, s0, s1, s2, s3] (pkt_buf cs)
           in case fill_subframe_sync E order h echo 8 (cs\<lparr>pkt_buf := []\<rparr>, buf) of
                None \<Rightarrow> None
              | Some st \<Rightarrow>
                  (case fill_subframe_sync E order h echo 520 st of
                     None \<Rightarrow> None
                   | Some (cs, buf) \<Rightarrow> Some (cs\<lparr>pkt_buf := buf\<rparr>)))"

text \<open>The asynchronous version holds the read lock over both sub-frames.\<close>

definition build_data_packet ::
  "'g externals \<Rightarrow> (u32 list \<Rightarrow> u32 list) \<Rightarrow> HwInfo \<Rightarrow> EchoBuffer option \<Rightarrow> 'g ClientState \<Rightarrow>
   'g ClientState option" where
  "build_data_packet E order h echo cs =
     (let (s, cs) = next_seq cs; (s0, s1, s2, s3) = u32_to_be s
      in if length (pkt_buf cs) < 8 then None
         else
           let buf = write_at 0 [0xEF, 0xFE, 0x01, 0x06, s0, s1, s2, s3] (pkt_buf cs);
               echo_guard = echo
           in case fill_subframe_sync E order h echo_guard 8 (cs\<lparr>pkt_buf := []\<rparr>, buf) of
                None \<Rightarrow> None
              | Some st \<Rightarrow>
                  (case fill_subframe_sync E order h echo_guard 520 st of
                     None \<Rightarrow> None
                   | Some (cs, buf) \<Rightarrow> Some (cs\<lparr>pkt_buf := buf\<rparr>)))"

end
