(* ===== verification/Emu_Server.thy ===== *)
theory Emu_Server
  imports Emu_Protocol1
begin

text \<open>
  \<^verbatim>\<open>crates/radio-utils-emu/src/protocol1.rs\<close>, the tasks: \<open>client_task\<close> as a step function on
  what its \<^verbatim>\<open>select!\<close> sees (timer tick, command, stop), and the receive loop of
  \<open>run_protocol1_on\<close> as a step function on datagrams. The socket, the channels and \<^verbatim>\<open>spawn\<close> are
  tokio's: what the code asks of them is returned as actions; what the channels report back
  (\<open>is_closed\<close>) is an argument. An interval is the seconds given to \<^verbatim>\<open>Duration::from_secs_f64\<close>.
\<close>

definition PORT :: u16 where "PORT = 1024"

section \<open>The task of a client\<close>

record 'g ClientTask =
  ct_cs :: "'g ClientState"
  ct_interval :: fval
  cur_nddc :: nat
  cur_sample_rate :: u32

definition interval_for :: "nat \<Rightarrow> u32 \<Rightarrow> fval" where
  "interval_for nddc rate =
     (let spr = 504 div (6 * nddc + 2); samples_per_packet = spr * 2
      in f64_div (f64_of_int (int samples_per_packet)) (f64_of_u32 rate))"

text \<open>\<^verbatim>\<open>Duration::from_secs_f64\<close> panics on a negative, infinite or NaN number of seconds (and on
  2^64 seconds and more), \<^verbatim>\<open>tokio::time::interval\<close> on a zero period.\<close>

definition valid_interval :: "fval \<Rightarrow> bool" where
  "valid_interval f = (case f of Fin x \<Rightarrow> 1 / 2000000000 < x \<and> x < 2 ^ 64 | _ \<Rightarrow> False)"

definition start_task :: "SocketAddr \<Rightarrow> SiggenConfig \<Rightarrow> 'g \<Rightarrow> 'g ClientTask option" where
  "start_task a cfg g =
     (let cs = new_client a cfg g;
          nddc = max (unat (cs_nddc cs)) 1;
          interval = interval_for nddc (cs_sample_rate cs)
      in if valid_interval interval
         then Some \<lparr>ct_cs = cs, ct_interval = interval, cur_nddc = nddc, cur_sample_rate = cs_sample_rate cs\<rparr>
         else None)"

datatype task_event =
    Tick fval "u32 list \<Rightarrow> u32 list"
  | Cmd bytes clock clock
  | Stop nat

datatype task_action = SendTo bytes SocketAddr

text \<open>The timer branch: noise level from the shared configuration (the argument of \<open>Tick\<close>), the
  interval when the streaming parameters changed, the packet.\<close>

definition retime :: "'g ClientTask \<Rightarrow> 'g ClientTask option" where
  "retime t =
     (let new_nddc = max (unat (cs_nddc (ct_cs t))) 1;
          new_rate = cs_sample_rate (ct_cs t)
      in if new_nddc \<noteq> cur_nddc t \<or> new_rate \<noteq> cur_sample_rate t
         then let new_interval = interval_for new_nddc new_rate
              in if valid_interval new_interval
                 then Some (t\<lparr>cur_nddc := new_nddc, cur_sample_rate := new_rate, ct_interval := new_interval\<rparr>)
                 else None
         else Some t)"

definition task_tick ::
  "'g externals \<Rightarrow> HwInfo \<Rightarrow> fval \<Rightarrow> (u32 list \<Rightarrow> u32 list) \<Rightarrow> EchoBuffer option \<Rightarrow> 'g ClientTask \<Rightarrow>
   (task_action list \<times> 'g ClientTask) option" where
  "task_tick E h noise_level order echo t =
     (let cs = ct_cs t; cs = cs\<lparr>siggen := (siggen cs)\<lparr>sg_noise_level := noise_level\<rparr>\<rparr>
      in case retime (t\<lparr>ct_cs := cs\<rparr>) of
           None \<Rightarrow> None
         | Some t \<Rightarrow>
             (case build_data_packet E order h echo (ct_cs t) of
                None \<Rightarrow> None
              | Some cs \<Rightarrow> Some ([SendTo (pkt_buf cs) (cs_addr cs)], t\<lparr>ct_cs := cs\<rparr>)))"

text \<open>Releasing the recorder when the task ends.\<close>

definition task_cleanup ::
  "'g externals \<Rightarrow> nat \<Rightarrow> 'g ClientState \<times> EchoBuffer option \<Rightarrow> 'g ClientState \<times> EchoBuffer option" where
  "task_cleanup E now st =
     (let (cs, echo) = st
      in case recording_freq cs of
           None \<Rightarrow> (cs, echo)
         | Some freq \<Rightarrow>
             (cs\<lparr>recording_freq := None\<rparr>, map_option (stop_recording E now freq (cs_addr cs)) echo))"

text \<open>The result is the task's state while it runs, the actions, and the shared echo buffer.\<close>

fun client_task_step ::
  "'g externals \<Rightarrow> HwInfo \<Rightarrow> task_event \<Rightarrow> 'g ClientTask \<times> EchoBuffer option \<Rightarrow>
   (task_action list \<times> 'g ClientTask option \<times> EchoBuffer option) option" where
  "client_task_step E h (Tick noise_level order) (t, echo) =
     map_option (\<lambda>(acts, t). (acts, Some t, echo)) (task_tick E h noise_level order echo t)"
| "client_task_step E h (Cmd data clk clk') (t, echo) =
     (let (cs, echo) = handle_host_data E clk clk' data (ct_cs t, echo)
      in Some ([], Some (t\<lparr>ct_cs := cs\<rparr>), echo))"
| "client_task_step E h (Stop now) (t, echo) =
     (let (cs, echo) = task_cleanup E now (ct_cs t, echo) in Some ([], None, echo))"

section \<open>The receive loop\<close>

datatype server_action =
    Respond bytes SocketAddr
  | Spawn SocketAddr
  | TrySend SocketAddr bytes
  | SendStop SocketAddr

text \<open>The keys of \<open>clients\<close> stand for the handles; \<open>stop_tx\<close> is taken only when a handle has been
  removed, so a handle in the table always has it.\<close>

record Server =
  clients :: "SocketAddr list"
  cleanup_counter :: u32

definition new_server :: Server where
  "new_server = \<lparr>clients = [], cleanup_counter = 0\<rparr>"

definition start_streaming :: "nat \<Rightarrow> SocketAddr \<Rightarrow> Server \<Rightarrow> server_action list \<times> Server" where
  "start_streaming max_clients a s =
     (if a \<in> set (clients s) then ([], s)
      else if max_clients \<le> length (clients s) then ([], s)
      else ([Spawn a], s\<lparr>clients := clients s @ [a]\<rparr>))"

definition stop_streaming :: "SocketAddr \<Rightarrow> Server \<Rightarrow> server_action list \<times> Server" where
  "stop_streaming a s =
     (if a \<in> set (clients s) then ([SendStop a], s\<lparr>clients := filter (\<lambda>b. b \<noteq> a) (clients s)\<rparr>)
      else ([], s))"

definition forward_data ::
  "(SocketAddr \<Rightarrow> bool) \<Rightarrow> SocketAddr \<Rightarrow> bytes \<Rightarrow> Server \<Rightarrow> server_action list \<times> Server" where
  "forward_data is_closed a data s =
     (let acts = (if a \<in> set (clients s) then [TrySend a data] else []);
          s = s\<lparr>cleanup_counter := cleanup_counter s + 1\<rparr>;
          s = (if 100 \<le> cleanup_counter s
               then s\<lparr>cleanup_counter := 0, clients := filter (\<lambda>b. \<not> is_closed b) (clients s)\<rparr>
               else s)
      in (acts, s))"

text \<open>One datagram. With debug logging on, the log line reads \<^verbatim>\<open>data[2]\<close> before the length is
  checked: \<open>None\<close> is that panic.\<close>

definition recv_step ::
  "HwInfo \<Rightarrow> nat \<Rightarrow> bool \<Rightarrow> (SocketAddr \<Rightarrow> bool) \<Rightarrow> bytes \<Rightarrow> SocketAddr \<Rightarrow> Server \<Rightarrow>
   (server_action list \<times> Server) option" where
  "recv_step h max_clients debug_log is_closed data a s =
     (if debug_log \<and> length data < 3 then None
      else if length data < 4 \<or> data ! 0 \<noteq> 0xEF \<or> data ! 1 \<noteq> 0xFE then Some ([], s)
      else if data ! 2 = 0x02
      then Some ([Respond (build_discovery_response h (max_ddcs (hw h))) a], s)
      else if data ! 2 = 0x04 \<and> 3 < length data
      then Some (if data ! 3 = 0x01 then start_streaming max_clients a s
                 else if data ! 3 = 0x00 then stop_streaming a s
                 else ([], s))
      else if data ! 2 = 0x01 then Some (forward_data is_closed a data s)
      else Some ([], s))"

end
