(* ===== verification/Echo_Playback.thy ===== *)
theory Echo_Playback
  imports Emu_Radio
begin

text \<open>
  Recording and loop playback of the emulator: what every history of an echo buffer keeps true of
  its recordings, that playing them back always ends without a panic, and that the blocks played
  to a client are consecutive pieces of the endless repetition of the recording.
\<close>

section \<open>Histories of an echo buffer\<close>

datatype echo_op =
    Start nat nat u32 SocketAddr u32
  | Feed u32 SocketAddr "Cx list"
  | Stop_rec nat u32 SocketAddr

fun echo_op_step :: "'g externals \<Rightarrow> echo_op \<Rightarrow> EchoBuffer \<Rightarrow> EchoBuffer" where
  "echo_op_step E (Start now now' f c sr) eb = start_recording now now' f c sr eb"
| "echo_op_step E (Feed f c samples) eb = feed E f c samples eb"
| "echo_op_step E (Stop_rec now f c) eb = stop_recording E now f c eb"

definition echo_history :: "'g externals \<Rightarrow> EchoMode \<Rightarrow> echo_op list \<Rightarrow> EchoBuffer" where
  "echo_history E mode ops = fold (echo_op_step E) ops (new_echo_buffer E mode)"

text \<open>The echoes that are committed: not empty, not under frequency 0.\<close>

definition playable :: "(u32, Cx list) hash_map \<Rightarrow> bool" where
  "playable m \<longleftrightarrow> (\<forall>f e. map_of m f = Some e \<longrightarrow> e \<noteq> [] \<and> f \<noteq> 0)"

lemma length_crossfade [simp]: "length (crossfade E fade n k buf) = length buf"
  by (induction E fade n k buf rule: crossfade.induct) (simp_all add: Let_def)

lemma crossfade_Nil [simp]: "crossfade E fade n k buf = [] \<longleftrightarrow> buf = []"
  by (simp flip: length_0_conv)

lemma trim_zeros_nonempty: "list_ex non_zero buf \<Longrightarrow> trim_zeros buf \<noteq> []"
proof -
  let ?d = "dropWhile (\<lambda>s. \<not> non_zero s) buf"
  assume "list_ex non_zero buf"
  then have d: "?d \<noteq> []" by (auto simp: list_ex_iff dropWhile_eq_Nil_conv)
  then have "non_zero (hd ?d)" using hd_dropWhile by blast
  moreover have "hd ?d \<in> set ?d" using d by simp
  ultimately have "\<exists>s \<in> set (rev ?d). non_zero s" by auto
  then show ?thesis unfolding trim_zeros_def by (metis Nil_is_rev_conv dropWhile_eq_Nil_conv)
qed

lemma fade_loop_nonempty: "buf \<noteq> [] \<Longrightarrow> fade_loop E sr buf \<noteq> []"
proof -
  assume "buf \<noteq> []"
  then have "min k (length buf div 4) < length buf" for k by (cases buf) auto
  then have "0 < length (fade_loop E sr buf)"
    using \<open>buf \<noteq> []\<close> by (auto simp: fade_loop_def Let_def)
  then show ?thesis by simp
qed

lemma loop_of_recording_nonempty: "list_ex non_zero buf \<Longrightarrow> loop_of_recording E sr m buf \<noteq> []"
  unfolding loop_of_recording_def
  by (rule fade_loop_nonempty) (simp add: append_silence_def Let_def trim_zeros_nonempty)

lemma commit_playable: "playable (echoes eb) \<Longrightarrow> playable (echoes (commit_freq E f eb))"
  by (auto simp: commit_freq_def playable_def Let_def map_simps loop_of_recording_nonempty
      split: option.splits)

lemma echoes_unchanged [simp]:
  "echoes (open_live f sr eb) = echoes eb"
  "echoes (join_live f c eb) = echoes eb"
  "echoes (leave_live f c eb) = echoes eb"
  "echoes (stamp_ptt_off now f eb) = echoes eb"
  by (auto simp: open_live_def join_live_def leave_live_def stamp_ptt_off_def Let_def split: option.splits)

lemma echoes_start [simp]: "echoes (start_recording now now' f c sr eb) = echoes eb"
  by (simp add: start_recording_def Let_def split: option.splits)

lemma echoes_feed [simp]: "echoes (feed E f c samples eb) = echoes eb"
  by (simp add: feed_def Let_def split: option.splits)

lemma stop_playable: "playable (echoes eb) \<Longrightarrow> playable (echoes (stop_recording E now f c eb))"
  by (simp add: stop_recording_def Let_def commit_playable split: option.splits)

lemma history_playable: "playable (echoes (echo_history E mode ops))"
proof -
  have step: "playable (echoes eb) \<Longrightarrow> playable (echoes (echo_op_step E op eb))" for op eb
    by (cases op) (simp_all add: stop_playable)
  have run: "playable (echoes eb) \<Longrightarrow> playable (echoes (fold (echo_op_step E) ops eb))" for eb
    by (induction ops arbitrary: eb) (simp_all add: step)
  have "playable (echoes (new_echo_buffer E mode))" by (simp add: new_echo_buffer_def playable_def)
  then show ?thesis unfolding echo_history_def by (rule run)
qed

section \<open>Playback\<close>

definition endless :: "Cx list \<Rightarrow> nat \<Rightarrow> nat \<Rightarrow> Cx list" where
  "endless e pos n = map (\<lambda>i. e ! ((pos + i) mod length e)) [0..<n]"

lemma endless_split: "endless e pos (a + b) = endless e pos a @ endless e ((pos + a) mod length e) b"
  unfolding endless_def
  by (intro nth_equalityI) (auto simp: nth_append mod_add_left_eq add.assoc)

lemma endless_chunk: "a \<le> length e - pos \<Longrightarrow> endless e pos a = take a (drop pos e)"
  unfolding endless_def by (intro nth_equalityI) auto

lemma length_endless [simp]: "length (endless e pos n) = n"
  by (simp add: endless_def)

lemma copy_wrapped_endless:
  assumes "pos < length e" "write_pos + remaining \<le> length scr"
  shows "copy_wrapped e pos write_pos remaining scr =
    Some (take write_pos scr @ endless e pos remaining @ drop (write_pos + remaining) scr,
          (pos + remaining) mod length e)"
  using assms
proof (induction remaining arbitrary: pos write_pos scr rule: less_induct)
  case (less remaining)
  show ?case
  proof (cases "remaining = 0")
    case True
    then show ?thesis using less.prems by (simp add: copy_wrapped.simps endless_def)
  next
    case False
    define a where "a = min remaining (length e - pos)"
    have a: "0 < a" "a \<le> remaining" "a \<le> length e - pos" using False less.prems by (auto simp: a_def)
    let ?scr = "take write_pos scr @ take a (drop pos e) @ drop (write_pos + a) scr"
    have "length ?scr = length scr" using less.prems a by simp
    then have "copy_wrapped e ((pos + a) mod length e) (write_pos + a) (remaining - a) ?scr =
        Some (take (write_pos + a) ?scr @ endless e ((pos + a) mod length e) (remaining - a) @
                drop (write_pos + a + (remaining - a)) ?scr,
              ((pos + a) mod length e + (remaining - a)) mod length e)"
      using a less.prems by (intro less.IH) (auto intro: mod_less_divisor)
    also have "take (write_pos + a) ?scr = take write_pos scr @ endless e pos a"
      using a less.prems by (simp add: endless_chunk min_def)
    also have "drop (write_pos + a + (remaining - a)) ?scr = drop (write_pos + remaining) scr"
      using a less.prems by (simp add: add.commute)
    also have "((pos + a) mod length e + (remaining - a)) mod length e = (pos + remaining) mod length e"
    proof -
      have "pos + a + (remaining - a) = pos + remaining" using a by simp
      then show ?thesis using mod_add_left_eq [of "pos + a" "length e" "remaining - a"] by simp
    qed
    also have "(take write_pos scr @ endless e pos a) @ endless e ((pos + a) mod length e) (remaining - a) @
        drop (write_pos + remaining) scr =
        take write_pos scr @ endless e pos remaining @ drop (write_pos + remaining) scr"
      using endless_split [of e pos a "remaining - a"] a by simp
    finally have rest: "copy_wrapped e ((pos + a) mod length e) (write_pos + a) (remaining - a) ?scr =
        Some (take write_pos scr @ endless e pos remaining @ drop (write_pos + remaining) scr,
          (pos + remaining) mod length e)" .
    have "copy_wrapped e pos write_pos remaining scr =
        copy_wrapped e ((pos + a) mod length e) (write_pos + a) (remaining - a) ?scr"
      using False less.prems a by (subst copy_wrapped.simps) (auto simp: a_def [symmetric])
    then show ?thesis by (simp only: rest)
  qed
qed

lemma length_rotate_samples [simp]: "length (rotate_samples E osc phasor ss) = length ss"
  by (induction E osc phasor ss rule: rotate_samples.induct) simp_all

lemma length_frequency_shift [simp]: "length (fst (frequency_shift E off sr ph n scr)) = length scr"
  by (simp add: frequency_shift_def Let_def min_def)

lemma length_accumulate: "length (accumulate E out scr) = min (length out) (length scr)"
  by (simp add: accumulate_def)

lemma echo_step_total:
  assumes "e \<noteq> []" "length out \<le> length scr"
  shows "\<exists>ps' scr' out'. echo_step E rx sr (f, e) (ps, scr, out) = Some (ps', scr', out') \<and>
    length scr' = length scr \<and> length out' = length out"
proof -
  let ?pos = "hm_get_or (playback_pos ps) f 0 mod length e"
  have "?pos < length e" using assms(1) by simp
  from copy_wrapped_endless [OF this, of 0 "length out" scr] assms(2)
  obtain scr1 pos1 where c: "copy_wrapped e ?pos 0 (length out) scr = Some (scr1, pos1)"
    "length scr1 = length scr" by auto
  define off where "off = f64_sub (f64_of_u32 rx) (f64_of_u32 f)"
  obtain scr2 ph where fs:
    "frequency_shift E off sr (hm_get_or (shift_phase ps) f (Fin 0)) (length out) scr1 = (scr2, ph)"
    "length scr2 = length scr"
    using length_frequency_shift c(2) by (metis prod.collapse)
  show ?thesis
  proof (cases "off = Fin 0")
    case True
    then show ?thesis using c assms
      by (simp add: echo_step_def Let_def off_def [symmetric] length_accumulate)
  next
    case False
    then show ?thesis using c fs assms
      by (simp add: echo_step_def Let_def off_def [symmetric] length_accumulate)
  qed
qed

lemma echo_steps_total:
  assumes "\<forall>(f, e) \<in> set fes. e \<noteq> []" "length out \<le> length scr"
  shows "\<exists>ps' scr' out'. steps (echo_step E rx sr) fes (ps, scr, out) = Some (ps', scr', out') \<and>
    length out' = length out"
  using assms
proof (induction fes arbitrary: ps scr out)
  case (Cons fe fes)
  obtain f e where fe: "fe = (f, e)" "e \<noteq> []" using Cons.prems by (cases fe) auto
  from echo_step_total [OF fe(2) Cons.prems(2)] obtain ps' scr' out' where s:
    "echo_step E rx sr fe (ps, scr, out) = Some (ps', scr', out')" "length scr' = length scr"
    "length out' = length out" unfolding fe by blast
  have "\<forall>(f, e) \<in> set fes. e \<noteq> []" "length out' \<le> length scr'" using Cons.prems s by auto
  from Cons.IH [OF this, of ps'] s show ?case by auto
qed simp

lemma length_resize [simp]: "length (resize n xs) = n"
  by (simp add: resize_def)

lemma generate_total:
  assumes "any_order order" "playable (echoes eb)"
  shows "\<exists>ps' out'. generate_echo_into E order eb ps out rx sr = Some (ps', out') \<and> length out' = length out"
proof -
  let ?scr = "if length (scratch ps) < length out then resize (length out) (scratch ps) else scratch ps"
  have "e \<noteq> []" if "(f, e) \<in> set (hm_entries order (echoes eb))" for f e
    using that assms(2) unfolding hm_entries_get [OF assms(1)] playable_def by blast
  then have "\<forall>(f, e) \<in> set (hm_entries order (echoes eb)). e \<noteq> []" by blast
  moreover have "length (replicate (length out) cx_zero) \<le> length ?scr" by simp
  note echo_steps_total [OF calculation this, of E rx sr "ps\<lparr>scratch := []\<rparr>"]
  then obtain ps' scr' out' where
    "steps (echo_step E rx sr) (hm_entries order (echoes eb)) (ps\<lparr>scratch := []\<rparr>, ?scr, replicate (length out) cx_zero) =
      Some (ps', scr', out')" "length out' = length out" by auto
  then show ?thesis unfolding generate_echo_into_def Let_def by (cases "echoes eb = []") simp_all
qed

text \<open>C17: After any sequence of transmissions recorded by an emulator, in either mode, every
  committed recording is non-empty and on a non-zero frequency, and playing the echo to a client,
  whatever its playback state, frequency, rate and block size and in whatever order the recordings
  are visited, ends without a panic and fills the whole block.\<close>

theorem echo_playback_total:
  assumes "any_order order"
  shows "playable (echoes (echo_history E mode ops)) \<and>
    (\<exists>ps' out'. generate_echo_into E order (echo_history E mode ops) ps out rx sr = Some (ps', out') \<and>
      length out' = length out)"
  using generate_total [OF assms history_playable] history_playable by blast

theorem echo_playback_total_witness:
  "\<exists>ps' out'. generate_echo_into plain_externals rev
      (echo_history plain_externals Loop [Start 0 0 7 (1, 1) 48000, Feed 7 (1, 1) [Cx (Fin 1) (Fin 0)], Stop_rec 5 7 (1, 1)])
      new_playback_state [cx_zero, cx_zero] 7 48000 = Some (ps', out') \<and> length out' = length [cx_zero, cx_zero]"
proof -
  have "any_order rev" by (simp add: any_order_def)
  from echo_playback_total [OF this] show ?thesis by blast
qed

section \<open>Consecutive blocks\<close>

lemma f64_of_u32_Fin: "\<exists>x. f64_of_u32 w = Fin x \<and> 0 \<le> x"
proof -
  have "uint w < 2 ^ 32" using unsigned_less [of w] by simp
  then have "\<bar>uint w\<bar> < 2 ^ 53" by simp
  from f64_of_int_exact [OF this] have "f64_of_u32 w = Fin (of_int (uint w))"
    by (simp only: f64_of_u32_def)
  moreover have "(0 :: rat) \<le> of_int (uint w)" unfolding of_int_0_le_iff by (rule uint_ge_0)
  ultimately show ?thesis by blast
qed

lemma f64_round_0 [simp]: "f64_round 0 = Fin 0"
  using f64_round_of_int [of 0] by simp

lemma same_frequency: "f64_sub (f64_of_u32 f) (f64_of_u32 f) = Fin 0"
  using f64_of_u32_Fin [of f] by auto

text \<open>What one block of a single recording, heard on its own frequency, is.\<close>

definition echo_block :: "'g externals \<Rightarrow> fval \<Rightarrow> Cx list \<Rightarrow> Cx list" where
  "echo_block E att samples = map (\<lambda>s. cx_scale E (cx_add E cx_zero s) att) samples"

lemma generate_single:
  assumes "echoes eb = [(f, e)]" "e \<noteq> []" "order [f] = [f]"
    and "\<not> fl_less (f64_div (f64_of_u32 sr) (Fin 2)) (Fin 0)"
  shows "\<exists>ps'. generate_echo_into E order eb ps out f sr =
      Some (ps', echo_block E (attenuation eb) (endless e (hm_get_or (playback_pos ps) f 0 mod length e) (length out))) \<and>
    hm_get_or (playback_pos ps') f 0 =
      (hm_get_or (playback_pos ps) f 0 mod length e + length out) mod length e"
proof -
  let ?scr = "if length (scratch ps) < length out then resize (length out) (scratch ps) else scratch ps"
  let ?pos = "hm_get_or (playback_pos ps) f 0 mod length e"
  have "?pos < length e" using assms(2) by simp
  from copy_wrapped_endless [OF this, of 0 "length out" ?scr]
  have c: "copy_wrapped e ?pos 0 (length out) ?scr =
      Some (endless e ?pos (length out) @ drop (length out) ?scr, (?pos + length out) mod length e)"
    by simp
  have acc: "accumulate E (replicate (length out) cx_zero) (endless e ?pos (length out) @ r) =
      map (\<lambda>s. cx_add E cx_zero s) (endless e ?pos (length out))" for r
    unfolding accumulate_def by (intro nth_equalityI) simp_all
  show ?thesis
    using assms c acc
    by (simp add: generate_echo_into_def hm_entries_def echo_step_def Let_def same_frequency echo_block_def
        hm_get_or_def map_simps o_def)
qed

text \<open>Playing blocks of given sizes one after the other.\<close>

fun play_blocks ::
  "'g externals \<Rightarrow> (u32 list \<Rightarrow> u32 list) \<Rightarrow> EchoBuffer \<Rightarrow> u32 \<Rightarrow> u32 \<Rightarrow> nat list \<Rightarrow> EchoPlaybackState \<Rightarrow>
   Cx list list option" where
  "play_blocks E order eb f sr [] ps = Some []"
| "play_blocks E order eb f sr (n # ns) ps =
     (case generate_echo_into E order eb ps (replicate n cx_zero) f sr of
        None \<Rightarrow> None
      | Some (ps, out) \<Rightarrow> map_option ((#) out) (play_blocks E order eb f sr ns ps))"

lemma play_blocks_endless:
  assumes "echoes eb = [(f, e)]" "e \<noteq> []" "order [f] = [f]"
    and "\<not> fl_less (f64_div (f64_of_u32 sr) (Fin 2)) (Fin 0)"
  shows "map_option concat (play_blocks E order eb f sr ns ps) =
    Some (echo_block E (attenuation eb) (endless e (hm_get_or (playback_pos ps) f 0 mod length e) (sum_list ns)))"
proof (induction ns arbitrary: ps)
  case Nil
  then show ?case by (simp add: echo_block_def endless_def)
next
  case (Cons n ns)
  let ?pos = "hm_get_or (playback_pos ps) f 0 mod length e"
  from generate_single [where order = order, OF assms, of E ps "replicate n cx_zero"] obtain ps' where
    g: "generate_echo_into E order eb ps (replicate n cx_zero) f sr =
      Some (ps', echo_block E (attenuation eb) (endless e ?pos n))"
    and pos: "hm_get_or (playback_pos ps') f 0 mod length e = (?pos + n) mod length e" by auto
  from Cons.IH [of ps'] obtain blocks where b: "play_blocks E order eb f sr ns ps' = Some blocks"
    "concat blocks = echo_block E (attenuation eb) (endless e ((?pos + n) mod length e) (sum_list ns))"
    unfolding pos by blast
  show ?case
    unfolding sum_list.Cons endless_split using g b by (simp add: echo_block_def)
qed

lemma non_negative_rate: "\<not> fl_less (f64_div (f64_of_u32 sr) (Fin 2)) (Fin 0)"
proof -
  obtain x where x: "f64_of_u32 sr = Fin x" "0 \<le> x" using f64_of_u32_Fin by blast
  have "uint sr < 2 ^ 32" using unsigned_less [of sr] by simp
  then have "\<bar>uint sr\<bar> < 2 ^ 53" by simp
  from f64_of_int_exact [OF this] x have "x = of_int (uint sr)" by (simp add: f64_of_u32_def)
  have "f64_round (of_int (uint sr) / 2 ^ 1) = Fin (of_int (uint sr) / 2 ^ 1)"
    using \<open>\<bar>uint sr\<bar> < 2 ^ 53\<close> by (intro f64_round_dyadic) simp_all
  then have "f64_div (f64_of_u32 sr) (Fin 2) = Fin (x / 2)"
    unfolding \<open>x = _\<close> x(1) by simp
  then show ?thesis using x(2) by simp
qed

text \<open>C19: Blocks of any sizes played to a client tuned to the frequency of the only recording are,
  put together, the endless repetition of the recording from the client's playback position on:
  no sample is lost, repeated or reordered at block boundaries or at the wrap.\<close>

theorem loop_playback_periodic:
  assumes "echoes eb = [(f, e)]" "e \<noteq> []" "any_order order"
  shows "map_option concat (play_blocks E order eb f sr ns ps) =
    Some (map (\<lambda>i. cx_scale E (cx_add E cx_zero (e ! ((hm_get_or (playback_pos ps) f 0 + i) mod length e)))
                 (attenuation eb)) [0..<sum_list ns])"
proof -
  have "order [f] = [f]"
  proof -
    have "mset (order [f]) = {#f#}" using assms(3) by (simp add: any_order_def)
    then show ?thesis by simp
  qed
  from play_blocks_endless [where order = order and E = E and ns = ns and ps = ps, OF assms(1,2) this non_negative_rate] show ?thesis
    by (simp add: echo_block_def endless_def o_def mod_add_left_eq)
qed

theorem loop_playback_periodic_witness:
  "map_option concat (play_blocks plain_externals rev
      \<lparr>max_duration = Fin 10, eb_mode = Loop, attenuation = Fin 1, echoes = [(7, [Cx (Fin 1) (Fin 0), Cx (Fin 2) (Fin 0)])],
       recorders = [], eb_live = [], next_epoch = 1\<rparr> 7 48000 [1, 2] new_playback_state) =
    Some [Cx (Fin 1) (Fin 0), Cx (Fin 2) (Fin 0), Cx (Fin 1) (Fin 0)]"
proof -
  have "any_order rev" by (simp add: any_order_def)
  have r: "f64_round 1 = Fin 1" "f64_round 2 = Fin 2" "f64_round 0 = Fin 0"
    using f64_round_of_int [of 1] f64_round_of_int [of 2] by simp_all
  show ?thesis
    by (subst loop_playback_periodic [where f = 7 and e = "[Cx (Fin 1) (Fin 0), Cx (Fin 2) (Fin 0)]"])
      (simp_all add: any_order_def new_playback_state_def hm_get_or_def plain_externals_def upt_rec r)
qed

end
