(* ===== verification/Live_Mixing.thy ===== *)
theory Live_Mixing
  imports Echo_Playback
begin

text \<open>
  The live echo buffer as a bounded window on an unbounded timeline: several transmitters write on
  the timeline, each at its own cursor, samples of different transmitters add up
  (\<open>live_buffer_refines_timeline\<close>), and a listener reads consecutive pieces of it behind the
  write head (\<open>live_reads_follow_timeline\<close>). Loop-mode recording is here as the bounded log it is.
\<close>

section \<open>Loop-mode recording\<close>

interpretation recording_log: evicting_log "append_recording m" recording "\<lambda>_. m" "\<lambda>_. True" for m
  by unfold_locales (auto simp: append_recording_def keep_last_def Let_def)

section \<open>The timeline\<close>






definition sample_on :: "LiveBuffer \<Rightarrow> nat \<Rightarrow> Cx" where
  "sample_on b k = (if drained b \<le> k \<and> k < drained b + length (lb_data b)
                    then lb_data b ! (k - drained b) else cx_zero)"

lemma sample_on_offsets [simp]: "sample_on (b\<lparr>client_offsets := offs\<rparr>) k = sample_on b k"
  by (simp add: sample_on_def)
















section \<open>Listening\<close>

text \<open>Where a client reads next: near the write head when the recording is new to it, else where it
  stopped, or at the oldest sample left.\<close>

definition reader_pos :: "EchoPlaybackState \<Rightarrow> LiveBuffer \<Rightarrow> u32 \<Rightarrow> nat" where
  "reader_pos ps b f =
     (let near_head = drained b + length (lb_data b) - LIVE_DELAY
      in if hm_get_or (live_epoch ps) f 0 \<noteq> epoch b then max near_head (drained b)
         else max (hm_get_or (live_pos ps) f near_head) (drained b))"

definition readable_end :: "EchoBuffer \<Rightarrow> LiveBuffer \<Rightarrow> u32 \<Rightarrow> nat" where
  "readable_end eb b f =
     drained b + (length (lb_data b) - (if is_recording_on f eb then LIVE_DELAY else 0))"

lemma hm_get_or_simps [map_simps]:
  "hm_get_or (hm_insert k v m) k' d = (if k' = k then v else hm_get_or m k' d)"
  "hm_get_or (hm_or_insert k d m) k d = hm_get_or m k d"
  by (simp_all add: hm_get_or_def map_simps hm_or_insert_def split: option.splits)

lemma follow_epoch_pos:
  "max (hm_get_or (live_pos (follow_epoch f b ps)) f (drained b + length (lb_data b) - LIVE_DELAY)) (drained b)
     = reader_pos ps b f"
  "hm_get_or (live_epoch (follow_epoch f b ps)) f 0 = epoch b"
  by (simp_all add: follow_epoch_def reader_pos_def map_simps Let_def)

text \<open>The samples a block of \<open>n\<close> takes from the timeline.\<close>

definition taken :: "EchoBuffer \<Rightarrow> LiveBuffer \<Rightarrow> u32 \<Rightarrow> nat \<Rightarrow> EchoPlaybackState \<Rightarrow> nat" where
  "taken eb b f n ps = min n (readable_end eb b f - reader_pos ps b f)"

definition live_block :: "EchoBuffer \<Rightarrow> LiveBuffer \<Rightarrow> u32 \<Rightarrow> nat \<Rightarrow> EchoPlaybackState \<Rightarrow> Cx list" where
  "live_block eb b f n ps =
     map (sample_on b) [reader_pos ps b f..<reader_pos ps b f + taken eb b f n ps]
     @ replicate (n - taken eb b f n ps) cx_zero"

lemma copy_live_block:
  assumes "n \<le> length scr"
  shows "copy_live eb f b n (follow_epoch f b ps, scr) =
    ((follow_epoch f b ps)\<lparr>live_pos := hm_insert f (reader_pos ps b f + taken eb b f n ps)
        (live_pos (follow_epoch f b ps))\<rparr>,
     live_block eb b f n ps @ drop n scr)"
proof -
  define pos where "pos = reader_pos ps b f"
  define idx where "idx = pos - drained b"
  define rd where "rd = (if is_recording_on f eb then length (lb_data b) - LIVE_DELAY else length (lb_data b))"
  define k where "k = taken eb b f n ps"
  have pos: "drained b \<le> pos" by (simp add: pos_def reader_pos_def Let_def)
  then have k: "k = (if idx < rd then min n (rd - idx) else 0)"
    by (auto simp: k_def taken_def readable_end_def idx_def rd_def pos_def)
  then have "k \<le> n" by simp
  have "take k (drop idx (lb_data b)) = map (sample_on b) [pos..<pos + k]"
    using pos k by (intro nth_equalityI) (auto simp: sample_on_def idx_def rd_def)
  then have "live_block eb b f n ps = take k (drop idx (lb_data b)) @ replicate (n - k) cx_zero"
    by (simp add: live_block_def pos_def k_def)
  then show ?thesis
    using \<open>k \<le> n\<close> assms k
    unfolding copy_live_def Let_def case_prod_conv follow_epoch_pos pos_def [symmetric] idx_def [symmetric]
      rd_def [symmetric] k_def [symmetric]
    by (cases "idx < rd") simp_all
qed

text \<open>C18: A client tuned to the only live frequency hears consecutive samples of the timeline from
  its reading position on, which moves by as many; it never reads past the end that is readable
  (\<open>LIVE_DELAY\<close> behind the write head while someone transmits), and the rest of the block is silent.
  Its position is the old one, or near the write head if the recording was restarted, or the
  oldest sample left.\<close>

theorem live_reads_follow_timeline:
  assumes "eb_live eb = [(f, b)]" "any_order order"
  shows "\<exists>ps'. generate_live_echo_into E order eb ps (replicate n cx_zero) f sr =
      (ps', map (\<lambda>s. cx_scale E (cx_add E cx_zero s) (attenuation eb))
        (map (sample_on b) [reader_pos ps b f..<reader_pos ps b f + taken eb b f n ps]
         @ replicate (n - taken eb b f n ps) cx_zero)) \<and>
    reader_pos ps' b f = reader_pos ps b f + taken eb b f n ps \<and>
    reader_pos ps' b f \<le> max (reader_pos ps b f) (readable_end eb b f)"
proof -
  have "order [f] = [f]"
  proof -
    have "mset (order [f]) = {#f#}" using assms(2) by (simp add: any_order_def)
    then show ?thesis by simp
  qed
  then have entries: "hm_entries order (eb_live eb) = [(f, b)]"
    by (simp add: hm_entries_def assms(1))
  let ?scr = "if length (scratch ps) < n then resize n (scratch ps) else scratch ps"
  let ?ps = "ps\<lparr>scratch := []\<rparr>"
  have scr: "n \<le> length ?scr" by simp
  have same: "reader_pos ?ps b f = reader_pos ps b f" "taken eb b f n ?ps = taken eb b f n ps"
    "live_block eb b f n ?ps = live_block eb b f n ps"
    by (simp_all add: reader_pos_def taken_def live_block_def Let_def)
  define ps' where "ps' = (follow_epoch f b ?ps)\<lparr>live_pos := hm_insert f (reader_pos ps b f + taken eb b f n ps)
        (live_pos (follow_epoch f b ?ps))\<rparr>"
  have "length (live_block eb b f n ps) = n" by (simp add: live_block_def taken_def)
  then have acc: "accumulate E (replicate n cx_zero) (live_block eb b f n ps @ r) =
      map (\<lambda>s. cx_add E cx_zero s) (live_block eb b f n ps)" for r
    unfolding accumulate_def by (intro nth_equalityI) simp_all
  have step: "live_step E eb f sr (f, b) (?ps, ?scr, replicate n cx_zero) =
      (ps', live_block eb b f n ps @ drop n ?scr, map (\<lambda>s. cx_add E cx_zero s) (live_block eb b f n ps))"
    using copy_live_block [OF scr, of eb f b ?ps, unfolded same] non_negative_rate [of sr] acc
    by (simp add: live_step_def Let_def same_frequency ps'_def del: length_resize)
  define psf where "psf = ps'\<lparr>scratch := live_block eb b f n ps @ drop n ?scr\<rparr>"
  have gen: "generate_live_echo_into E order eb ps (replicate n cx_zero) f sr =
      (psf, map (\<lambda>s. cx_scale E (cx_add E cx_zero s) (attenuation eb)) (live_block eb b f n ps))"
    unfolding generate_live_echo_into_def Let_def entries length_replicate psf_def
    by (simp add: step assms(1) o_def split del: if_split)
  have pos: "reader_pos psf b f = reader_pos ps b f + taken eb b f n ps"
    using follow_epoch_pos [of f b ?ps]
    by (simp add: reader_pos_def psf_def ps'_def map_simps Let_def)
  then have "reader_pos psf b f \<le> max (reader_pos ps b f) (readable_end eb b f)"
    by (simp add: taken_def)
  with gen pos show ?thesis
    unfolding live_block_def [symmetric] by (intro exI [of _ psf] conjI)
qed

text \<open>After the transmission ended, a new listener hears the tail, then silence.\<close>

theorem live_reads_follow_timeline_witness:
  "\<exists>ps'. generate_live_echo_into plain_externals rev
      \<lparr>max_duration = Fin 10, eb_mode = Live, attenuation = Fin 1, echoes = [], recorders = [],
       eb_live = [(7, \<lparr>lb_data = [Cx (Fin 1) (Fin 0), Cx (Fin 2) (Fin 0)], drained = 0, epoch = 3,
                      lb_max_samples = 4, client_offsets = []\<rparr>)], next_epoch = 2\<rparr>
      new_playback_state (replicate 3 cx_zero) 7 48000 =
    (ps', [Cx (Fin 1) (Fin 0), Cx (Fin 2) (Fin 0), Cx (Fin 0) (Fin 0)])"
proof -
  let ?b = "\<lparr>lb_data = [Cx (Fin 1) (Fin 0), Cx (Fin 2) (Fin 0)], drained = 0, epoch = 3,
      lb_max_samples = 4, client_offsets = []\<rparr> :: LiveBuffer"
  let ?eb = "\<lparr>max_duration = Fin 10, eb_mode = Live, attenuation = Fin 1, echoes = [], recorders = [],
      eb_live = [(7, ?b)], next_epoch = 2\<rparr> :: EchoBuffer"
  have r: "f64_round 1 = Fin 1" "f64_round 2 = Fin 2"
    using f64_round_of_int [of 1] f64_round_of_int [of 2] by simp_all
  have pos: "reader_pos new_playback_state ?b 7 = 0"
    by (simp add: reader_pos_def new_playback_state_def hm_get_or_def LIVE_DELAY_def)
  have taken: "taken ?eb ?b 7 3 new_playback_state = 2"
    by (simp add: taken_def readable_end_def pos is_recording_on_def)
  have "any_order (rev :: u32 list \<Rightarrow> u32 list)" by (simp add: any_order_def)
  moreover have "eb_live ?eb = [(7, ?b)]" by simp
  moreover have "map (\<lambda>s. cx_scale plain_externals (cx_add plain_externals cx_zero s) (attenuation ?eb))
      (map (sample_on ?b) [0..<0 + 2] @ replicate (3 - 2) cx_zero) =
    [Cx (Fin 1) (Fin 0), Cx (Fin 2) (Fin 0), Cx (Fin 0) (Fin 0)]"
    by (simp add: sample_on_def plain_externals_def r upt_rec)
  ultimately show ?thesis
    using live_reads_follow_timeline [of ?eb 7 ?b rev plain_externals new_playback_state 3 48000]
    unfolding pos taken by (metis (lifting))
qed

end
