(* ===== verification/Emu_Clients.thy ===== *)
theory Emu_Clients
  imports Emu_Server Live_Mixing
begin

text \<open>
  Several clients of the emulator on one echo buffer: the synchronous and the asynchronous handler
  of host packets do the same (\<open>host_handlers_agree\<close>); the recorders' reference counts are exactly
  the clients recording, whatever the interleaving of sub-frames, packets and disconnections
  (\<open>recorder_refcount\<close>); the receive loop never holds more clients than allowed
  (\<open>server_client_table\<close>).
\<close>

section \<open>The two handlers\<close>

lemma handle_subframe_eq: "handle_subframe E clk sf st = process_host_subframe E clk sf st"
proof -
  obtain cs echo where st: "st = (cs, echo)" by force
  obtain now now' stopped where clk: "clk = (now, now', stopped)" by (metis prod_cases3)
  obtain changed cs' where pc: "process_control cs (sf ! 3) (sf ! 4) (sf ! 5) (sf ! 6) (sf ! 7) = (changed, cs')"
    by force
  obtain n iq where u: "unpack_tx_iq_16bit_into (take (MAX_TX_IQ_SAMPLES * 8) (drop 8 sf)) (tx_iq_buf cs') = (n, iq)"
    by force
  show ?thesis
    by (cases echo; cases "cs_ptt cs'"; cases changed)
      (simp_all add: handle_subframe_def process_host_subframe_def st clk pc u Let_def split: option.split)
qed

text \<open>C24: On every packet with the Protocol 1 data header the asynchronous handler of the native
  emulator and the synchronous one of the embedded transport have the same effect on the client's
  state and on the echo buffer.\<close>

theorem host_handlers_agree:
  assumes "data ! 0 = 0xEF" "data ! 1 = 0xFE" "data ! 2 = 0x01"
  shows "handle_host_data E clk clk' data st = process_host_frame E clk clk' data st"
  using assms by (simp add: handle_host_data_def process_host_frame_def handle_subframe_eq)

theorem host_handlers_agree_witness:
  "let data = [0xEF, 0xFE, 0x01, 0x02, 0, 0, 0, 0, 0x7F, 0x7F, 0x7F, 0x01] @ replicate 508 1 @
         [0x7F, 0x7F, 0x7F, 0x00] @ replicate 508 0;
       st = (new_client (1, 1) \<lparr>cfg_sample_rate = 48000, cfg_noise_level = Fin 0\<rparr> (),
         Some (new_echo_buffer plain_externals Loop))
   in handle_host_data plain_externals (0, 0, 0) (0, 0, 0) data st =
      process_host_frame plain_externals (0, 0, 0) (0, 0, 0) data st"
  unfolding Let_def by (rule host_handlers_agree) simp_all

section \<open>Reference counts\<close>

definition active :: "u32 \<Rightarrow> EchoBuffer \<Rightarrow> nat" where
  "active f eb = (case map_of (recorders eb) f of Some r \<Rightarrow> active_count r | None \<Rightarrow> 0)"

lemma recorders_unchanged [simp]:
  "recorders (open_live f sr eb) = recorders eb"
  "recorders (join_live f c eb) = recorders eb"
  "recorders (leave_live f c eb) = recorders eb"
  by (auto simp: open_live_def join_live_def leave_live_def Let_def split: option.splits)

lemma active_open [simp]: "active_count (open_recording now now' sr mode dur r) = active_count r"
  by (simp add: open_recording_def Let_def)

lemma active_start [simp]:
  "active f (start_recording now now' g c sr eb) = active f eb + (if f = g then 1 else 0)"
  by (simp add: start_recording_def active_def Let_def map_simps split: option.splits)

lemma active_feed [simp]: "active f (feed E g c samples eb) = active f eb"
  by (simp add: feed_def active_def Let_def map_simps append_recording_def split: option.splits)

lemma active_commit [simp]: "active f (commit_freq E g eb) = active f eb"
  by (simp add: commit_freq_def active_def Let_def map_simps split: option.splits)

lemma active_stamp [simp]: "active f (stamp_ptt_off now g eb) = active f eb"
  by (simp add: stamp_ptt_off_def active_def map_simps split: option.splits)

lemma active_leave [simp]: "active f (leave_live g c eb) = active f eb"
  by (simp add: active_def)

lemma active_stop [simp]:
  "active f (stop_recording E now g c eb) = active f eb - (if f = g then 1 else 0)"
proof (cases "map_of (recorders eb) g")
  case None
  then show ?thesis by (simp add: stop_recording_def active_def)
next
  case (Some r)
  then show ?thesis
    by (simp add: stop_recording_def Let_def) (simp add: active_def map_simps)
qed

text \<open>A client records only while its PTT is on.\<close>

definition ptt_guards :: "'g ClientState \<Rightarrow> bool" where
  "ptt_guards cs \<longleftrightarrow> (recording_freq cs \<noteq> None \<longrightarrow> cs_ptt cs)"

definition holds :: "u32 \<Rightarrow> 'g ClientState \<Rightarrow> nat" where
  "holds f cs = (if recording_freq cs = Some f then 1 else 0)"

lemma control_keeps [simp]:
  "recording_freq (control_general c1 c2 c4 cs) = recording_freq cs"
  "cs_ptt (control_general c1 c2 c4 cs) = cs_ptt cs"
  "cs_addr (control_general c1 c2 c4 cs) = cs_addr cs"
  "recording_freq (control_drive c1 c2 cs) = recording_freq cs"
  "cs_ptt (control_drive c1 c2 cs) = cs_ptt cs"
  "cs_addr (control_drive c1 c2 cs) = cs_addr cs"
  by (simp_all add: control_general_def control_drive_def set_rate_def Let_def split: option.split)

lemma process_control_recording:
  assumes "process_control cs c0 c1 c2 c3 c4 = (changed, cs')"
  shows "recording_freq cs' = recording_freq cs" "changed = (cs_ptt cs' \<noteq> cs_ptt cs)"
    "cs_addr cs' = cs_addr cs"
proof -
  have "fst (process_control cs c0 c1 c2 c3 c4) = (cs_ptt (snd (process_control cs c0 c1 c2 c3 c4)) \<noteq> cs_ptt cs)"
    "recording_freq (snd (process_control cs c0 c1 c2 c3 c4)) = recording_freq cs"
    "cs_addr (snd (process_control cs c0 c1 c2 c3 c4)) = cs_addr cs"
    by (simp_all add: process_control_def Let_def)
  with assms show "recording_freq cs' = recording_freq cs" "changed = (cs_ptt cs' \<noteq> cs_ptt cs)"
    "cs_addr cs' = cs_addr cs" by simp_all
qed

lemma subframe_refcount:
  assumes "process_host_subframe E clk sf (cs, Some eb) = (cs', echo')"
    and "ptt_guards cs" "holds f cs \<le> active f eb"
  shows "\<exists>eb'. echo' = Some eb' \<and> ptt_guards cs' \<and> active f eb' + holds f cs = active f eb + holds f cs'"
proof (cases "take 3 sf = SYNC")
  case False
  then show ?thesis using assms by (auto simp: process_host_subframe_def split: prod.splits)
next
  case True
  obtain now now' stopped where clk: "clk = (now, now', stopped)" by (metis prod_cases3)
  obtain changed cs1 where pc: "process_control cs (sf ! 3) (sf ! 4) (sf ! 5) (sf ! 6) (sf ! 7) = (changed, cs1)"
    by force
  obtain n iq where u: "unpack_tx_iq_16bit_into (take (MAX_TX_IQ_SAMPLES * 8) (drop 8 sf)) (tx_iq_buf cs1) = (n, iq)"
    by force
  note r = process_control_recording [OF pc]
  show ?thesis
    using assms True r
    by (cases "cs_ptt cs1"; cases changed; cases "recording_freq cs")
      (auto simp: process_host_subframe_def clk pc u Let_def ptt_guards_def holds_def)
qed

text \<open>The clients' tasks and the shared echo buffer. A packet reaches a task as its two sub-frames,
  with the events of other clients possibly between them.\<close>

type_synonym 'g clients_state = "'g ClientState list \<times> EchoBuffer"

datatype 'g clients_event =
    Connect SocketAddr SiggenConfig 'g
  | HostSubframe nat clock bytes
  | SendPacket_ev nat HwInfo fval "u32 list \<Rightarrow> u32 list"
  | Disconnect nat nat

fun clients_step :: "'g externals \<Rightarrow> 'g clients_event \<Rightarrow> 'g clients_state \<Rightarrow> 'g clients_state" where
  "clients_step E (Connect a cfg g) (css, eb) = (css @ [new_client a cfg g], eb)"
| "clients_step E (HostSubframe i clk sf) (css, eb) =
     (if i < length css
      then case handle_subframe E clk sf (css ! i, Some eb) of
          (cs, Some eb) \<Rightarrow> (css[i := cs], eb)
        | (cs, None) \<Rightarrow> (css[i := cs], eb)
      else (css, eb))"
| "clients_step E (SendPacket_ev i h level order) (css, eb) =
     (if i < length css
      then case build_data_packet E order h (Some eb) ((css ! i)\<lparr>siggen := (siggen (css ! i))\<lparr>sg_noise_level := level\<rparr>\<rparr>) of
          Some cs \<Rightarrow> (css[i := cs], eb)
        | None \<Rightarrow> (css, eb)
      else (css, eb))"
| "clients_step E (Disconnect i now) (css, eb) =
     (if i < length css
      then case task_cleanup E now (css ! i, Some eb) of
          (cs, Some eb) \<Rightarrow> (take i css @ drop (Suc i) css, eb)
        | (cs, None) \<Rightarrow> (css, eb)
      else (css, eb))"

definition recording_count :: "u32 \<Rightarrow> 'g ClientState list \<Rightarrow> nat" where
  "recording_count f css = sum_list (map (holds f) css)"

definition counts_ok :: "'g clients_state \<Rightarrow> bool" where
  "counts_ok st \<longleftrightarrow> (case st of (css, eb) \<Rightarrow>
     (\<forall>cs \<in> set css. ptt_guards cs) \<and> (\<forall>f. active f eb = recording_count f css))"

lemma recording_count_at:
  "i < length css \<Longrightarrow> recording_count f css =
    recording_count f (take i css) + holds f (css ! i) + recording_count f (drop (Suc i) css)"
  unfolding recording_count_def
  by (metis (no_types, lifting) id_take_nth_drop map_append list.simps(9) sum_list.append sum_list.Cons add.assoc)

lemma recording_count_update:
  "i < length css \<Longrightarrow> recording_count f (css[i := cs]) + holds f (css ! i) = recording_count f css + holds f cs"
  using recording_count_at [of i css f] recording_count_at [of i "css[i := cs]" f] by simp

lemma steps_preserve:
  assumes "\<And>x st st'. f x st = Some st' \<Longrightarrow> P st \<Longrightarrow> P st'"
  shows "steps f xs st = Some st' \<Longrightarrow> P st \<Longrightarrow> P st'"
  by (induction xs arbitrary: st) (auto split: option.splits dest: assms)

lemma generate_ddc_recording:
  "generate_ddc E order echo spr i cs = Some cs' \<Longrightarrow>
    recording_freq cs' = recording_freq cs \<and> cs_ptt cs' = cs_ptt cs"
  by (auto simp: generate_ddc_def Let_def split: if_splits option.splits prod.splits)

lemma fill_subframe_recording:
  assumes "fill_subframe_sync E order h echo off (cs, buf) = Some (cs', buf')"
  shows "recording_freq cs' = recording_freq cs \<and> cs_ptt cs' = cs_ptt cs"
proof -
  define P where "P c \<longleftrightarrow> recording_freq c = recording_freq cs \<and> cs_ptt c = cs_ptt cs" for c :: "'a ClientState"
  have "P cs'" if "steps (generate_ddc E order echo spr) is c = Some cs'" "P c" for spr "is" c
    using that by (rule steps_preserve [rotated]) (auto simp: P_def dest: generate_ddc_recording)
  then show ?thesis
    using assms by (auto simp: fill_subframe_sync_def Let_def P_def split: if_splits option.splits prod.splits)
qed

lemma build_packet_recording:
  "build_data_packet E order h echo cs = Some cs' \<Longrightarrow>
    recording_freq cs' = recording_freq cs \<and> cs_ptt cs' = cs_ptt cs"
  by (auto simp: build_data_packet_def next_seq_def Let_def split: if_splits option.splits prod.splits
      dest!: fill_subframe_recording)

lemma counts_step: "counts_ok st \<Longrightarrow> counts_ok (clients_step E ev st)"
proof -
  assume ok: "counts_ok st"
  obtain css eb where st: "st = (css, eb)" by force
  have guards: "\<And>cs. cs \<in> set css \<Longrightarrow> ptt_guards cs" and act: "\<And>f. active f eb = recording_count f css"
    using ok by (auto simp: counts_ok_def st)
  have le: "holds f (css ! i) \<le> active f eb" if "i < length css" for f i
    using recording_count_at [OF that, of f] act by simp
  show ?thesis
  proof (cases ev)
    case (Connect a cfg g)
    then show ?thesis using guards act
      by (auto simp: st counts_ok_def new_client_def ptt_guards_def recording_count_def holds_def)
  next
    case (HostSubframe i clk sf)
    show ?thesis
    proof (cases "i < length css")
      case True
      obtain cs' echo' where h: "process_host_subframe E clk sf (css ! i, Some eb) = (cs', echo')" by force
      have g: "ptt_guards (css ! i)" using guards True by simp
      from subframe_refcount [OF h g le [OF True]] obtain eb' where e: "echo' = Some eb'" by blast
      have c: "ptt_guards cs'" "active f eb' + holds f (css ! i) = active f eb + holds f cs'" for f
        using subframe_refcount [OF h g le [OF True], of f] e by auto
      have "active f eb' = recording_count f (css[i := cs'])" for f
        using c(2) [of f] recording_count_update [OF True, of f cs'] act [of f] by linarith
      moreover have "\<forall>cs \<in> set (css[i := cs']). ptt_guards cs"
        using guards c(1) by (auto dest: set_update_subset_insert [THEN subsetD])
      ultimately show ?thesis using HostSubframe True h e
        by (simp add: st counts_ok_def handle_subframe_eq)
    next
      case False
      then show ?thesis using HostSubframe ok st by simp
    qed
  next
    case (SendPacket_ev i h level order)
    let ?cs = "(css ! i)\<lparr>siggen := (siggen (css ! i))\<lparr>sg_noise_level := level\<rparr>\<rparr>"
    show ?thesis
    proof (cases "i < length css \<and> build_data_packet E order h (Some eb) ?cs \<noteq> None")
      case True
      then obtain cs' where b: "build_data_packet E order h (Some eb) ?cs = Some cs'" by auto
      then have r: "recording_freq cs' = recording_freq (css ! i)" "cs_ptt cs' = cs_ptt (css ! i)"
        using build_packet_recording by force+
      have "recording_count f (css[i := cs']) = recording_count f css" for f
        using recording_count_update [of i css f cs'] True by (simp add: holds_def r(1))
      moreover have "ptt_guards cs'" using guards [of "css ! i"] True r by (simp add: ptt_guards_def)
      then have "\<forall>cs \<in> set (css[i := cs']). ptt_guards cs"
        using guards by (auto dest: set_update_subset_insert [THEN subsetD])
      ultimately show ?thesis using SendPacket_ev True b act by (simp add: st counts_ok_def)
    next
      case False
      then show ?thesis using SendPacket_ev ok by (auto simp: st)
    qed
  next
    case (Disconnect i now)
    show ?thesis
    proof (cases "i < length css")
      case True
      define eb1 where "eb1 = (case recording_freq (css ! i) of None \<Rightarrow> eb
            | Some freq \<Rightarrow> stop_recording E now freq (cs_addr (css ! i)) eb)"
      have "clients_step E ev st = (take i css @ drop (Suc i) css, eb1)"
        using Disconnect True
        by (cases "recording_freq (css ! i)") (simp_all add: st task_cleanup_def eb1_def)
      moreover have "active f eb1 = recording_count f (take i css @ drop (Suc i) css)" for f
        using recording_count_at [OF True, of f] act [of f]
        by (cases "recording_freq (css ! i)") (simp_all add: recording_count_def eb1_def holds_def)
      moreover have "\<forall>cs \<in> set (take i css @ drop (Suc i) css). ptt_guards cs"
        using guards by (auto dest: in_set_takeD in_set_dropD)
      ultimately show ?thesis by (simp add: counts_ok_def)
    next
      case False
      then show ?thesis using Disconnect ok st by simp
    qed
  qed
qed

text \<open>C14: Whatever clients connect, send and disconnect, with their sub-frames, packets and the
  emulator's own packets interleaved in any order, the reference count of the recorder of each
  frequency is exactly the number of connected clients recording on it; in particular, when all
  have disconnected nothing is being recorded. A client records only while its PTT is on.\<close>

theorem recorder_refcount:
  assumes "fold (clients_step E) evs ([], new_echo_buffer E mode) = (css, eb)"
  shows "active f eb = length (filter (\<lambda>cs. recording_freq cs = Some f) css) \<and>
    (is_recording_on f eb \<longleftrightarrow> (\<exists>cs \<in> set css. recording_freq cs = Some f)) \<and>
    (\<forall>cs \<in> set css. recording_freq cs = Some f \<longrightarrow> cs_ptt cs)"
proof -
  have "counts_ok (fold (clients_step E) evs st)" if "counts_ok st" for st
    using that by (induction evs arbitrary: st) (simp_all add: counts_step)
  moreover have "counts_ok ([], new_echo_buffer E mode)"
    by (simp add: counts_ok_def new_echo_buffer_def active_def recording_count_def)
  ultimately have "counts_ok (css, eb)" using assms by metis
  moreover have "recording_count f css = length (filter (\<lambda>cs. recording_freq cs = Some f) css)"
    by (induction css) (simp_all add: recording_count_def holds_def)
  moreover have "is_recording_on f eb \<longleftrightarrow> 0 < active f eb"
    by (simp add: is_recording_on_def active_def split: option.split)
  ultimately show ?thesis
    by (auto simp: counts_ok_def ptt_guards_def filter_empty_conv)
qed

theorem recorder_refcount_witness:
  "let evs = [Connect (1, 1) \<lparr>cfg_sample_rate = 48000, cfg_noise_level = Fin 0\<rparr> (),
         HostSubframe 0 (0, 0, 0) ([0x7F, 0x7F, 0x7F, 0x01] @ replicate 508 0)];
       st = fold (clients_step plain_externals) evs ([], new_echo_buffer plain_externals Loop)
   in active 7074000 (snd st) = length (filter (\<lambda>cs. recording_freq cs = Some 7074000) (fst st))"
  unfolding Let_def by (rule recorder_refcount [THEN conjunct1, OF surjective_pairing])

section \<open>The table of clients\<close>

datatype server_event = Datagram bytes SocketAddr "SocketAddr \<Rightarrow> bool"

text \<open>\<open>dbg\<close>: debug logging is on.\<close>

fun server_run :: "HwInfo \<Rightarrow> nat \<Rightarrow> bool \<Rightarrow> server_event list \<Rightarrow> Server \<Rightarrow> (server_action list \<times> Server) option" where
  "server_run h m dbg [] s = Some ([], s)"
| "server_run h m dbg (Datagram data a gone # evs) s =
     (case recv_step h m dbg gone data a s of
        None \<Rightarrow> None
      | Some (acts, s) \<Rightarrow> map_option (\<lambda>(acts', s). (acts @ acts', s)) (server_run h m dbg evs s))"

text \<open>A datagram that the debug line of the loop cannot print.\<close>

definition too_short :: "server_event \<Rightarrow> bool" where
  "too_short ev = (case ev of Datagram data a gone \<Rightarrow> length data < 3)"

text \<open>Clients started and not yet stopped, from the actions alone.\<close>

fun started :: "server_action list \<Rightarrow> SocketAddr set \<Rightarrow> SocketAddr set" where
  "started [] A = A"
| "started (Spawn a # acts) A = started acts (insert a A)"
| "started (SendStop a # acts) A = started acts (A - {a})"
| "started (_ # acts) A = started acts A"

text \<open>A packet goes to a task only between its start and its stop, and a task is started at most
  once between stops.\<close>

fun well_addressed :: "server_action list \<Rightarrow> SocketAddr set \<Rightarrow> bool" where
  "well_addressed [] A = True"
| "well_addressed (Spawn a # acts) A = well_addressed acts (insert a A)"
| "well_addressed (SendStop a # acts) A = (a \<in> A \<and> well_addressed acts (A - {a}))"
| "well_addressed (TrySend a data # acts) A = (a \<in> A \<and> well_addressed acts A)"
| "well_addressed (_ # acts) A = well_addressed acts A"

lemma recv_panics: "recv_step h m dbg gone data a s = None \<longleftrightarrow> dbg \<and> length data < 3"
  by (auto simp: recv_step_def start_streaming_def stop_streaming_def forward_data_def Let_def)

lemma well_addressed_append:
  "well_addressed (xs @ ys) A \<longleftrightarrow> well_addressed xs A \<and> well_addressed ys (started xs A)"
  by (induction xs A rule: well_addressed.induct) auto

lemma started_append: "started (xs @ ys) A = started ys (started xs A)"
  by (induction xs A rule: started.induct) auto

lemma recv_step_inv:
  assumes "recv_step h m dbg gone data a s = Some (acts, s')"
    and "distinct (clients s)" "length (clients s) \<le> m" "set (clients s) \<subseteq> A"
  shows "distinct (clients s') \<and> length (clients s') \<le> m \<and> set (clients s') \<subseteq> started acts A \<and>
    well_addressed acts A"
  using assms
  by (auto simp: recv_step_def start_streaming_def stop_streaming_def forward_data_def Let_def
      split: if_splits intro: le_trans [OF length_filter_le])

text \<open>C20: From the empty table, whatever datagrams arrive from whatever addresses and whenever
  tasks end by themselves: the receive loop panics exactly when debug logging is on and a datagram
  of fewer than three bytes arrives. Otherwise the table holds each client once and never more than
  the limit, and packets and stop signals are sent only to tasks that were started and not stopped
  since.\<close>

theorem server_client_table:
  "case server_run h m dbg evs new_server of
     None \<Rightarrow> dbg \<and> list_ex too_short evs
   | Some (acts, s) \<Rightarrow> \<not> (dbg \<and> list_ex too_short evs) \<and> distinct (clients s) \<and>
       length (clients s) \<le> m \<and> set (clients s) \<subseteq> started acts {} \<and> well_addressed acts {}"
proof -
  have "case server_run h m dbg evs s of
     None \<Rightarrow> dbg \<and> list_ex too_short evs
   | Some (acts, s') \<Rightarrow> \<not> (dbg \<and> list_ex too_short evs) \<and> distinct (clients s') \<and>
       length (clients s') \<le> m \<and> set (clients s') \<subseteq> started acts A \<and> well_addressed acts A"
    if "distinct (clients s)" "length (clients s) \<le> m" "set (clients s) \<subseteq> A" for s A
    using that
  proof (induction evs arbitrary: s A)
    case (Cons ev evs)
    obtain data a gone where ev: "ev = Datagram data a gone" by (cases ev)
    show ?case
    proof (cases "recv_step h m dbg gone data a s")
      case None
      then show ?thesis using recv_panics [of h m dbg gone data a s] by (simp add: ev too_short_def)
    next
      case (Some r)
      then obtain acts s' where r: "recv_step h m dbg gone data a s = Some (acts, s')" by (cases r) auto
      then have "\<not> (dbg \<and> too_short ev)" using recv_panics [of h m dbg gone data a s] by (simp add: ev too_short_def)
      moreover note inv = recv_step_inv [OF r Cons.prems]
      ultimately show ?thesis
        using Cons.IH [of s' "started acts A"] r
        by (cases "server_run h m dbg evs s'") (auto simp: ev started_append well_addressed_append)
    qed
  qed simp
  from this [of new_server "{}"] show ?thesis by (simp add: new_server_def)
qed

end
