(* ===== verification/Proto_Client.thy ===== *)
theory Proto_Client
  imports Radio_Interfaces Proto_Types Hash_Map
begin

text \<open>
  \<^verbatim>\<open>crates/radio-utils-protocol/src/protocol1.rs\<close>: the host's client. Its methods thread the
  client record; what they ask of the socket and the channels comes back as actions, in order. A
  packet's send may fail: \<open>sent\<close> gives the I/O error for a packet, if any, and the first failure
  ends the method, as \<^verbatim>\<open>?\<close> does. The consumer end of the lock-free ring buffer (crate
  \<^verbatim>\<open>ringbuf\<close>) is the parameter \<open>R\<close> with the laws \<open>ring_laws\<close>. Instants and durations are
  nanoseconds; the statistics counters of type \<^verbatim>\<open>u64\<close> are \<open>nat\<close>.
\<close>

definition P1_PORT :: u16 where "P1_PORT = 1024"
definition P1_PACKET_SIZE :: nat where "P1_PACKET_SIZE = 1032"
definition P1_SUBFRAME_SIZE :: nat where "P1_SUBFRAME_SIZE = 512"
definition P1_SYNC :: bytes where "P1_SYNC = [0x7F, 0x7F, 0x7F]"
definition RECV_TIMEOUT :: nat where "RECV_TIMEOUT = 10 * 1000000000"

section \<open>State\<close>

record 'c ring_ops =
  rb_occupied_len :: "'c \<Rightarrow> nat"
  rb_pop_slice :: "nat \<Rightarrow> 'c \<Rightarrow> Cx list \<times> 'c"

text \<open>Documented behaviour: a FIFO; popping into a slice of \<open>n\<close> takes the oldest elements, as many
  as fit.\<close>

definition ring_laws :: "'c ring_ops \<Rightarrow> ('c \<Rightarrow> Cx list) \<Rightarrow> bool" where
  "ring_laws R items \<longleftrightarrow>
     (\<forall>c. rb_occupied_len R c = length (items c)) \<and>
     (\<forall>n c. fst (rb_pop_slice R n c) = take n (items c) \<and> items (snd (rb_pop_slice R n c)) = drop n (items c))"

definition list_ring :: "Cx list ring_ops" where
  "list_ring = \<lparr>rb_occupied_len = length, rb_pop_slice = (\<lambda>n c. (take n c, drop n c))\<rparr>"

lemma list_ring_laws: "ring_laws list_ring (\<lambda>c. c)"
  by (simp add: ring_laws_def list_ring_def)

datatype P1Command =
    SetRxFrequency nat u32
  | SetTxFrequency u32
  | SetSampleRate u32
  | SetNddc u8
  | SetTxDrive u8
  | SetPtt bool
  | SetCwMode bool
  | SetRxAttenuation u8
  | StopCommand

text \<open>The keys of \<open>iq_senders\<close> are the receivers' numbers with a channel.\<close>

record 'c Protocol1Client =
  device :: DiscoveredDevice
  running :: bool
  sample_rate :: u32
  nddc :: u8
  p1_rx_frequencies :: "u32 list"
  p1_tx_frequency :: u32
  tx_drive :: u8
  ptt :: bool
  rx_attenuation :: u8
  tx_seq :: u32
  rx_seq :: u32
  p1_control_idx :: u8
  iq_senders :: "nat list"
  tx_iq_consumer :: "'c option"
  status_receiver :: bool
  tx_cw_mode :: bool
  tx_iq_buffer :: "Cx list"
  host_pkt_buf :: bytes
  ctrl_pkt_buf :: bytes
  p1_ddc_sample_bufs :: "Cx list list"
  accumulated_status :: RadioStatus
  last_status_addr :: "u8 option"
  tx_subframes_with_data :: nat
  tx_subframes_empty :: nat
  tx_underrun_skips :: nat
  tx_debug_log_counter :: u32
  tx_fifo_estimate :: fval
  tx_last_send :: "nat option"
  tx_fifo_log_counter :: u32
  tx_samples_total :: nat
  tx_samples_clipped_re :: nat
  tx_samples_clipped_im :: nat
  tx_max_excess :: fval

datatype p1_action =
    SendPacket bytes SocketAddr
  | SendStatus RadioStatus
  | SendIq nat "Cx list"

type_synonym 'a sent = "p1_action list \<times> (ProtocolError + 'a)"

definition connect :: "DiscoveredDevice \<Rightarrow> 'c Protocol1Client" where
  "connect d = \<lparr>device = d, running = False, sample_rate = 48000, nddc = 1,
     p1_rx_frequencies = replicate 12 7074000, p1_tx_frequency = 7074000, tx_drive = 128, ptt = False,
     rx_attenuation = 0, tx_seq = 0, rx_seq = 0, p1_control_idx = 0, iq_senders = [],
     tx_iq_consumer = None, status_receiver = True, tx_cw_mode = False, tx_iq_buffer = [],
     host_pkt_buf = replicate P1_PACKET_SIZE 0, ctrl_pkt_buf = replicate P1_PACKET_SIZE 0,
     p1_ddc_sample_bufs = [], accumulated_status = default_radio_status, last_status_addr = None,
     tx_subframes_with_data = 0, tx_subframes_empty = 0, tx_underrun_skips = 0,
     tx_debug_log_counter = 0, tx_fifo_estimate = Fin 0, tx_last_send = None, tx_fifo_log_counter = 0,
     tx_samples_total = 0, tx_samples_clipped_re = 0, tx_samples_clipped_im = 0, tx_max_excess = Fin 0\<rparr>"

section \<open>Settings\<close>

definition set_rx_frequency :: "nat \<Rightarrow> u32 \<Rightarrow> 'c Protocol1Client \<Rightarrow> 'c Protocol1Client" where
  "set_rx_frequency ddc freq c =
     (if ddc < length (p1_rx_frequencies c)
      then c\<lparr>p1_rx_frequencies := (p1_rx_frequencies c)[ddc := freq]\<rparr> else c)"

definition set_tx_frequency :: "u32 \<Rightarrow> 'c Protocol1Client \<Rightarrow> 'c Protocol1Client" where
  "set_tx_frequency freq c = c\<lparr>p1_tx_frequency := freq\<rparr>"

definition set_sample_rate :: "u32 \<Rightarrow> 'c Protocol1Client \<Rightarrow> 'c Protocol1Client" where
  "set_sample_rate rate c = c\<lparr>sample_rate := rate\<rparr>"

definition set_nddc :: "u8 \<Rightarrow> 'c Protocol1Client \<Rightarrow> 'c Protocol1Client" where
  "set_nddc n c = c\<lparr>nddc := max n 1\<rparr>"

definition set_tx_drive :: "u8 \<Rightarrow> 'c Protocol1Client \<Rightarrow> 'c Protocol1Client" where
  "set_tx_drive drive c = c\<lparr>tx_drive := drive\<rparr>"

definition set_ptt :: "bool \<Rightarrow> 'c Protocol1Client \<Rightarrow> 'c Protocol1Client" where
  "set_ptt on c = c\<lparr>ptt := on\<rparr>"

definition set_rx_attenuation :: "u8 \<Rightarrow> 'c Protocol1Client \<Rightarrow> 'c Protocol1Client" where
  "set_rx_attenuation db c = c\<lparr>rx_attenuation := db\<rparr>"

text \<open>A new channel replaces the old one under the same key.\<close>

definition rx_iq_stream :: "nat \<Rightarrow> 'c Protocol1Client \<Rightarrow> 'c Protocol1Client" where
  "rx_iq_stream ddc c = (if ddc \<in> set (iq_senders c) then c else c\<lparr>iq_senders := iq_senders c @ [ddc]\<rparr>)"

text \<open>\<open>consumer\<close> is the consumer half of the new ring buffer.\<close>

definition tx_iq_sink :: "'c \<Rightarrow> 'c Protocol1Client \<Rightarrow> 'c Protocol1Client" where
  "tx_iq_sink consumer c = c\<lparr>tx_iq_consumer := Some consumer\<rparr>"

definition status_stream :: "'c Protocol1Client \<Rightarrow> bool \<times> 'c Protocol1Client" where
  "status_stream c = (status_receiver c, c\<lparr>status_receiver := False\<rparr>)"

section \<open>Control\<close>

definition samples_per_subframe :: "'c Protocol1Client \<Rightarrow> nat" where
  "samples_per_subframe c =
     (let n = min (max (unat (nddc c)) 1) 8 in 504 div (6 * n + 2))"

definition nddc_bits :: "'c Protocol1Client \<Rightarrow> u8" where
  "nddc_bits c = push_bit 3 ((max (nddc c) 1 - 1) AND 0x07)"

definition mox_bit :: "'c Protocol1Client \<Rightarrow> u8" where
  "mox_bit c = (if ptt c then 0x01 else 0x00)"

text \<open>A datagram to the device; \<open>sent\<close> gives the transport's error, if any.\<close>

definition transport_send ::
  "(bytes \<Rightarrow> string option) \<Rightarrow> bytes \<Rightarrow> 'c Protocol1Client \<Rightarrow> 'c Protocol1Client sent" where
  "transport_send sent pkt c =
     (case sent pkt of None \<Rightarrow> ([SendPacket pkt (addr (device c))], Inr c) | Some e \<Rightarrow> ([], Inl (Io e)))"

text \<open>Sequencing with \<^verbatim>\<open>?\<close>\<close>

definition and_then :: "'a sent \<Rightarrow> ('a \<Rightarrow> 'b sent) \<Rightarrow> 'b sent" where
  "and_then m f = (case m of (acts, Inl e) \<Rightarrow> (acts, Inl e)
     | (acts, Inr c) \<Rightarrow> (case f c of (acts', r) \<Rightarrow> (acts @ acts', r)))"

definition seq_bytes :: "u32 \<Rightarrow> bytes" where
  "seq_bytes s = (case u32_to_be s of (a, b, c, d) \<Rightarrow> [a, b, c, d])"

definition send_control ::
  "(bytes \<Rightarrow> string option) \<Rightarrow> u8 \<Rightarrow> u8 \<Rightarrow> u8 \<Rightarrow> u8 \<Rightarrow> u8 \<Rightarrow> 'c Protocol1Client \<Rightarrow> 'c Protocol1Client sent" where
  "send_control sent c0 c1 c2 c3 c4 c =
     (let buf = replicate (length (ctrl_pkt_buf c)) 0;
          buf = write_at 0 [0xEF, 0xFE, 0x01, 0x02] buf;
          s = tx_seq c;
          c = c\<lparr>tx_seq := tx_seq c + 1\<rparr>;
          buf = write_at 4 (seq_bytes s) buf;
          buf = write_at 8 P1_SYNC buf;
          buf = write_at 11 [c0 OR mox_bit c, c1, c2, c3, c4] buf;
          buf = write_at 520 P1_SYNC buf;
          buf = write_at 523 [mox_bit c, sample_rate_to_p1_code (sample_rate c)] buf;
          buf = write_at 527 [nddc_bits c OR 0x04] buf
      in transport_send sent buf (c\<lparr>ctrl_pkt_buf := buf\<rparr>))"

text \<open>The loop over the receivers of \<open>send_config\<close>.\<close>

fun send_rx_config ::
  "(bytes \<Rightarrow> string option) \<Rightarrow> nat list \<Rightarrow> 'c Protocol1Client \<Rightarrow> 'c Protocol1Client sent" where
  "send_rx_config sent [] c = ([], Inr c)"
| "send_rx_config sent (i # is) c =
     (case u32_to_be (p1_rx_frequencies c ! i) of (f1, f2, f3, f4) \<Rightarrow>
        and_then (send_control sent (0x04 + of_nat i * 2) f1 f2 f3 f4 c) (send_rx_config sent is))"

definition send_config :: "(bytes \<Rightarrow> string option) \<Rightarrow> 'c Protocol1Client \<Rightarrow> 'c Protocol1Client sent" where
  "send_config sent c =
     (let rate_code = sample_rate_to_p1_code (sample_rate c); duplex = 0x04 in
      and_then (send_control sent 0x00 rate_code 0 0 (nddc_bits c OR duplex) c) (\<lambda>c.
      and_then (case u32_to_be (p1_tx_frequency c) of (f1, f2, f3, f4) \<Rightarrow> send_control sent 0x02 f1 f2 f3 f4 c) (\<lambda>c.
      and_then (send_rx_config sent [0..<min (unat (nddc c)) 8] c) (\<lambda>c.
      let pa_c2 = (case hw_type (device c) of HermesLite \<Rightarrow> 0x08 | Hermes \<Rightarrow> 0x00)
      in send_control sent 0x12 (tx_drive c) pa_c2 0 0 c))))"

definition start_stop_packet :: "u8 \<Rightarrow> bytes" where
  "start_stop_packet cmd = [0xEF, 0xFE, 0x04, cmd] @ replicate 60 0"

definition start :: "(bytes \<Rightarrow> string option) \<Rightarrow> 'c Protocol1Client \<Rightarrow> 'c Protocol1Client sent" where
  "start sent c =
     and_then (transport_send sent (start_stop_packet 0x01) c)
       (\<lambda>c. send_config sent (c\<lparr>running := True\<rparr>))"

definition stop :: "(bytes \<Rightarrow> string option) \<Rightarrow> 'c Protocol1Client \<Rightarrow> 'c Protocol1Client sent" where
  "stop sent c =
     and_then (transport_send sent (start_stop_packet 0x00) c) (\<lambda>c. ([], Inr (c\<lparr>running := False\<rparr>)))"

text \<open>The thirteen control commands in rotation.\<close>

definition next_control_command ::
  "'c Protocol1Client \<Rightarrow> (u8 \<times> u8 \<times> u8 \<times> u8 \<times> u8) \<times> 'c Protocol1Client" where
  "next_control_command c =
     (let idx = unat (p1_control_idx c);
          hermes_lite = (hw_type (device c) = HermesLite);
          cmd =
            (if idx = 0 then
               let rate_code = sample_rate_to_p1_code (sample_rate c);
                   c2 = (if hermes_lite
                         then let freq = (if ptt c then p1_tx_frequency c else p1_rx_frequencies c ! 0)
                              in push_bit 1 (n2adr_oc_for_freq freq)
                         else 0)
               in (0x00, rate_code, c2, 0, nddc_bits c OR 0x04)
             else if idx = 1 then
               (case u32_to_be (p1_tx_frequency c) of (f1, f2, f3, f4) \<Rightarrow> (0x02, f1, f2, f3, f4))
             else if 2 \<le> idx \<and> idx \<le> 8 then
               let ddc = idx - 2;
                   freq = (if ddc < unat (nddc c) then p1_rx_frequencies c ! ddc else 0)
               in (case u32_to_be freq of (f1, f2, f3, f4) \<Rightarrow> (0x04 + of_nat ddc * 2, f1, f2, f3, f4))
             else if idx = 9 then
               (if hermes_lite then (0x12, tx_drive c, 0x08, 0, 0)
                else (0x12, tx_drive c, 0, alex_rx_hpf_for_freq (p1_rx_frequencies c ! 0),
                      alex_tx_lpf_for_freq (p1_tx_frequency c)))
             else if idx = 10 then
               (if hermes_lite then (0x14, 0, 0, 0, rx_attenuation c AND 0x1F)
                else (0x14, 0, 0, 0, if 20 \<le> rx_attenuation c then 0x20 else 0x00))
             else if idx = 11 then (0x16, 0, 0, 0, 0)
             else if idx = 12 then
               (if hermes_lite then (0x1C, 0, 0, 0xC0 OR (rx_attenuation c AND 0x3F), 0)
                else (0x1C, 0, 0, 0, 0))
             else (0x00, 0, 0, 0, 0))
      in (cmd, c\<lparr>p1_control_idx := of_nat ((idx + 1) mod 13)\<rparr>))"

section \<open>Transmitting\<close>

definition be_i16 :: "int \<Rightarrow> bytes" where
  "be_i16 k = (case i16_to_be k of (a, b) \<Rightarrow> [a, b])"

text \<open>The clipping statistics of a packed sample.\<close>

definition count_tx_sample :: "Cx \<Rightarrow> 'c Protocol1Client \<Rightarrow> 'c Protocol1Client" where
  "count_tx_sample s c =
     (let re_abs = fl_abs (re s); im_abs = fl_abs (im s);
          c = c\<lparr>tx_samples_total := tx_samples_total c + 1\<rparr>;
          c = (if fl_less (Fin 1) re_abs then c\<lparr>tx_samples_clipped_re := tx_samples_clipped_re c + 1\<rparr> else c);
          c = (if fl_less (Fin 1) im_abs then c\<lparr>tx_samples_clipped_im := tx_samples_clipped_im c + 1\<rparr> else c);
          c = (if fl_less (tx_max_excess c) re_abs then c\<lparr>tx_max_excess := re_abs\<rparr> else c)
      in if fl_less (tx_max_excess c) im_abs then c\<lparr>tx_max_excess := im_abs\<rparr> else c)"

text \<open>The loop over the samples of one sub-frame.\<close>

fun pack_tx_samples ::
  "nat \<Rightarrow> Cx list \<Rightarrow> 'c Protocol1Client \<times> bytes \<Rightarrow> 'c Protocol1Client \<times> bytes" where
  "pack_tx_samples base [] st = st"
| "pack_tx_samples base (s # ss) (c, buf) =
     (if length buf < base + 8 then (c, buf)
      else
        let mic_val = quantize16 (re s);
            buf = (if tx_cw_mode c then buf
                   else write_at (base + 2) (be_i16 mic_val) (write_at base (be_i16 mic_val) buf));
            buf = write_at (base + 4) (be_i16 (quantize16 (re s))) buf;
            buf = write_at (base + 6) (be_i16 (quantize16 (fl_neg (im s)))) buf
        in pack_tx_samples (base + 8) ss (count_tx_sample s c, buf))"

text \<open>Refilling from the ring buffer when fewer than 63 samples are left.\<close>

definition refill_tx_buffer :: "'c ring_ops \<Rightarrow> 'c Protocol1Client \<Rightarrow> 'c Protocol1Client" where
  "refill_tx_buffer R c =
     (if length (tx_iq_buffer c) < 63
      then case tx_iq_consumer c of
          None \<Rightarrow> c
        | Some cons \<Rightarrow>
            let avail = rb_occupied_len R cons
            in if 0 < avail
               then let (popped, cons) = rb_pop_slice R avail cons
                    in c\<lparr>tx_iq_buffer := tx_iq_buffer c @ popped, tx_iq_consumer := Some cons\<rparr>
               else c
      else c)"

definition fill_host_subframe ::
  "'c ring_ops \<Rightarrow> nat \<Rightarrow> 'c Protocol1Client \<times> bytes \<Rightarrow> 'c Protocol1Client \<times> bytes" where
  "fill_host_subframe R offset st =
     (let (c, buf) = st;
          buf = write_at offset P1_SYNC buf;
          mox = mox_bit c;
          ((c0, c1, c2, c3, c4), c) = next_control_command c;
          buf = write_at (offset + 3) [c0 OR mox, c1, c2, c3, c4] buf
      in if ptt c
         then
           let c = refill_tx_buffer R c;
               n = min (length (tx_iq_buffer c)) 63;
               (c, buf) =
                 (if 0 < n
                  then let (c, buf) = pack_tx_samples (offset + 8) (take n (tx_iq_buffer c)) (c, buf)
                       in (c\<lparr>tx_iq_buffer := drop n (tx_iq_buffer c),
                             tx_subframes_with_data := tx_subframes_with_data c + 1\<rparr>, buf)
                  else (c\<lparr>tx_subframes_empty := tx_subframes_empty c + 1\<rparr>, buf))
           in (c\<lparr>tx_debug_log_counter := tx_debug_log_counter c + 1\<rparr>, buf)
         else (c, buf))"

definition send_host_data_packet ::
  "'c ring_ops \<Rightarrow> (bytes \<Rightarrow> string option) \<Rightarrow> 'c Protocol1Client \<Rightarrow> 'c Protocol1Client sent" where
  "send_host_data_packet R sent c =
     (let buf = replicate (length (host_pkt_buf c)) 0;
          buf = write_at 0 [0xEF, 0xFE, 0x01, 0x02] buf;
          s = tx_seq c;
          c = c\<lparr>tx_seq := tx_seq c + 1\<rparr>;
          buf = write_at 4 (seq_bytes s) buf;
          (c, pkt) = fill_host_subframe R 520 (fill_host_subframe R 8 (c, buf))
      in transport_send sent pkt (c\<lparr>host_pkt_buf := pkt\<rparr>))"

section \<open>Receiving\<close>

definition update_status :: "u8 \<Rightarrow> u8 \<Rightarrow> u8 \<Rightarrow> u8 \<Rightarrow> u8 \<Rightarrow> RadioStatus \<Rightarrow> RadioStatus" where
  "update_status address c1 c2 c3 c4 st =
     (if address = 0x00 then st\<lparr>rs_adc_overflow := c1\<rparr>
      else if address = 0x08
      then st\<lparr>rs_exciter_power := u16_from_be c1 c2, rs_forward_power := u16_from_be c3 c4\<rparr>
      else if address = 0x10
      then st\<lparr>rs_reverse_power := u16_from_be c1 c2, rs_supply_voltage := u16_from_be c3 c4\<rparr>
      else if address = 0x18 then st\<lparr>rs_pa_current := u16_from_be c1 c2\<rparr>
      else st)"

text \<open>The samples of one receiver in a sub-frame; those past its end are skipped.\<close>

definition deinterleave :: "bytes \<Rightarrow> nat \<Rightarrow> nat \<Rightarrow> Cx list" where
  "deinterleave sf n ddc =
     (let spr = 504 div (6 * n + 2); block_size = 6 * n + 2
      in List.map_filter (\<lambda>row.
           let sample_offset = 8 + row * block_size + ddc * 6
           in if sample_offset + 6 \<le> length sf then unpack_iq_24bit sf sample_offset else None) [0..<spr])"

definition parse_radio_subframe :: "bytes \<Rightarrow> 'c Protocol1Client \<Rightarrow> p1_action list \<times> 'c Protocol1Client" where
  "parse_radio_subframe sf c =
     (if length sf < P1_SUBFRAME_SIZE \<or> take 3 sf \<noteq> P1_SYNC then ([], c)
      else
        let c0 = sf ! 3; c1 = sf ! 4; c2 = sf ! 5; c3 = sf ! 6; c4 = sf ! 7;
            p = (c0 AND 0x01 \<noteq> 0);
            address = c0 AND 0x7E;
            c = c\<lparr>accumulated_status := (accumulated_status c)\<lparr>rs_ptt := p\<rparr>\<rparr>;
            wrapped = (case last_status_addr c of Some prev \<Rightarrow> address \<le> prev | None \<Rightarrow> False);
            acts = (if wrapped then [SendStatus (accumulated_status c)] else []);
            c = c\<lparr>last_status_addr := Some address,
                  accumulated_status := update_status address c1 c2 c3 c4 (accumulated_status c)\<rparr>;
            n = max (unat (nddc c)) 1;
            bufs = map (deinterleave sf n) [0..<n];
            to_send = (\<lambda>ddc. ddc \<in> set (iq_senders c) \<and> bufs ! ddc \<noteq> [])
        in (acts @ map (\<lambda>ddc. SendIq ddc (bufs ! ddc)) (filter to_send [0..<n]),
            c\<lparr>p1_ddc_sample_bufs := map (\<lambda>ddc. if to_send ddc then [] else bufs ! ddc) [0..<n]\<rparr>))"

definition handle_radio_packet :: "bytes \<Rightarrow> 'c Protocol1Client \<Rightarrow> p1_action list \<times> 'c Protocol1Client" where
  "handle_radio_packet data c =
     (if length data < 8 then ([], c)
      else if data ! 0 \<noteq> 0xEF \<or> data ! 1 \<noteq> 0xFE then ([], c)
      else if data ! 2 = 0x01
      then if P1_PACKET_SIZE \<le> length data
           then let s = u32_from_be (data ! 4) (data ! 5) (data ! 6) (data ! 7);
                    c = c\<lparr>rx_seq := s + 1\<rparr>;
                    (acts, c) = parse_radio_subframe (take 512 (drop 8 data)) c;
                    (acts', c) = parse_radio_subframe (take 512 (drop 520 data)) c
                in (acts @ acts', c)
           else ([], c)
      else ([], c))"

section \<open>Commands and the main loop\<close>

definition handle_command ::
  "(bytes \<Rightarrow> string option) \<Rightarrow> P1Command \<Rightarrow> 'c Protocol1Client \<Rightarrow> 'c Protocol1Client sent" where
  "handle_command sent cmd c =
     (case cmd of
        SetRxFrequency ddc freq \<Rightarrow> ([], Inr (set_rx_frequency ddc freq c))
      | SetTxFrequency freq \<Rightarrow> ([], Inr (set_tx_frequency freq c))
      | SetSampleRate rate \<Rightarrow> ([], Inr (set_sample_rate rate c))
      | SetNddc n \<Rightarrow> ([], Inr (set_nddc n c))
      | SetTxDrive drive \<Rightarrow> ([], Inr (set_tx_drive drive c))
      | SetPtt on \<Rightarrow>
          let was = ptt c;
              c = set_ptt on c;
              c = (if on \<and> \<not> was
                   then c\<lparr>tx_fifo_estimate := Fin 0, tx_last_send := None, tx_fifo_log_counter := 0,
                          tx_samples_total := 0, tx_samples_clipped_re := 0, tx_samples_clipped_im := 0,
                          tx_max_excess := Fin 0, tx_underrun_skips := 0\<rparr>
                   else c);
              c = (if \<not> on
                   then c\<lparr>tx_iq_buffer := [], tx_subframes_with_data := 0, tx_subframes_empty := 0,
                          tx_underrun_skips := 0, tx_debug_log_counter := 0\<rparr>
                   else c)
          in ([], Inr c)
      | SetCwMode cw \<Rightarrow> ([], Inr (c\<lparr>tx_cw_mode := cw\<rparr>))
      | SetRxAttenuation db \<Rightarrow> ([], Inr (set_rx_attenuation db c))
      | StopCommand \<Rightarrow> stop sent c)"

text \<open>The local variables of \<open>run\<close>, and what its \<^verbatim>\<open>select!\<close> sees.\<close>

record 'c run_state =
  rs_client :: "'c Protocol1Client"
  samples_per_packet :: nat
  wire_rate_interval :: nat
  last_recv :: nat
  next_tx_send :: nat

datatype run_event =
    SendDue nat
  | Received nat bytes
  | ReceiveFailed
  | CommandArrived P1Command
  | TimedOut

text \<open>\<^verbatim>\<open>Duration::from_secs_f64\<close> rounds to nanoseconds (half to even); \<open>None\<close> is its panic.\<close>

definition duration_from_secs_f64 :: "fval \<Rightarrow> nat option" where
  "duration_from_secs_f64 f = (case f of
     Fin x \<Rightarrow> if x < 0 \<or> 2 ^ 64 \<le> x then None else Some (nat (round_ties_even (x * 1000000000)))
   | _ \<Rightarrow> None)"

definition secs_f64 :: "nat \<Rightarrow> fval" where
  "secs_f64 d = f64_add (f64_of_int (int (d div 1000000000)))
     (f64_div (f64_of_int (int (d mod 1000000000))) (Fin 1000000000))"

definition run_init :: "nat \<Rightarrow> nat \<Rightarrow> 'c Protocol1Client \<Rightarrow> 'c run_state option" where
  "run_init now now' c =
     (let spp = samples_per_subframe c * 2
      in case duration_from_secs_f64 (f64_div (f64_of_int (int spp)) (f64_of_int (uint (sample_rate c)))) of
           None \<Rightarrow> None
         | Some interval \<Rightarrow> Some \<lparr>rs_client = c, samples_per_packet = spp, wire_rate_interval = interval,
                                  last_recv = now, next_tx_send = now'\<rparr>)"

definition voice_iq_avail :: "'c ring_ops \<Rightarrow> 'c Protocol1Client \<Rightarrow> nat" where
  "voice_iq_avail R c =
     length (tx_iq_buffer c) + (case tx_iq_consumer c of Some cons \<Rightarrow> rb_occupied_len R cons | None \<Rightarrow> 0)"

text \<open>The radio drains its FIFO at the sample rate.\<close>

definition drain_estimate :: "nat \<Rightarrow> 'c Protocol1Client \<Rightarrow> 'c Protocol1Client" where
  "drain_estimate now c =
     (let c = (case tx_last_send c of
             None \<Rightarrow> c
           | Some last_send \<Rightarrow>
               let elapsed = secs_f64 (now - last_send);
                   est = f64_sub (tx_fifo_estimate c) (f64_mul elapsed (f64_of_int (uint (sample_rate c))))
               in c\<lparr>tx_fifo_estimate := (if fl_less est (Fin 0) then Fin 0 else est)\<rparr>)
      in c\<lparr>tx_last_send := Some now\<rparr>)"

definition voice_delay :: "'c Protocol1Client \<Rightarrow> nat" where
  "voice_delay c =
     (let sr = f64_of_int (uint (sample_rate c));
          high_water = f64_mul (f64_round (30/1000)) sr;
          low_water = f64_mul (f64_round (6/1000)) sr
      in if fl_less high_water (tx_fifo_estimate c) then 2000 * 1000
         else if fl_less low_water (tx_fifo_estimate c) then 500 * 1000
         else 0)"

text \<open>The send branch: skip when a voice packet cannot be filled, else send and pace.\<close>

definition send_due ::
  "'c ring_ops \<Rightarrow> (bytes \<Rightarrow> string option) \<Rightarrow> nat \<Rightarrow> 'c run_state \<Rightarrow> 'c run_state sent" where
  "send_due R sent now r =
     (let c = rs_client r;
          voice_tx = (ptt c \<and> \<not> tx_cw_mode c);
          voice_underrun = (voice_tx \<and> voice_iq_avail R c < samples_per_packet r);
          sending =
            (if voice_underrun
             then ([], Inr (500 * 1000, c\<lparr>tx_underrun_skips := tx_underrun_skips c + 1\<rparr>))
             else and_then (send_host_data_packet R sent (drain_estimate now c)) (\<lambda>c.
                    let c = c\<lparr>tx_fifo_estimate := f64_add (tx_fifo_estimate c) (f64_of_int (int (samples_per_packet r)))\<rparr>
                    in ([], Inr (if voice_tx then voice_delay c else wire_rate_interval r, c))))
      in and_then sending (\<lambda>(next_delay, c).
           let scheduled = next_tx_send r + next_delay;
               due = (if now \<le> scheduled then scheduled else now + next_delay);
               c = (if voice_tx then c\<lparr>tx_fifo_log_counter := tx_fifo_log_counter c + 1\<rparr> else c)
           in ([], Inr (r\<lparr>rs_client := c, next_tx_send := due\<rparr>))))"

text \<open>One turn of the loop; it runs while the client is running.\<close>

definition run_step ::
  "'c ring_ops \<Rightarrow> (bytes \<Rightarrow> string option) \<Rightarrow> run_event \<Rightarrow> 'c run_state \<Rightarrow> 'c run_state sent" where
  "run_step R sent ev r =
     (case ev of
        SendDue now \<Rightarrow> send_due R sent now r
      | Received now data \<Rightarrow>
          let (acts, c) = handle_radio_packet data (rs_client r)
          in (acts, Inr (r\<lparr>last_recv := now, rs_client := c\<rparr>))
      | ReceiveFailed \<Rightarrow> ([], Inr r)
      | CommandArrived cmd \<Rightarrow>
          and_then (handle_command sent cmd (rs_client r)) (\<lambda>c. ([], Inr (r\<lparr>rs_client := c\<rparr>)))
      | TimedOut \<Rightarrow> ([], Inl ConnectionLost))"

fun run_loop ::
  "'c ring_ops \<Rightarrow> (bytes \<Rightarrow> string option) \<Rightarrow> run_event list \<Rightarrow> 'c run_state \<Rightarrow> 'c run_state sent" where
  "run_loop R sent [] r = ([], Inr r)"
| "run_loop R sent (ev # evs) r =
     (if running (rs_client r) then and_then (run_step R sent ev r) (run_loop R sent evs) else ([], Inr r))"

section \<open>Discovery packets\<close>

definition build_p1_discovery_request :: bytes where
  "build_p1_discovery_request = [0xEF, 0xFE, 0x02] @ replicate 60 0"

definition parse_p1_discovery_response :: "bytes \<Rightarrow> SocketAddr \<Rightarrow> DiscoveredDevice option" where
  "parse_p1_discovery_response data a =
     (if length data < 20 then None
      else if data ! 0 \<noteq> 0xEF \<or> data ! 1 \<noteq> 0xFE then None
      else let status = data ! 2
           in if status \<noteq> 0x02 \<and> status \<noteq> 0x03 then None
              else let n = (if 20 < length data then data ! 20 else 1)
                   in if data ! 11 \<noteq> 0 then None
                      else case from_p1_code (data ! 10) of
                          None \<Rightarrow> None
                        | Some h \<Rightarrow> Some \<lparr>addr = (fst a, P1_PORT), mac = take 6 (drop 3 data), hw_type = h,
                             firmware_version = data ! 9, num_rxs = n, status_code = status\<rparr>)"

end
