(* ===== verification/Proto_Discovery.thy ===== *)
theory Proto_Discovery
  imports Proto_Client "HOL-Library.Sublist"
begin

text \<open>
  \<^verbatim>\<open>crates/radio-utils-protocol/src/discovery.rs\<close>. The operating system and tokio give the
  interfaces, say which addresses can be bound and deliver datagrams; those are arguments, the
  datagrams as the list in which the receive tasks hand them to the shared channel before the
  deadline. Addresses are IPv4; other interfaces count as not IPv4.
\<close>

record Interface =
  if_loopback :: bool
  if_v4 :: "(u32 \<times> u32 option) option"

definition UNSPECIFIED :: u32 where "UNSPECIFIED = 0"
definition BROADCAST :: u32 where "BROADCAST = 0xFFFFFFFF"

text \<open>What one interface adds: the global broadcast, and its own broadcast address if it has one.\<close>

definition interface_binds :: "u32 \<times> u32 option \<Rightarrow> SocketAddr list" where
  "interface_binds v4 = (case v4 of (ip, bcast) \<Rightarrow>
     (ip, 0) # (case bcast of Some _ \<Rightarrow> [(ip, 0)] | None \<Rightarrow> []))"

definition interface_targets :: "u16 \<Rightarrow> u32 \<times> u32 option \<Rightarrow> SocketAddr list" where
  "interface_targets port v4 = (case v4 of (ip, bcast) \<Rightarrow>
     (BROADCAST, port) # (case bcast of Some b \<Rightarrow> [(b, port)] | None \<Rightarrow> []))"

text \<open>The parallel vectors of bind addresses and targets; \<open>None\<close>: the feature \<^verbatim>\<open>if-addrs\<close> is off
  (\<open>Some None\<close>: the interfaces cannot be listed).\<close>

definition discovery_targets ::
  "Interface list option option \<Rightarrow> u16 \<Rightarrow> SocketAddr list \<times> SocketAddr list" where
  "discovery_targets listed port =
     (case listed of
        None \<Rightarrow> ([(UNSPECIFIED, 0)], [(BROADCAST, port)])
      | Some ifaces \<Rightarrow>
          let ifaces_list = filter (\<lambda>i. \<not> if_loopback i \<and> if_v4 i \<noteq> None)
                (case ifaces of Some is \<Rightarrow> is | None \<Rightarrow> [])
          in if ifaces_list = [] then ([(UNSPECIFIED, 0)], [(BROADCAST, port)])
             else
               let v4 = List.map_filter if_v4 ifaces_list
               in (concat (map interface_binds v4), concat (map (interface_targets port) v4)))"

text \<open>Sockets whose bind succeeds keep their target.\<close>

definition socket_target_pairs ::
  "(SocketAddr \<Rightarrow> bool) \<Rightarrow> SocketAddr list \<Rightarrow> SocketAddr list \<Rightarrow> (SocketAddr \<times> SocketAddr) list" where
  "socket_target_pairs binds bind_addrs targets = filter (\<lambda>(b, _). binds b) (zip bind_addrs targets)"

text \<open>Each socket sends twice, to its own target.\<close>

definition requests_sent :: "bytes \<Rightarrow> (SocketAddr \<times> SocketAddr) list \<Rightarrow> (SocketAddr \<times> bytes \<times> SocketAddr) list" where
  "requests_sent req pairs = concat (map (\<lambda>(s, target). [(s, req, target), (s, req, target)]) pairs)"

text \<open>A receive task reads at most 128 bytes of a datagram and hands over what parses.\<close>

definition recv_device ::
  "(bytes \<Rightarrow> SocketAddr \<Rightarrow> DiscoveredDevice option) \<Rightarrow> bytes \<times> SocketAddr \<Rightarrow> DiscoveredDevice option" where
  "recv_device parse d = (case d of (data, a) \<Rightarrow> parse (take 128 data) a)"

text \<open>Collecting, unique by MAC: \<open>seen_macs\<close> and \<open>devices\<close>.\<close>

definition collect_device ::
  "DiscoveredDevice \<Rightarrow> u8 list list \<times> DiscoveredDevice list \<Rightarrow> u8 list list \<times> DiscoveredDevice list" where
  "collect_device d st =
     (let (seen_macs, devices) = st
      in if mac d \<in> set seen_macs then (seen_macs, devices) else (mac d # seen_macs, devices @ [d]))"

definition discover_multi ::
  "(bytes \<Rightarrow> SocketAddr \<Rightarrow> DiscoveredDevice option) \<Rightarrow> bytes \<Rightarrow> (SocketAddr \<Rightarrow> bool) \<Rightarrow>
   SocketAddr list \<Rightarrow> SocketAddr list \<Rightarrow> (bytes \<times> SocketAddr) list \<Rightarrow>
   (SocketAddr \<times> bytes \<times> SocketAddr) list \<times> (ProtocolError + DiscoveredDevice list)" where
  "discover_multi parse req binds bind_addrs targets arrivals =
     (let pairs = socket_target_pairs binds bind_addrs targets
      in if pairs = [] then ([], Inl (Io ''Failed to bind any discovery sockets''))
         else (requests_sent req pairs,
               Inr (snd (fold collect_device (List.map_filter (recv_device parse) arrivals) ([], [])))))"

definition discover_on_interfaces ::
  "(bytes \<Rightarrow> SocketAddr \<Rightarrow> DiscoveredDevice option) \<Rightarrow> bytes \<Rightarrow> (SocketAddr \<Rightarrow> bool) \<Rightarrow>
   Interface list option option \<Rightarrow> u16 \<Rightarrow> (bytes \<times> SocketAddr) list \<Rightarrow>
   (SocketAddr \<times> bytes \<times> SocketAddr) list \<times> (ProtocolError + DiscoveredDevice list)" where
  "discover_on_interfaces parse req binds listed port arrivals =
     (case discovery_targets listed port of
        (bind_addrs, targets) \<Rightarrow> discover_multi parse req binds bind_addrs targets arrivals)"

definition discover_at_addr ::
  "(bytes \<Rightarrow> SocketAddr \<Rightarrow> DiscoveredDevice option) \<Rightarrow> bytes \<Rightarrow> (SocketAddr \<Rightarrow> bool) \<Rightarrow>
   u32 \<Rightarrow> u16 \<Rightarrow> (bytes \<times> SocketAddr) list \<Rightarrow>
   (SocketAddr \<times> bytes \<times> SocketAddr) list \<times> (ProtocolError + DiscoveredDevice list)" where
  "discover_at_addr parse req binds a port arrivals =
     discover_multi parse req binds [(UNSPECIFIED, 0)] [(a, port)] arrivals"

definition discover ::
  "(SocketAddr \<Rightarrow> bool) \<Rightarrow> Interface list option option \<Rightarrow> (bytes \<times> SocketAddr) list \<Rightarrow>
   (SocketAddr \<times> bytes \<times> SocketAddr) list \<times> (ProtocolError + DiscoveredDevice list)" where
  "discover binds listed arrivals =
     discover_on_interfaces parse_p1_discovery_response build_p1_discovery_request binds listed P1_PORT arrivals"

definition discover_at ::
  "(SocketAddr \<Rightarrow> bool) \<Rightarrow> u32 \<Rightarrow> (bytes \<times> SocketAddr) list \<Rightarrow>
   (SocketAddr \<times> bytes \<times> SocketAddr) list \<times> (ProtocolError + DiscoveredDevice list)" where
  "discover_at binds a arrivals =
     discover_at_addr parse_p1_discovery_response build_p1_discovery_request binds a P1_PORT arrivals"

section \<open>Properties\<close>

lemma collected:
  "fold collect_device ds (seen, devs) =
    (rev (map mac (snd (fold collect_device ds (seen, [])))) @ seen,
     devs @ snd (fold collect_device ds (seen, [])))"
proof (induction ds arbitrary: seen devs)
  case (Cons d ds)
  show ?case
    using Cons.IH [of "mac d # seen" "devs @ [d]"] Cons.IH [of "mac d # seen" "[d]"] Cons.IH [of seen devs]
    by (simp add: collect_device_def)
qed simp

definition unique_by_mac :: "u8 list list \<Rightarrow> DiscoveredDevice list \<Rightarrow> DiscoveredDevice list" where
  "unique_by_mac seen ds = snd (fold collect_device ds (seen, []))"

lemma unique_by_mac_simps [simp]:
  "unique_by_mac seen [] = []"
  "unique_by_mac seen (d # ds) =
    (if mac d \<in> set seen then unique_by_mac seen ds else d # unique_by_mac (mac d # seen) ds)"
  using collected [of ds "mac d # seen" "[d]"]
  by (simp_all add: unique_by_mac_def) (simp add: collect_device_def)+

text \<open>Each device is the first answer with its MAC address.\<close>

lemma unique_by_mac_spec:
  "distinct (map mac (unique_by_mac seen ds))"
  "mac ` set (unique_by_mac seen ds) = mac ` set ds - set seen"
  "subseq (unique_by_mac seen ds) ds"
  by (induction ds arbitrary: seen) auto

lemma unique_by_mac_first:
  "d \<in> set (unique_by_mac seen ds) \<Longrightarrow> find (\<lambda>x. mac x = mac d) ds = Some d"
proof (induction ds arbitrary: seen)
  case (Cons x xs)
  show ?case
  proof (cases "d = x")
    case False
    with Cons.prems obtain seen' where d: "d \<in> set (unique_by_mac seen' xs)" "mac x \<in> set seen'"
      by (cases "mac x \<in> set seen") auto
    then have "mac d \<in> mac ` set xs - set seen'" using unique_by_mac_spec(2) [of seen' xs] by blast
    then have "mac d \<noteq> mac x" using d(2) by auto
    then show ?thesis using Cons.IH [OF d(1)] by simp
  qed simp
qed simp

text \<open>What discovery should do with the network: the address and the broadcast address of every
  interface that is IPv4 and not the loopback; from each address once to the global broadcast and,
  where the interface has a broadcast address, once to that; without such an interface, from any
  address to the global broadcast.\<close>

definition usable :: "Interface list option option \<Rightarrow> (u32 \<times> u32 option) list" where
  "usable listed = (case listed of Some (Some is) \<Rightarrow> List.map_filter (\<lambda>i. if if_loopback i then None else if_v4 i) is | _ \<Rightarrow> [])"

fun routes_of :: "u16 \<Rightarrow> u32 \<times> u32 option \<Rightarrow> (SocketAddr \<times> SocketAddr) list" where
  "routes_of port (ip, None) = [((ip, 0), (0xFFFFFFFF, port))]"
| "routes_of port (ip, Some bcast) = [((ip, 0), (0xFFFFFFFF, port)), ((ip, 0), (bcast, port))]"

definition routes :: "Interface list option option \<Rightarrow> u16 \<Rightarrow> (SocketAddr \<times> SocketAddr) list" where
  "routes listed port =
     (if usable listed = [] then [((0, 0), (0xFFFFFFFF, port))] else concat (map (routes_of port) (usable listed)))"

lemma routes_of_zip: "zip (interface_binds v) (interface_targets port v) = routes_of port v"
  "length (interface_binds v) = length (interface_targets port v)"
  by (cases "(port, v)" rule: routes_of.cases; simp add: interface_binds_def interface_targets_def BROADCAST_def)+

lemma zip_concat:
  "(\<And>v. v \<in> set vs \<Longrightarrow> length (f v) = length (g v)) \<Longrightarrow>
    zip (concat (map f vs)) (concat (map g vs)) = concat (map (\<lambda>v. zip (f v) (g v)) vs)"
  by (induction vs) auto

lemma eligible_addresses:
  "List.map_filter if_v4 (filter (\<lambda>i. \<not> if_loopback i \<and> if_v4 i \<noteq> None) is) =
    List.map_filter (\<lambda>i. if if_loopback i then None else if_v4 i) is"
  "filter (\<lambda>i. \<not> if_loopback i \<and> if_v4 i \<noteq> None) is = [] \<longleftrightarrow>
    List.map_filter (\<lambda>i. if if_loopback i then None else if_v4 i) is = []"
  by (induction "is") (auto simp: map_filter_simps split: option.splits)

lemma discovery_targets_routes:
  assumes "discovery_targets listed port = (bs, ts)"
  shows "zip bs ts = routes listed port"
proof (cases "\<exists>is. listed = Some (Some is)")
  case True
  then obtain "is" where l: "listed = Some (Some is)" by blast
  show ?thesis
    using assms eligible_addresses [of "is"] zip_concat [of "usable listed" interface_binds "interface_targets port"]
    by (auto simp: l discovery_targets_def routes_def usable_def Let_def routes_of_zip UNSPECIFIED_def BROADCAST_def
        split: if_splits)
next
  case False
  then show ?thesis
    using assms by (auto simp: discovery_targets_def routes_def usable_def UNSPECIFIED_def BROADCAST_def split: option.splits)
qed

lemma requests_per_route:
  "requests_sent req (filter (\<lambda>(b, _). binds b) ps) =
    concat (map (\<lambda>(s, t). if binds s then replicate 2 (s, req, t) else []) ps)"
  by (induction ps) (auto simp: requests_sent_def numeral_2_eq_2)

text \<open>C22: Discovery sends the 63-byte request twice on every route whose socket could be bound: from the
  address of each IPv4 interface that is not the loopback, to the global broadcast and to that
  interface's own broadcast address if it has one, on port 1024 (without such an interface, from
  any address to the global broadcast), and nowhere else. Of the answers that parse it returns the
  first one of each MAC address, in order of arrival. Only when no socket at all could be bound does
  it fail.\<close>

theorem discover_result:
  assumes "discover binds listed arrivals = (requests, result)"
    and "answers = List.map_filter (recv_device parse_p1_discovery_response) arrivals"
  shows "requests = concat (map (\<lambda>(s, t). if binds s then
        replicate 2 (s, build_p1_discovery_request, t) else []) (routes listed 1024)) \<and>
    (if \<exists>(s, t) \<in> set (routes listed 1024). binds s
     then \<exists>devices. result = Inr devices \<and> distinct (map mac devices) \<and> subseq devices answers \<and>
       mac ` set devices = mac ` set answers \<and>
       (\<forall>d \<in> set devices. find (\<lambda>x. mac x = mac d) answers = Some d)
     else result = Inl (Io ''Failed to bind any discovery sockets''))"
proof -
  obtain bs ts where targets: "discovery_targets listed P1_PORT = (bs, ts)" by fastforce
  define rs where "rs = routes listed 1024"
  have pairs: "socket_target_pairs binds bs ts = filter (\<lambda>(b, _). binds b) rs"
    using discovery_targets_routes [OF targets] by (simp add: socket_target_pairs_def rs_def P1_PORT_def)
  have none: "filter (\<lambda>(b, _). binds b) rs = [] \<longleftrightarrow> \<not> (\<exists>(s, t) \<in> set rs. binds s)"
    by (auto simp: filter_empty_conv)
  have run: "discover_multi parse_p1_discovery_response build_p1_discovery_request binds bs ts arrivals = (requests, result)"
    using assms(1) targets by (simp add: discover_def discover_on_interfaces_def)
  have none_sent: "concat (map (\<lambda>(s, t). if binds s then replicate 2 (s, build_p1_discovery_request, t) else []) rs) = []"
    if "filter (\<lambda>(b, _). binds b) rs = []"
    using that requests_per_route [of build_p1_discovery_request binds rs] by (simp add: requests_sent_def)
  have "requests = concat (map (\<lambda>(s, t). if binds s then replicate 2 (s, build_p1_discovery_request, t) else []) rs)"
    using run none_sent unfolding discover_multi_def pairs requests_per_route Let_def by (auto split: if_splits)
  moreover have "if \<exists>(s, t) \<in> set rs. binds s then result = Inr (unique_by_mac [] answers)
      else result = Inl (Io ''Failed to bind any discovery sockets'')"
    using run unfolding discover_multi_def pairs Let_def none unique_by_mac_def assms(2) by (auto split: if_splits)
  ultimately show ?thesis
    unfolding rs_def using unique_by_mac_spec [of "[]" answers] unique_by_mac_first [of _ "[]" answers]
    by (auto split: if_splits)
qed

text \<open>One interface with a broadcast address; two answers of one device and one of another between
  them.\<close>

definition sample_answer :: "u8 \<Rightarrow> u8 \<Rightarrow> bytes" where
  "sample_answer unit code = [0xEF, 0xFE, 0x02, 1, 2, 3, 4, 5, unit, code, 6, 0, 0, 0, 0, 0, 0, 0, 0, 0]"

theorem discover_result_witness:
  "let run = discover (\<lambda>_. True) (Some (Some [\<lparr>if_loopback = False, if_v4 = Some (7, Some 9)\<rparr>]))
        [(sample_answer 6 25, (1, 1024)), (sample_answer 8 25, (2, 1024)), (sample_answer 6 26, (3, 1024))]
   in fst run = [((7, 0), build_p1_discovery_request, (0xFFFFFFFF, 1024)), ((7, 0), build_p1_discovery_request, (0xFFFFFFFF, 1024)),
       ((7, 0), build_p1_discovery_request, (9, 1024)), ((7, 0), build_p1_discovery_request, (9, 1024))] \<and>
     (\<exists>devices. snd run = Inr devices \<and> distinct (map mac devices))"
proof -
  let ?l = "Some (Some [\<lparr>if_loopback = False, if_v4 = Some (7, Some 9)\<rparr>])"
  let ?a = "[(sample_answer 6 25, (1, 1024)), (sample_answer 8 25, (2, 1024)), (sample_answer 6 26, (3, 1024))]"
  have "routes ?l 1024 = [((7, 0), (0xFFFFFFFF, 1024)), ((7, 0), (9, 1024))]"
    by (simp add: routes_def usable_def map_filter_simps)
  then have "\<exists>(s, t) \<in> set (routes ?l 1024). True"
    "concat (map (\<lambda>(s, t). if True then replicate 2 (s, build_p1_discovery_request, t) else []) (routes ?l 1024)) =
       [((7, 0), build_p1_discovery_request, (0xFFFFFFFF, 1024)), ((7, 0), build_p1_discovery_request, (0xFFFFFFFF, 1024)),
        ((7, 0), build_p1_discovery_request, (9, 1024)), ((7, 0), build_p1_discovery_request, (9, 1024))]"
    by (auto simp: numeral_2_eq_2)
  with discover_result [of "\<lambda>_. True" ?l ?a, OF surjective_pairing refl] show ?thesis
    unfolding Let_def by (simp only: if_True) blast
qed

end
