(* ===== verification/Emu_Link.thy ===== *)
theory Emu_Link
  imports Emu_Clients Proto_Discovery Proto_Packets
begin

text \<open>
  The emulator and the host together. The emulator always builds a packet, and the host's parser
  accepts it and finds in it the emulator's samples and PTT (\<open>emulator_packets_parse\<close>); the
  emulator answers the host's discovery request with a response that parses to the device it
  describes (\<open>discovery_exchange\<close>).
\<close>

section \<open>The bytes of a sub-frame\<close>

definition row_bytes :: "Cx list list \<Rightarrow> nat \<Rightarrow> nat \<Rightarrow> bytes" where
  "row_bytes bufs n row = concat (map (\<lambda>d. iq24 (bufs ! d ! row)) [0..<n]) @ [0, 0]"

lemma length_row_bytes [simp]: "length (row_bytes bufs n row) = 6 * n + 2"
  by (simp add: row_bytes_def length_concat sum_list_triv o_def)

lemma steps_append:
  "steps f (xs @ ys) st = (case steps f xs st of None \<Rightarrow> None | Some st \<Rightarrow> steps f ys st)"
  by (induction xs arbitrary: st) (auto split: option.split)

lemma pack_samples:
  assumes "n \<le> length bufs" "\<forall>d < n. row < length (bufs ! d)" "off + 6 * n \<le> length buf"
  shows "steps (\<lambda>ddc_idx (buf, off).
      if ddc_idx < length bufs \<and> row < length (bufs ! ddc_idx)
      then pack_iq_24bit_into buf off (bufs ! ddc_idx ! row) else None) [0..<n] (buf, off) =
    Some (write_at off (concat (map (\<lambda>d. iq24 (bufs ! d ! row)) [0..<n])) buf, off + 6 * n)"
  using assms
proof (induction n)
  case (Suc n)
  have len: "length (concat (map (\<lambda>d. iq24 (bufs ! d ! row)) [0..<n])) = 6 * n"
    by (simp add: length_concat sum_list_triv o_def)
  show ?case
    using Suc by (simp add: steps_append pack_as_write write_at_append len add.assoc)
qed simp

lemma pack_row_bytes:
  assumes "n \<le> length bufs" "\<forall>d < n. row < length (bufs ! d)" "off + (6 * n + 2) \<le> length buf"
  shows "pack_row bufs n row (buf, off) = Some (write_at off (row_bytes bufs n row) buf, off + (6 * n + 2))"
proof -
  have len: "length (concat (map (\<lambda>d. iq24 (bufs ! d ! row)) [0..<n])) = 6 * n"
    by (simp add: length_concat sum_list_triv o_def)
  show ?thesis
    using assms pack_samples [OF assms(1,2), of off buf]
    by (simp add: pack_row_def row_bytes_def write_at_append len)
qed

lemma pack_rows_bytes:
  assumes "n \<le> length bufs" "\<forall>d < n. k \<le> length (bufs ! d)" "off + k * (6 * n + 2) \<le> length buf"
  shows "steps (pack_row bufs n) [0..<k] (buf, off) =
    Some (write_at off (concat (map (row_bytes bufs n) [0..<k])) buf, off + k * (6 * n + 2))"
  using assms
proof (induction k)
  case (Suc k)
  have len: "length (concat (map (row_bytes bufs n) [0..<k])) = k * (6 * n + 2)"
    by (simp add: length_concat sum_list_triv o_def)
  have "steps (pack_row bufs n) [0..<k] (buf, off) =
      Some (write_at off (concat (map (row_bytes bufs n) [0..<k])) buf, off + k * (6 * n + 2))"
    using Suc.prems by (intro Suc.IH) auto
  moreover have "pack_row bufs n k (write_at off (concat (map (row_bytes bufs n) [0..<k])) buf, off + k * (6 * n + 2)) =
      Some (write_at (off + k * (6 * n + 2)) (row_bytes bufs n k) (write_at off (concat (map (row_bytes bufs n) [0..<k])) buf),
        off + k * (6 * n + 2) + (6 * n + 2))"
    using Suc.prems by (intro pack_row_bytes) auto
  ultimately show ?case
    by (simp add: steps_append write_at_append len algebra_simps)
qed simp

definition iq_bytes :: "Cx list list \<Rightarrow> nat \<Rightarrow> nat \<Rightarrow> bytes" where
  "iq_bytes bufs n k =
     concat (map (row_bytes bufs n) [0..<k]) @ replicate (504 - k * (6 * n + 2)) 0"

lemma length_iq_bytes: "k * (6 * n + 2) \<le> 504 \<Longrightarrow> length (iq_bytes bufs n k) = 504"
  by (simp add: iq_bytes_def length_concat sum_list_triv o_def)

lemma response_address: "RESPONSE_ADDRS ! (k mod length RESPONSE_ADDRS) \<in> {0x00, 0x08, 0x10, 0x18}"
proof -
  have "k mod length RESPONSE_ADDRS < length RESPONSE_ADDRS" by (simp add: RESPONSE_ADDRS_def)
  then have "RESPONSE_ADDRS ! (k mod length RESPONSE_ADDRS) \<in> set RESPONSE_ADDRS" by (rule nth_mem)
  then show ?thesis by (simp add: RESPONSE_ADDRS_def)
qed

lemma length_response [simp]: "length (response_bytes E cs h c0) = 4"
  by (simp add: response_bytes_def be16_def Let_def case_prod_beta)

section \<open>Generating the samples\<close>

lemma length_live_step: "length out \<le> length scr \<Longrightarrow>
  live_step E eb rx sr fb (ps, scr, out) = (ps', scr', out') \<Longrightarrow> length scr' = length scr \<and> length out' = length out"
proof -
  assume len: "length out \<le> length scr"
    and step: "live_step E eb rx sr fb (ps, scr, out) = (ps', scr', out')"
  obtain f b where fb: "fb = (f, b)" by force
  obtain ps1 scr1 where c: "copy_live eb f b (length out) (follow_epoch f b ps, scr) = (ps1, scr1)" by force
  then have l1: "length scr1 = length scr"
    using len copy_live_block [OF len, of eb f b ps] by (auto simp: live_block_def taken_def)
  obtain scr2 ph where fs: "frequency_shift E (f64_sub (f64_of_u32 rx) (f64_of_u32 f)) sr
      (hm_get_or (live_shift_phase ps1) f (Fin 0)) (length out) scr1 = (scr2, ph)" by force
  then have l2: "length scr2 = length scr" using l1 by (metis fst_conv length_frequency_shift)
  from step len l1 l2 show ?thesis
    by (auto simp: live_step_def fb c fs Let_def length_accumulate split: if_splits)
qed

lemma length_live_echo:
  "generate_live_echo_into E order eb ps out rx sr = (ps', out') \<Longrightarrow> length out' = length out"
proof -
  assume g: "generate_live_echo_into E order eb ps out rx sr = (ps', out')"
  have f: "length scr' = length scr \<and> length out' = length out"
    if "fold (live_step E eb rx sr) fbs (ps, scr, out) = (ps', scr', out')" "length out \<le> length scr"
    for fbs ps scr out ps' scr' out'
    using that
  proof (induction fbs arbitrary: ps scr out)
    case (Cons fb fbs)
    obtain ps1 scr1 out1 where s: "live_step E eb rx sr fb (ps, scr, out) = (ps1, scr1, out1)"
      by (metis prod_cases3)
    from length_live_step [OF Cons.prems(2) s] Cons.IH [of ps1 scr1 out1] Cons.prems s show ?case by simp
  qed simp
  let ?scr = "if length (scratch ps) < length out then resize (length out) (scratch ps) else scratch ps"
  obtain ps1 scr1 out1 where s: "fold (live_step E eb rx sr) (hm_entries order (eb_live eb))
      (ps\<lparr>scratch := []\<rparr>, ?scr, replicate (length out) cx_zero) = (ps1, scr1, out1)"
    by (metis prod_cases3)
  have "length (replicate (length out) cx_zero) \<le> length ?scr" by simp
  from f [OF s this] g s show ?thesis
    unfolding generate_live_echo_into_def Let_def by (auto split: if_splits)
qed

lemma length_add_noise: "add_noise_into E sg out = (out', sg') \<Longrightarrow> length out' = length out"
proof -
  have "length (fst (add_noise_loop E level g out)) = length out" for level g
    by (induction out arbitrary: g) (simp_all add: Let_def case_prod_beta)
  moreover assume "add_noise_into E sg out = (out', sg')"
  ultimately show ?thesis by (auto simp: add_noise_into_def case_prod_beta split: if_splits)
qed

text \<open>The client's fields that generating samples leaves alone.\<close>

definition same_client :: "'g ClientState \<Rightarrow> 'g ClientState \<Rightarrow> bool" where
  "same_client cs cs' \<longleftrightarrow> cs' = cs\<lparr>echo_playback := echo_playback cs', siggen := siggen cs',
     ddc_sample_bufs := ddc_sample_bufs cs'\<rparr>"

lemma same_client_trans: "same_client a b \<Longrightarrow> same_client b c \<Longrightarrow> same_client a c"
  by (cases a; cases b; cases c) (simp add: same_client_def)

lemma same_client_fields:
  assumes "same_client a b"
  shows "cs_ptt b = cs_ptt a" "cs_nddc b = cs_nddc a" "pkt_buf b = pkt_buf a" "data_seq b = data_seq a"
    "rx_frequencies b = rx_frequencies a" "freq_buf b = freq_buf a"
  using assms by (cases a; cases b; simp add: same_client_def)+

definition echo_ok :: "EchoBuffer option \<Rightarrow> bool" where
  "echo_ok echo \<longleftrightarrow> (\<forall>eb. echo = Some eb \<longrightarrow> playable (echoes eb))"

lemma generate_ddc_total:
  assumes "any_order order" "echo_ok echo" "i < length (ddc_sample_bufs cs)"
  shows "\<exists>cs'. generate_ddc E order echo spr i cs = Some cs' \<and> same_client cs cs' \<and>
    (\<exists>b. length b = spr \<and> ddc_sample_bufs cs' = (ddc_sample_bufs cs)[i := b])"
proof -
  define g where "g = (case echo of
      None \<Rightarrow> Some (echo_playback cs, replicate spr cx_zero)
    | Some echo_ref \<Rightarrow>
        if has_data echo_ref
        then case eb_mode echo_ref of
            Live \<Rightarrow> Some (generate_live_echo_into E order echo_ref (echo_playback cs)
                           (resize spr (ddc_sample_bufs cs ! i)) (freq_buf cs ! i) (cs_sample_rate cs))
          | Loop \<Rightarrow> generate_echo_into E order echo_ref (echo_playback cs)
                           (resize spr (ddc_sample_bufs cs ! i)) (freq_buf cs ! i) (cs_sample_rate cs)
        else Some (echo_playback cs, replicate spr cx_zero))"
  have "\<exists>ps b. g = Some (ps, b) \<and> length b = spr"
  proof (cases echo)
    case (Some eb)
    then have p: "playable (echoes eb)" using assms(2) by (simp add: echo_ok_def)
    show ?thesis
    proof (cases "has_data eb")
      case True
      show ?thesis
      proof (cases "eb_mode eb")
        case Loop
        then show ?thesis using Some True
            generate_total [OF assms(1) p, of E "echo_playback cs" "resize spr (ddc_sample_bufs cs ! i)"]
          by (simp add: g_def)
      next
        case Live
        obtain ps b where "generate_live_echo_into E order eb (echo_playback cs)
            (resize spr (ddc_sample_bufs cs ! i)) (freq_buf cs ! i) (cs_sample_rate cs) = (ps, b)" by force
        with length_live_echo [OF this] show ?thesis using Some True Live by (simp add: g_def)
      qed
    qed (simp add: g_def Some)
  qed (simp add: g_def)
  then obtain ps b where g: "g = Some (ps, b)" "length b = spr" by blast
  obtain b' sg where n: "add_noise_into E (siggen cs) b = (b', sg)" by force
  have "length b' = spr" using length_add_noise [OF n] g by simp
  moreover have "generate_ddc E order echo spr i cs = Some (cs\<lparr>echo_playback := ps, siggen := sg,
      ddc_sample_bufs := (ddc_sample_bufs cs)[i := b']\<rparr>)"
    using assms(3) g(1) n unfolding generate_ddc_def g_def Let_def by simp
  ultimately show ?thesis by (auto simp: same_client_def)
qed

lemma generate_all_total:
  assumes "any_order order" "echo_ok echo" "n \<le> length (ddc_sample_bufs cs)"
  shows "\<exists>cs'. steps (generate_ddc E order echo spr) [0..<n] cs = Some cs' \<and> same_client cs cs' \<and>
    length (ddc_sample_bufs cs') = length (ddc_sample_bufs cs) \<and>
    (\<forall>d < n. length (ddc_sample_bufs cs' ! d) = spr)"
  using assms(3)
proof (induction n)
  case (Suc n)
  then obtain cs1 where s: "steps (generate_ddc E order echo spr) [0..<n] cs = Some cs1" "same_client cs cs1"
    "length (ddc_sample_bufs cs1) = length (ddc_sample_bufs cs)"
    "\<forall>d < n. length (ddc_sample_bufs cs1 ! d) = spr" by force
  have "n < length (ddc_sample_bufs cs1)" using Suc.prems s(3) by simp
  from generate_ddc_total [OF assms(1,2) this, of E spr] obtain cs2 b where
    g: "generate_ddc E order echo spr n cs1 = Some cs2" "same_client cs1 cs2" "length b = spr"
      "ddc_sample_bufs cs2 = (ddc_sample_bufs cs1)[n := b]" by blast
  have "same_client cs cs2" using s(2) g(2) by (rule same_client_trans)
  then show ?case using s g Suc.prems
    by (auto simp: steps_append nth_list_update less_Suc_eq)
qed (auto simp: same_client_def)

section \<open>Packets\<close>

definition ready :: "'g ClientState \<Rightarrow> bool" where
  "ready cs \<longleftrightarrow> length (ddc_sample_bufs cs) = 12 \<and> 1 \<le> unat (cs_nddc cs) \<and> unat (cs_nddc cs) \<le> 8 \<and>
     length (rx_frequencies cs) = 12 \<and> length (freq_buf cs) = 12"

definition rows_per_subframe :: "nat \<Rightarrow> nat" where
  "rows_per_subframe n = 504 div (6 * n + 2)"

lemma rows_fit: "rows_per_subframe n * (6 * n + 2) \<le> 504"
  by (simp only: rows_per_subframe_def div_times_less_eq_dividend)

definition response_header :: "'g externals \<Rightarrow> HwInfo \<Rightarrow> 'g ClientState \<Rightarrow> bytes" where
  "response_header E h cs =
     (let a = RESPONSE_ADDRS ! (unat (control_idx cs) mod length RESPONSE_ADDRS)
      in [0x7F, 0x7F, 0x7F, a OR (if cs_ptt cs then 1 else 0)]
         @ response_bytes E (cs\<lparr>control_idx := of_nat ((unat (control_idx cs) + 1) mod length RESPONSE_ADDRS)\<rparr>) h a)"

lemma length_response_header [simp]: "length (response_header E h cs) = 8"
  by (simp add: response_header_def Let_def)

lemma fill_subframe_total:
  assumes "any_order order" "echo_ok echo" "ready cs" "offset + 512 \<le> length buf"
  defines "n \<equiv> unat (cs_nddc cs)"
  shows "\<exists>cs'. fill_subframe_sync E order h echo offset (cs, buf) =
      Some (cs', write_at offset (response_header E h cs @ iq_bytes (ddc_sample_bufs cs') n (rows_per_subframe n)) buf) \<and>
    ready cs' \<and> cs_ptt cs' = cs_ptt cs \<and> cs_nddc cs' = cs_nddc cs \<and> pkt_buf cs' = pkt_buf cs \<and>
    data_seq cs' = data_seq cs \<and> (\<forall>d < n. length (ddc_sample_bufs cs' ! d) = rows_per_subframe n)"
proof -
  have n: "1 \<le> n" "n \<le> 8" "max (unat (cs_nddc cs)) 1 = n" "\<not> 12 < n"
    using assms(3) by (auto simp: ready_def n_def)
  define a where "a = RESPONSE_ADDRS ! (unat (control_idx cs) mod length RESPONSE_ADDRS)"
  define cs1 where "cs1 = cs\<lparr>control_idx := of_nat ((unat (control_idx cs) + 1) mod length RESPONSE_ADDRS)\<rparr>"
  define cs2 where "cs2 = cs1\<lparr>freq_buf := take n (rx_frequencies cs1) @ drop n (freq_buf cs1)\<rparr>"
  define buf1 where "buf1 = write_at offset ([0x7F, 0x7F, 0x7F, a OR (if cs_ptt cs1 then 1 else 0)] @ response_bytes E cs1 h a) buf"
  have buf1: "buf1 = write_at offset (response_header E h cs) buf"
    by (simp add: buf1_def response_header_def a_def cs1_def Let_def)
  have "n \<le> length (ddc_sample_bufs cs2)" using assms(3) n by (simp add: cs2_def cs1_def ready_def)
  from generate_all_total [OF assms(1,2) this, of E "rows_per_subframe n"] obtain cs3 where
    g: "steps (generate_ddc E order echo (504 div (6 * n + 2))) [0..<n] cs2 = Some cs3" "same_client cs2 cs3"
      "length (ddc_sample_bufs cs3) = length (ddc_sample_bufs cs2)"
      "\<forall>d < n. length (ddc_sample_bufs cs3 ! d) = rows_per_subframe n"
    unfolding rows_per_subframe_def by blast
  have len3: "length (ddc_sample_bufs cs3) = 12" using g(3) assms(3) by (simp add: cs2_def cs1_def ready_def)
  have cs3: "cs_ptt cs3 = cs_ptt cs" "cs_nddc cs3 = cs_nddc cs" "pkt_buf cs3 = pkt_buf cs"
    "data_seq cs3 = data_seq cs" "rx_frequencies cs3 = rx_frequencies cs" "freq_buf cs3 = freq_buf cs2"
    by (simp_all add: same_client_fields [OF g(2)]) (simp_all add: cs2_def cs1_def)
  let ?rows = "concat (map (row_bytes (ddc_sample_bufs cs3) n) [0..<rows_per_subframe n])"
  let ?used = "rows_per_subframe n * (6 * n + 2)"
  have "offset + 8 + ?used \<le> length buf1" using assms(4) rows_fit [of n] by (simp add: buf1)
  then have p: "steps (pack_row (ddc_sample_bufs cs3) n) [0..<504 div (6 * n + 2)] (buf1, offset + 8) =
      Some (write_at (offset + 8) ?rows buf1, offset + 8 + ?used)"
    using g(4) n len3 unfolding rows_per_subframe_def [symmetric] by (intro pack_rows_bytes) auto
  have pad: "(if offset + 8 + ?used < offset + SUBFRAME_SIZE
       then write_at (offset + 8 + ?used) (replicate (offset + SUBFRAME_SIZE - (offset + 8 + ?used)) 0) b else b) =
      write_at (offset + 8 + ?used) (replicate (504 - ?used) 0) b" for b
    using rows_fit [of n] by (auto simp: SUBFRAME_SIZE_def)
  have len_rows: "length ?rows = ?used" by (simp add: length_concat sum_list_triv o_def)
  have "fill_subframe_sync E order h echo offset (cs, buf) =
      Some (cs3, write_at (offset + 8 + ?used) (replicate (504 - ?used) 0) (write_at (offset + 8) ?rows buf1))"
    unfolding fill_subframe_sync_def Let_def case_prod_conv n(3) a_def [symmetric] cs1_def [symmetric]
      buf1_def [symmetric] cs2_def [symmetric] g(1) option.case p pad
    using assms(4) n(4) by (simp add: SUBFRAME_SIZE_def)
  moreover have "write_at (offset + 8 + ?used) (replicate (504 - ?used) 0) (write_at (offset + 8) ?rows buf1) =
      write_at offset (response_header E h cs @ iq_bytes (ddc_sample_bufs cs3) n (rows_per_subframe n)) buf"
    by (simp add: buf1 iq_bytes_def write_at_append len_rows)
  moreover have "ready cs3"
    using assms(3) len3 cs3 n by (simp add: ready_def cs2_def cs1_def)
  ultimately show ?thesis using cs3 g(4) by auto
qed

lemma response_header_ok:
  "take 3 (response_header E h cs) = [0x7F, 0x7F, 0x7F]"
  "(response_header E h cs ! 3) AND 1 \<noteq> 0 \<longleftrightarrow> cs_ptt cs"
proof -
  let ?a = "RESPONSE_ADDRS ! (unat (control_idx cs) mod length RESPONSE_ADDRS)"
  have "response_header E h cs ! 3 = ?a OR (if cs_ptt cs then 1 else 0)"
    by (simp add: response_header_def Let_def)
  then show "(response_header E h cs ! 3) AND 1 \<noteq> 0 \<longleftrightarrow> cs_ptt cs"
    using response_address [of "unat (control_idx cs)"] by auto
qed (simp add: response_header_def Let_def)

lemma built_packet:
  assumes "any_order order" "echo_ok echo" "ready cs" "length (pkt_buf cs) = 1032"
  defines "n \<equiv> unat (cs_nddc cs)"
  defines "k \<equiv> rows_per_subframe n"
  shows "\<exists>cs1 buf1 cs2 hdr hdr'. fill_subframe_sync E order h echo 8 (cs\<lparr>data_seq := data_seq cs + 1, pkt_buf := []\<rparr>,
      write_at 0 ([0xEF, 0xFE, 0x01, 0x06] @ seq_bytes (data_seq cs)) (pkt_buf cs)) = Some (cs1, buf1) \<and>
    build_data_packet E order h echo cs = Some cs2 \<and> ready cs2 \<and> cs_nddc cs2 = cs_nddc cs \<and>
    data_seq cs2 = data_seq cs + 1 \<and>
    pkt_buf cs2 = ([0xEF, 0xFE, 0x01, 0x06] @ seq_bytes (data_seq cs)) @ (hdr @ iq_bytes (ddc_sample_bufs cs1) n k)
      @ (hdr' @ iq_bytes (ddc_sample_bufs cs2) n k) \<and>
    length hdr = 8 \<and> take 3 hdr = [0x7F, 0x7F, 0x7F] \<and> length hdr' = 8 \<and> take 3 hdr' = [0x7F, 0x7F, 0x7F] \<and>
    (hdr' ! 3 AND 1 \<noteq> 0 \<longleftrightarrow> cs_ptt cs)"
proof -
  define cs0 where "cs0 = cs\<lparr>data_seq := data_seq cs + 1, pkt_buf := []\<rparr>"
  have cs0: "ready cs0" "cs_nddc cs0 = cs_nddc cs" "cs_ptt cs0 = cs_ptt cs" "pkt_buf cs0 = []"
    "data_seq cs0 = data_seq cs + 1"
    using assms(3) by (simp_all add: cs0_def ready_def)
  let ?hd = "[0xEF, 0xFE, 0x01, 0x06] @ seq_bytes (data_seq cs)"
  define buf0 where "buf0 = write_at 0 ?hd (pkt_buf cs)"
  have len0: "length buf0 = 1032" by (simp add: buf0_def assms(4))
  have "8 + 512 \<le> length buf0" by (simp add: len0)
  from fill_subframe_total [OF assms(1,2) cs0(1) this, of E h] obtain cs1 where
    f1: "fill_subframe_sync E order h echo 8 (cs0, buf0) =
      Some (cs1, write_at 8 (response_header E h cs0 @ iq_bytes (ddc_sample_bufs cs1) n k) buf0)"
    "ready cs1" "cs_ptt cs1 = cs_ptt cs" "cs_nddc cs1 = cs_nddc cs" "pkt_buf cs1 = []" "data_seq cs1 = data_seq cs + 1"
    using cs0 by (auto simp: n_def k_def)
  let ?sf1 = "response_header E h cs0 @ iq_bytes (ddc_sample_bufs cs1) n k"
  define buf1 where "buf1 = write_at 8 ?sf1 buf0"
  have "520 + 512 \<le> length buf1" by (simp add: buf1_def len0)
  from fill_subframe_total [OF assms(1,2) f1(2) this, of E h] f1 obtain cs2 where
    f2: "fill_subframe_sync E order h echo 520 (cs1, buf1) =
      Some (cs2, write_at 520 (response_header E h cs1 @ iq_bytes (ddc_sample_bufs cs2) n k) buf1)"
    "ready cs2" "cs_nddc cs2 = cs_nddc cs" "data_seq cs2 = data_seq cs + 1"
    by (auto simp: n_def k_def)
  let ?sf2 = "response_header E h cs1 @ iq_bytes (ddc_sample_bufs cs2) n k"
  have len: "length ?hd = 8" "length ?sf1 = 512" "length ?sf2 = 512"
    using rows_fit [of n] by (simp_all add: length_iq_bytes k_def seq_bytes_def case_prod_beta)
  obtain s0 s1 s2 s3 where sq: "u32_to_be (data_seq cs) = (s0, s1, s2, s3)" by (metis prod_cases4)
  then have b0: "write_at 0 [0xEF, 0xFE, 0x01, 0x06, s0, s1, s2, s3] (pkt_buf cs) = buf0"
    by (simp add: buf0_def seq_bytes_def)
  have c0: "cs\<lparr>data_seq := data_seq cs + 1, pkt_buf := []\<rparr> = cs0" by (simp add: cs0_def)
  have "\<not> length (pkt_buf (cs\<lparr>data_seq := data_seq cs + 1\<rparr>)) < 8" using assms(4) by simp
  then have "build_data_packet E order h echo cs = Some (cs2\<lparr>pkt_buf := write_at 520 ?sf2 buf1\<rparr>)"
    unfolding build_data_packet_def next_seq_def Let_def prod.case sq
    by (simp add: b0 c0 f1(1) buf1_def [symmetric] f2(1) del: write_at.simps)
  moreover have "write_at 520 ?sf2 buf1 = ?hd @ ?sf1 @ ?sf2"
  proof -
    have "write_at 520 ?sf2 buf1 = write_at 0 (?hd @ ?sf1 @ ?sf2) (pkt_buf cs)"
      unfolding buf1_def buf0_def write_at_append using len by simp
    also have "\<dots> = ?hd @ ?sf1 @ ?sf2"
      using len assms(4) by (subst write_at_slice) simp_all
    finally show ?thesis .
  qed
  ultimately have "build_data_packet E order h echo cs = Some (cs2\<lparr>pkt_buf := ?hd @ ?sf1 @ ?sf2\<rparr>)"
    by (simp only:)
  moreover have "ready (cs2\<lparr>pkt_buf := ?hd @ ?sf1 @ ?sf2\<rparr>)" using f2(2) by (simp add: ready_def)
  moreover have "pkt_buf (cs2\<lparr>pkt_buf := ?hd @ ?sf1 @ ?sf2\<rparr>) =
      ?hd @ (response_header E h cs0 @ iq_bytes (ddc_sample_bufs cs1) n k) @
      (response_header E h cs1 @ iq_bytes (ddc_sample_bufs (cs2\<lparr>pkt_buf := ?hd @ ?sf1 @ ?sf2\<rparr>)) n k)"
    by simp
  moreover have "response_header E h cs1 ! 3 AND 1 \<noteq> 0 \<longleftrightarrow> cs_ptt cs"
    using response_header_ok(2) [of E h cs1] f1(3) by simp
  moreover have "cs_nddc (cs2\<lparr>pkt_buf := ?hd @ ?sf1 @ ?sf2\<rparr>) = cs_nddc cs"
    "data_seq (cs2\<lparr>pkt_buf := ?hd @ ?sf1 @ ?sf2\<rparr>) = data_seq cs + 1"
    using f2(3,4) by simp_all
  ultimately show ?thesis
    using response_header_ok(1) [of E h cs0] response_header_ok(1) [of E h cs1] length_response_header
      f1(1) [unfolded cs0_def buf0_def] by blast
qed

section \<open>What the host reads\<close>

lemma nth_concat_rows:
  assumes "\<And>r. length (f r) = m" "r < k" "j < m"
  shows "concat (map f [0..<k]) ! (r * m + j) = f r ! j"
  using assms(2)
proof (induction k)
  case (Suc k)
  have len: "length (concat (map f [0..<k])) = k * m"
    by (simp add: length_concat sum_list_triv assms(1) o_def)
  show ?case
  proof (cases "r = k")
    case True
    then show ?thesis by (simp add: nth_append len)
  next
    case False
    then have "r < k" using Suc.prems by simp
    then have "Suc r * m \<le> k * m" by (intro mult_le_mono1) simp
    then have "r * m + j < k * m" using assms(3) by simp
    then show ?thesis using Suc.IH [OF \<open>r < k\<close>] by (simp add: nth_append len)
  qed
qed simp

lemma nth_iq_bytes:
  assumes "r < k" "d < n" "i < 6"
  shows "iq_bytes bufs n k ! (r * (6 * n + 2) + 6 * d + i) = iq24 (bufs ! d ! r) ! i"
proof -
  have j: "6 * d + i < 6 * n" using assms(2,3) by linarith
  have len: "length (concat (map (row_bytes bufs n) [0..<k])) = k * (6 * n + 2)"
    by (simp add: length_concat sum_list_triv o_def)
  have "Suc r * (6 * n + 2) \<le> k * (6 * n + 2)" using assms(1) by (intro mult_le_mono1) simp
  then have lt: "r * (6 * n + 2) + (6 * d + i) < k * (6 * n + 2)" using j by simp
  have "iq_bytes bufs n k ! (r * (6 * n + 2) + (6 * d + i)) =
      concat (map (row_bytes bufs n) [0..<k]) ! (r * (6 * n + 2) + (6 * d + i))"
    using lt len by (simp add: iq_bytes_def nth_append)
  also have "\<dots> = row_bytes bufs n r ! (6 * d + i)"
    using assms(1) j by (intro nth_concat_rows) simp_all
  also have "\<dots> = concat (map (\<lambda>d. iq24 (bufs ! d ! r)) [0..<n]) ! (d * 6 + i)"
    using j by (simp add: row_bytes_def nth_append length_concat sum_list_triv o_def mult.commute)
  also have "\<dots> = iq24 (bufs ! d ! r) ! i"
    using assms by (intro nth_concat_rows) simp_all
  finally show ?thesis by (simp add: add.assoc)
qed

lemma ptt_parsed: "p1_ptt (parse_response_control_bytes st c0 c1 c2 c3 c4) \<longleftrightarrow> c0 AND 1 \<noteq> 0"
  by (simp add: parse_response_control_bytes_def Let_def)

lemma parsed_sample:
  assumes "data = pre @ iq_bytes bufs n k @ post" "length pre = 16 + f * 512"
    and "k * (6 * n + 2) \<le> 504" "r < k" "d < n" "unit_sample (bufs ! d ! r)"
  shows "near (3 / 8388608) (conjugate (bufs ! d ! r)) (sample_at data (16 + f * 512 + r * (6 * n + 2) + 6 * d))"
proof -
  let ?off = "16 + f * 512 + r * (6 * n + 2) + 6 * d"
  have "Suc r * (6 * n + 2) \<le> k * (6 * n + 2)" using assms(4) by (intro mult_le_mono1) simp
  then have fits: "r * (6 * n + 2) + 6 * d + 6 \<le> 504" using assms(3,5) by simp
  have "data ! (?off + i) = iq24 (bufs ! d ! r) ! i" if "i < 6" for i
    using nth_iq_bytes [OF assms(4,5) that, of bufs] that fits assms(1,2) length_iq_bytes [OF assms(3), of bufs]
    by (simp add: nth_append add.assoc)
  moreover have "?off + 6 \<le> length data"
    using fits assms(1,2) length_iq_bytes [OF assms(3), of bufs] by simp
  ultimately show ?thesis
    using unpack_iq24 [OF assms(6), of ?off data] by (auto simp: sample_at_def conjugate_def)
qed

section \<open>Every reachable state\<close>

text \<open>The events of a run, with maps iterated in some order of their keys.\<close>

definition proper :: "'g clients_event \<Rightarrow> bool" where
  "proper ev = (case ev of SendPacket_ev i h level order \<Rightarrow> any_order order | _ \<Rightarrow> True)"

definition sound :: "'g clients_state \<Rightarrow> bool" where
  "sound st \<longleftrightarrow> playable (echoes (snd st)) \<and> (\<forall>cs \<in> set (fst st). ready cs \<and> length (pkt_buf cs) = 1032)"

lemma nddc_range: "1 \<le> unat ((w AND 7 :: u8) + 1) \<and> unat ((w AND 7 :: u8) + 1) \<le> 8"
proof -
  have "w AND 7 \<le> 7" by (rule word_and_le1)
  then have "unat (w AND 7) \<le> 7" by (simp add: word_le_nat_alt)
  moreover from this have "unat ((w AND 7) + 1) = unat (w AND 7) + 1"
    by (subst unat_add_lem [THEN iffD1]) simp_all
  ultimately show ?thesis by simp
qed

lemma ready_control [simp]:
  "ready cs \<Longrightarrow> ready (control_general c1 c2 c4 cs)"
  "pkt_buf (control_general c1 c2 c4 cs) = pkt_buf cs"
  "ready cs \<Longrightarrow> ready (control_drive c1 c2 cs)"
  "pkt_buf (control_drive c1 c2 cs) = pkt_buf cs"
  using nddc_range
  by (simp_all add: control_general_def control_drive_def set_rate_def ready_def Let_def split: option.split)

lemma ready_updates [simp]:
  "ready (cs\<lparr>cs_ptt := b\<rparr>) = ready cs"
  "ready (cs\<lparr>tx_frequency := f\<rparr>) = ready cs"
  "length fs = 12 \<Longrightarrow> ready cs \<Longrightarrow> ready (cs\<lparr>rx_frequencies := fs\<rparr>)"
  by (simp_all add: ready_def)

lemma ready_process_control:
  assumes "process_control cs c0 c1 c2 c3 c4 = (changed, cs')" "ready cs"
  shows "ready cs' \<and> pkt_buf cs' = pkt_buf cs"
proof -
  have "length (rx_frequencies cs) = 12" using assms(2) by (simp add: ready_def)
  then have "ready (snd (process_control cs c0 c1 c2 c3 c4)) \<and>
      pkt_buf (snd (process_control cs c0 c1 c2 c3 c4)) = pkt_buf cs"
    using assms(2) by (simp add: process_control_def Let_def)
  then show ?thesis using assms(1) by simp
qed

lemma sound_subframe:
  assumes "process_host_subframe E clk sf (cs, Some eb) = (cs', Some eb')" "ready cs" "playable (echoes eb)"
  shows "ready cs' \<and> pkt_buf cs' = pkt_buf cs \<and> playable (echoes eb')"
proof (cases "take 3 sf = SYNC")
  case False
  then show ?thesis using assms by (auto simp: process_host_subframe_def split: prod.splits)
next
  case True
  obtain now now' stopped where clk: "clk = (now, now', stopped)" by (metis prod_cases3)
  obtain changed cs1 where pc: "process_control cs (sf ! 3) (sf ! 4) (sf ! 5) (sf ! 6) (sf ! 7) = (changed, cs1)"
    by force
  obtain n iq where u: "unpack_tx_iq_16bit_into (take (MAX_TX_IQ_SAMPLES * 8) (drop 8 sf)) (tx_iq_buf cs1) = (n, iq)"
    by force
  have r: "ready cs1" "pkt_buf cs1 = pkt_buf cs" using ready_process_control [OF pc assms(2)] by simp_all
  show ?thesis
    using assms(1,3) True r
    by (cases "cs_ptt cs1"; cases changed; cases "recording_freq cs1")
      (auto simp: process_host_subframe_def clk pc u Let_def ready_def stop_playable)
qed

lemma ready_build:
  assumes "build_data_packet E order h (Some eb) cs = Some cs'" "any_order order" "playable (echoes eb)"
    "ready cs" "length (pkt_buf cs) = 1032"
  shows "ready cs' \<and> length (pkt_buf cs') = 1032"
proof -
  have "echo_ok (Some eb)" using assms(3) by (simp add: echo_ok_def)
  from built_packet [OF assms(2) this assms(4,5), of E h] assms(1) rows_fit [of "unat (cs_nddc cs)"]
  show ?thesis by (auto simp: length_iq_bytes seq_bytes_def case_prod_beta)
qed

lemma sound_step: "proper ev \<Longrightarrow> sound st \<Longrightarrow> sound (clients_step E ev st)"
proof -
  assume proper: "proper ev" and snd: "sound st"
  obtain css eb where st: "st = (css, eb)" by force
  have p: "playable (echoes eb)" and r: "\<And>cs. cs \<in> set css \<Longrightarrow> ready cs \<and> length (pkt_buf cs) = 1032"
    using snd by (auto simp: sound_def st)
  have upd: "\<forall>cs \<in> set (css[i := c]). ready cs \<and> length (pkt_buf cs) = 1032"
    if "ready c" "length (pkt_buf c) = 1032" for i c
    using r that by (auto dest: set_update_subset_insert [THEN subsetD])
  show ?thesis
  proof (cases ev)
    case (Connect a cfg g)
    then show ?thesis using p r
      by (auto simp: st sound_def new_client_def ready_def PACKET_SIZE_def)
  next
    case (HostSubframe i clk sf)
    obtain cs' echo' where h: "process_host_subframe E clk sf (css ! i, Some eb) = (cs', echo')" by force
    show ?thesis
    proof (cases "i < length css \<and> echo' \<noteq> None")
      case True
      then obtain eb' where e: "echo' = Some eb'" by auto
      have "ready (css ! i)" "length (pkt_buf (css ! i)) = 1032" using r True by simp_all
      with sound_subframe [OF h [unfolded e] _ p] upd [of cs' i] True h e HostSubframe show ?thesis
        by (simp add: st sound_def handle_subframe_eq)
    next
      case False
      have "echo' \<noteq> None" if "i < length css"
        using h by (auto simp: process_host_subframe_def Let_def split: prod.splits if_splits option.splits)
      then show ?thesis using False HostSubframe p r by (auto simp: st sound_def)
    qed
  next
    case (SendPacket_ev i h level order)
    let ?cs = "(css ! i)\<lparr>siggen := (siggen (css ! i))\<lparr>sg_noise_level := level\<rparr>\<rparr>"
    show ?thesis
    proof (cases "i < length css \<and> build_data_packet E order h (Some eb) ?cs \<noteq> None")
      case True
      then obtain cs' where b: "build_data_packet E order h (Some eb) ?cs = Some cs'" by auto
      have "ready ?cs" "length (pkt_buf ?cs) = 1032" using r [of "css ! i"] True by (simp_all add: ready_def)
      from ready_build [OF b _ p this] proper SendPacket_ev upd [of cs' i] True b p show ?thesis
        by (simp add: st sound_def proper_def)
    next
      case False
      then show ?thesis using SendPacket_ev snd by (auto simp: st)
    qed
  next
    case (Disconnect i now)
    have "\<forall>cs \<in> set (take i css @ drop (Suc i) css). ready cs \<and> length (pkt_buf cs) = 1032"
      using r by (auto dest: in_set_takeD in_set_dropD)
    then show ?thesis using Disconnect p r
      by (cases "recording_freq (css ! i)")
        (auto simp: st sound_def task_cleanup_def stop_playable)
  qed
qed

text \<open>C12: In every state the emulator reaches with its clients, it builds a packet for any of them
  without a panic, and the host's parser accepts the packet: its sequence number is the client's
  counter, its PTT the client's, and in each of the two sub-frames it holds for every receiver
  exactly the samples generated for it, conjugated and up to 3/2^23 (for samples in \<open>[-1, 1]\<close>).\<close>

theorem emulator_packets_parse:
  assumes "fold (clients_step E) evs ([], new_echo_buffer E mode) = (css, eb)" "list_all proper evs"
    and "cs \<in> set css" "any_order order"
  defines "n \<equiv> unat (cs_nddc cs)" and "k \<equiv> 504 div (6 * unat (cs_nddc cs) + 2)"
  shows "\<exists>cs1 buf1 cs2 fr. fill_subframe_sync E order h (Some eb) 8 (cs\<lparr>data_seq := data_seq cs + 1, pkt_buf := []\<rparr>,
        write_at 0 ([0xEF, 0xFE, 0x01, 0x06] @ seq_bytes (data_seq cs)) (pkt_buf cs)) = Some (cs1, buf1) \<and>
    build_data_packet E order h (Some eb) cs = Some cs2 \<and>
    parse_rx_packet (pkt_buf cs2) n = Some (Some fr) \<and>
    u32_from_be (pkt_buf cs2 ! 4) (pkt_buf cs2 ! 5) (pkt_buf cs2 ! 6) (pkt_buf cs2 ! 7) = data_seq cs \<and>
    p1_ptt (rx_status fr) = cs_ptt cs \<and> length (rx_samples fr) = n \<and>
    (\<forall>d < n. length (rx_samples fr ! d) = 2 * k \<and>
      (\<forall>r < k. (unit_sample (ddc_sample_bufs cs1 ! d ! r) \<longrightarrow>
                 near (3 / 8388608) (conjugate (ddc_sample_bufs cs1 ! d ! r)) (rx_samples fr ! d ! r)) \<and>
               (unit_sample (ddc_sample_bufs cs2 ! d ! r) \<longrightarrow>
                 near (3 / 8388608) (conjugate (ddc_sample_bufs cs2 ! d ! r)) (rx_samples fr ! d ! (k + r)))))"
proof -
  have "sound (fold (clients_step E) evs st)" if "sound st" "list_all proper evs" for st
    using that by (induction evs arbitrary: st) (simp_all add: sound_step)
  moreover have "sound ([], new_echo_buffer E mode)" by (simp add: sound_def new_echo_buffer_def playable_def)
  ultimately have "sound (css, eb)" using assms(1,2) by metis
  then have ok: "echo_ok (Some eb)" "ready cs" "length (pkt_buf cs) = 1032"
    using assms(3) by (auto simp: sound_def echo_ok_def)
  have k: "k = rows_per_subframe n" by (simp add: k_def n_def rows_per_subframe_def)
  have fit: "k * (6 * n + 2) \<le> 504" unfolding k by (rule rows_fit)
  from built_packet [OF assms(4) ok, of E h, folded n_def, folded k]
  obtain cs1 buf1 cs2 hdr hdr' where b:
    "fill_subframe_sync E order h (Some eb) 8 (cs\<lparr>data_seq := data_seq cs + 1, pkt_buf := []\<rparr>,
        write_at 0 ([0xEF, 0xFE, 0x01, 0x06] @ seq_bytes (data_seq cs)) (pkt_buf cs)) = Some (cs1, buf1)"
    "build_data_packet E order h (Some eb) cs = Some cs2"
    and p: "pkt_buf cs2 = ([0xEF, 0xFE, 0x01, 0x06] @ seq_bytes (data_seq cs)) @ (hdr @ iq_bytes (ddc_sample_bufs cs1) n k)
      @ (hdr' @ iq_bytes (ddc_sample_bufs cs2) n k)"
    and h: "length hdr = 8" "take 3 hdr = [0x7F, 0x7F, 0x7F]" "length hdr' = 8" "take 3 hdr' = [0x7F, 0x7F, 0x7F]"
      "hdr' ! 3 AND 1 \<noteq> 0 \<longleftrightarrow> cs_ptt cs" by blast
  let ?p = "pkt_buf cs2"
  obtain s0 s1 s2 s3 where sq: "u32_to_be (data_seq cs) = (s0, s1, s2, s3)" by (metis prod_cases4)
  have len: "length (iq_bytes bufs n k) = 504" for bufs by (rule length_iq_bytes [OF fit])
  have "length ?p = 1032" by (simp add: p h len seq_bytes_def sq)
  moreover have "synced ?p 0" "synced ?p 1"
    by (simp_all add: synced_def p h len seq_bytes_def sq)
  moreover have "n \<noteq> 0" using ok(2) by (simp add: ready_def n_def)
  ultimately have parsed: "parse_rx_packet ?p n = Some (Some
      \<lparr>rx_samples = map (\<lambda>ddc. ddc_samples ?p n ddc 0 @ ddc_samples ?p n ddc 1) [0..<n],
       rx_status = subframe_status ?p 1 (subframe_status ?p 0 default_p1_status)\<rparr>)"
    by (simp add: parse_rx_packet_result)
  have "?p ! 523 = hdr' ! 3"
    by (simp add: p h len seq_bytes_def sq nth_append nth_Cons')
  then have ptt: "p1_ptt (subframe_status ?p 1 st) = cs_ptt cs" for st
    using h(5) by (simp add: subframe_status_def ptt_parsed)
  have number: "u32_from_be (?p ! 4) (?p ! 5) (?p ! 6) (?p ! 7) = data_seq cs"
    using u32_be_roundtrip [of "data_seq cs"] by (simp add: p seq_bytes_def sq)
  have s0: "near (3 / 8388608) (conjugate (ddc_sample_bufs cs1 ! d ! r)) (ddc_samples ?p n d 0 ! r)"
    if "d < n" "r < k" "unit_sample (ddc_sample_bufs cs1 ! d ! r)" for d r
    using parsed_sample [of ?p "([0xEF, 0xFE, 0x01, 0x06] @ seq_bytes (data_seq cs)) @ hdr" "ddc_sample_bufs cs1" n k _ 0,
        OF _ _ fit that(2,1,3)] that k
    by (simp add: p h seq_bytes_def sq ddc_samples_def rows_per_subframe_def)
  have s1: "near (3 / 8388608) (conjugate (ddc_sample_bufs cs2 ! d ! r)) (ddc_samples ?p n d 1 ! r)"
    if "d < n" "r < k" "unit_sample (ddc_sample_bufs cs2 ! d ! r)" for d r
    using parsed_sample [of ?p "([0xEF, 0xFE, 0x01, 0x06] @ seq_bytes (data_seq cs)) @ (hdr @ iq_bytes (ddc_sample_bufs cs1) n k) @ hdr'"
        "ddc_sample_bufs cs2" n k "[]" 1, OF _ _ fit that(2,1,3)] that k len [of "ddc_sample_bufs cs1"]
    by (simp add: p h len seq_bytes_def sq ddc_samples_def rows_per_subframe_def)
  have lens: "length (ddc_samples ?p n d f) = k" for d f
    by (simp add: ddc_samples_def k rows_per_subframe_def)
  show ?thesis
    using b parsed number ptt s0 s1 lens
    by (intro exI conjI) (auto simp: nth_append)
qed

theorem emulator_packets_parse_witness:
  "\<exists>cs2 fr. build_data_packet plain_externals rev (new_hw_info HermesLite [2, 0, 0, 0, 0, 1])
      (Some (new_echo_buffer plain_externals Live))
      (new_client (1, 1) \<lparr>cfg_sample_rate = 48000, cfg_noise_level = Fin 0\<rparr> ()) = Some cs2 \<and>
    parse_rx_packet (pkt_buf cs2) 1 = Some (Some fr) \<and> \<not> p1_ptt (rx_status fr)"
proof -
  let ?cs = "new_client (1, 1) \<lparr>cfg_sample_rate = 48000, cfg_noise_level = Fin 0\<rparr> ()"
  have run: "fold (clients_step plain_externals) [Connect (1, 1) \<lparr>cfg_sample_rate = 48000, cfg_noise_level = Fin 0\<rparr> ()]
      ([], new_echo_buffer plain_externals Live) = ([?cs], new_echo_buffer plain_externals Live)" by simp
  have rev: "any_order (rev :: u32 list \<Rightarrow> u32 list)" by (simp add: any_order_def)
  have cs: "cs_nddc ?cs = 1" "\<not> cs_ptt ?cs" by (simp_all add: new_client_def)
  show ?thesis
    using emulator_packets_parse [OF run _ _ rev, of ?cs "new_hw_info HermesLite [2, 0, 0, 0, 0, 1]"] cs
    by (simp add: proper_def) blast
qed

section \<open>Discovery\<close>

text \<open>C23: The host's discovery request makes the emulator's receive loop answer with one response,
  which the host parses to the emulator's identity: its MAC address, board, firmware version and
  number of receivers, at the address it answered from on port 1024. No client is added.\<close>

theorem discovery_exchange:
  assumes "length (hw_mac h) = 6" "length (mercury_versions h) = 4"
  shows "\<exists>response. recv_step h m dbg gone build_p1_discovery_request a s = Some ([Respond response a], s) \<and>
    recv_device parse_p1_discovery_response (response, (ip, port)) =
      Some \<lparr>addr = (ip, P1_PORT), mac = hw_mac h, hw_type = hw h, firmware_version = hw_firmware_version h,
            num_rxs = max_ddcs (hw h), status_code = 0x02\<rparr>"
proof -
  obtain m0 m1 m2 m3 m4 m5 where mac: "hw_mac h = [m0, m1, m2, m3, m4, m5]"
    using assms(1) by (auto simp: length_Suc_conv eval_nat_numeral)
  obtain v0 v1 v2 v3 where ver: "mercury_versions h = [v0, v1, v2, v3]"
    using assms(2) by (auto simp: length_Suc_conv eval_nat_numeral)
  have req: "recv_step h m dbg gone build_p1_discovery_request a s =
      Some ([Respond (build_discovery_response h (max_ddcs (hw h))) a], s)"
    by (simp add: recv_step_def build_p1_discovery_request_def)
  have code: "from_p1_code (p1_code (hw h)) = Some (hw h)" by (rule board_code.dec_enc) simp
  have "parse_p1_discovery_response (build_discovery_response h n) (ip, port) =
      Some \<lparr>addr = (ip, P1_PORT), mac = hw_mac h, hw_type = hw h, firmware_version = hw_firmware_version h,
            num_rxs = n, status_code = 0x02\<rparr>" for n
    by (simp add: parse_p1_discovery_response_def build_discovery_response_def mac ver code Let_def nth_append)
  moreover have "take 128 (build_discovery_response h n) = build_discovery_response h n" for n
    by (simp add: build_discovery_response_def mac ver)
  ultimately show ?thesis using req by (auto simp: recv_device_def)
qed

theorem discovery_exchange_witness:
  "\<exists>response. recv_step (new_hw_info HermesLite [2, 0, 0, 0, 0, 1]) 32 True (\<lambda>_. False) build_p1_discovery_request (9, 9) new_server
      = Some ([Respond response (9, 9)], new_server) \<and>
    recv_device parse_p1_discovery_response (response, (7, 1024)) =
      Some \<lparr>addr = (7, P1_PORT), mac = [2, 0, 0, 0, 0, 1], hw_type = HermesLite, firmware_version = 25,
            num_rxs = max_ddcs HermesLite, status_code = 0x02\<rparr>"
  using discovery_exchange [of "new_hw_info HermesLite [2, 0, 0, 0, 0, 1]" 32 True "\<lambda>_. False" "(9, 9)" new_server 7 1024]
  by (simp add: new_hw_info_def)

end
