(* ===== verification/Host_States.thy ===== *)
theory Host_States
  imports Proto_Client
begin

text \<open>
  The host's packets and the states of its client. What a packet contains, byte by byte
  (\<open>host_packet\<close>); the states reachable from \<open>connect\<close> by settings, \<open>start\<close> and the steps of \<open>run\<close>,
  and the invariant they keep (\<open>running_ok\<close>); the numbering of the packets (\<open>packets_numbered\<close>).
\<close>

section \<open>Packets with samples\<close>

text \<open>The fields of the client that sending does not change.\<close>

definition same_config :: "'c Protocol1Client \<Rightarrow> 'c Protocol1Client \<Rightarrow> bool" where
  "same_config a b \<longleftrightarrow>
     device a = device b \<and> running a = running b \<and> sample_rate a = sample_rate b \<and> nddc a = nddc b \<and>
     p1_rx_frequencies a = p1_rx_frequencies b \<and> p1_tx_frequency a = p1_tx_frequency b \<and>
     tx_drive a = tx_drive b \<and> ptt a = ptt b \<and> rx_attenuation a = rx_attenuation b \<and>
     tx_cw_mode a = tx_cw_mode b \<and> ctrl_pkt_buf a = ctrl_pkt_buf b"

lemma same_config_refl [simp]: "same_config c c"
  by (simp add: same_config_def)

lemma same_config_trans [trans]: "same_config a b \<Longrightarrow> same_config b c \<Longrightarrow> same_config a c"
  by (simp add: same_config_def)

lemma same_config_updates [simp]:
  "same_config (a\<lparr>tx_subframes_empty := n\<rparr>) b = same_config a b"
  "same_config (a\<lparr>tx_subframes_with_data := n\<rparr>) b = same_config a b"
  "same_config (a\<lparr>tx_debug_log_counter := w\<rparr>) b = same_config a b"
  "same_config (a\<lparr>tx_iq_buffer := xs\<rparr>) b = same_config a b"
  "same_config (a\<lparr>host_pkt_buf := bs\<rparr>) b = same_config a b"
  "same_config (a\<lparr>tx_seq := w\<rparr>) b = same_config a b"
  "same_config (a\<lparr>p1_control_idx := k\<rparr>) b = same_config a b"
  "same_config a (b\<lparr>p1_control_idx := k\<rparr>) = same_config a b"
  by (simp_all add: same_config_def)

text \<open>The \<open>i\<close>-th command of the rotation for the client's current settings.\<close>

definition rotation_command :: "'c Protocol1Client \<Rightarrow> nat \<Rightarrow> u8 \<times> u8 \<times> u8 \<times> u8 \<times> u8" where
  "rotation_command c i = fst (next_control_command (c\<lparr>p1_control_idx := of_nat i\<rparr>))"

lemma length_be_i16 [simp]: "length (be_i16 k) = 2"
  by (simp add: be_i16_def split: prod.split)

lemma same_config_count [simp]: "same_config (count_tx_sample s c) c"
  "tx_cw_mode (count_tx_sample s c) = tx_cw_mode c"
  by (simp_all add: count_tx_sample_def same_config_def Let_def)

lemma count_tx_sample_keeps [simp]:
  "p1_control_idx (count_tx_sample s c) = p1_control_idx c"
  "tx_seq (count_tx_sample s c) = tx_seq c"
  "tx_iq_buffer (count_tx_sample s c) = tx_iq_buffer c"
  "tx_iq_consumer (count_tx_sample s c) = tx_iq_consumer c"
  by (simp_all add: count_tx_sample_def Let_def)

text \<open>The transmitted I and Q of a sample; the four bytes before them hold the microphone.\<close>

definition iq_word :: "Cx \<Rightarrow> bytes" where
  "iq_word s = be_i16 (quantize16 (re s)) @ be_i16 (quantize16 (fl_neg (im s)))"

lemma length_iq_word [simp]: "length (iq_word s) = 4"
  by (simp add: iq_word_def)

lemma pack_tx:
  assumes "pack_tx_samples base ss (c, buf) = (c', buf')" "base + 8 * length ss \<le> length buf"
  shows "length buf' = length buf \<and> same_config c' c \<and> p1_control_idx c' = p1_control_idx c \<and>
    tx_seq c' = tx_seq c \<and> tx_iq_buffer c' = tx_iq_buffer c \<and> tx_iq_consumer c' = tx_iq_consumer c \<and>
    (\<forall>i < length buf. i < base \<or> base + 8 * length ss \<le> i \<longrightarrow> buf' ! i = buf ! i) \<and>
    (\<forall>k < length ss. take 4 (drop (base + 8 * k + 4) buf') = iq_word (ss ! k))"
  using assms
proof (induction ss arbitrary: base c buf)
  case (Cons s ss)
  define buf1 where "buf1 = write_at (base + 6) (be_i16 (quantize16 (fl_neg (im s))))
    (write_at (base + 4) (be_i16 (quantize16 (re s)))
      (if tx_cw_mode c then buf
       else write_at (base + 2) (be_i16 (quantize16 (re s))) (write_at base (be_i16 (quantize16 (re s))) buf)))"
  have len: "length buf1 = length buf" by (simp add: buf1_def)
  have "write_at (base + 6) (be_i16 (quantize16 (fl_neg (im s)))) (write_at (base + 4) (be_i16 (quantize16 (re s))) b) =
      write_at (base + 4) (iq_word s) b" for b
    by (simp add: iq_word_def write_at_append add.commute)
  then have iq: "take 4 (drop (base + 4) buf1) = iq_word s"
    using Cons.prems(2) by (simp add: buf1_def write_at_slice)
  have out: "buf1 ! i = buf ! i" if "i < length buf" "i < base \<or> base + 8 \<le> i" for i
    using that Cons.prems(2) by (auto simp: buf1_def nth_write_at)
  have step: "pack_tx_samples (base + 8) ss (count_tx_sample s c, buf1) = (c', buf')"
    using Cons.prems by (simp add: buf1_def Let_def split: if_splits)
  note IH = Cons.IH [OF step]
  have fit: "base + 8 + 8 * length ss \<le> length buf1" using Cons.prems(2) len by simp
  have "take 4 (drop (base + 4) buf') = take 4 (drop (base + 4) buf1)"
    using IH [OF fit] fit len by (intro nth_equalityI) auto
  moreover have "take 4 (drop (base + 8 * k + 4) buf') = iq_word ((s # ss) ! k)"
    if k: "0 < k" "k < Suc (length ss)" for k
  proof -
    obtain k' where "k = Suc k'" using k by (cases k) auto
    then show ?thesis using IH [OF fit] k by (simp add: add.commute)
  qed
  ultimately show ?case
    using IH [OF fit] out len iq
    by (auto simp: less_Suc_eq_0_disj intro: same_config_trans) 
qed simp

text \<open>The samples a sub-frame takes from the queue.\<close>

definition outgoing :: "'c ring_ops \<Rightarrow> 'c Protocol1Client \<Rightarrow> Cx list" where
  "outgoing R c = (if ptt c then take 63 (tx_iq_buffer (refill_tx_buffer R c)) else [])"

definition after_outgoing :: "'c ring_ops \<Rightarrow> 'c Protocol1Client \<Rightarrow> Cx list \<times> 'c option" where
  "after_outgoing R c =
     (if ptt c then (drop 63 (tx_iq_buffer (refill_tx_buffer R c)), tx_iq_consumer (refill_tx_buffer R c))
      else (tx_iq_buffer c, tx_iq_consumer c))"

lemma refill_keeps [simp]:
  "same_config (refill_tx_buffer R c) c"
  "p1_control_idx (refill_tx_buffer R c) = p1_control_idx c"
  "tx_seq (refill_tx_buffer R c) = tx_seq c"
  by (simp_all add: refill_tx_buffer_def same_config_def Let_def split: option.split prod.split)

lemma ptt_refill [simp]: "ptt (refill_tx_buffer R c) = ptt c"
  using refill_keeps(1) [of R c] by (simp add: same_config_def)

lemma refill_idx [simp]:
  "tx_iq_buffer (refill_tx_buffer R (c\<lparr>p1_control_idx := k\<rparr>)) = tx_iq_buffer (refill_tx_buffer R c)"
  "tx_iq_consumer (refill_tx_buffer R (c\<lparr>p1_control_idx := k\<rparr>)) = tx_iq_consumer (refill_tx_buffer R c)"
  by (simp_all add: refill_tx_buffer_def Let_def split: option.split prod.split)

lemma next_command:
  assumes "p1_control_idx c = of_nat i" "i < 13"
  shows "next_control_command c = (rotation_command c i, c\<lparr>p1_control_idx := of_nat ((i + 1) mod 13)\<rparr>)"
proof -
  have i: "unat (of_nat i :: u8) = i"
    using assms(2) by (simp only: unsigned_of_nat) (simp add: take_bit_nat_eq_self)
  have "c\<lparr>p1_control_idx := of_nat i\<rparr> = c" using assms(1) by (cases c) simp
  then show ?thesis by (simp add: rotation_command_def) (simp add: next_control_command_def assms(1) i Let_def)
qed

text \<open>A control block: sync and the five control bytes.\<close>

definition control_block :: "'c Protocol1Client \<Rightarrow> nat \<Rightarrow> bytes" where
  "control_block c i = (case rotation_command c i of (c0, c1, c2, c3, c4) \<Rightarrow>
     P1_SYNC @ [c0 OR mox_bit c, c1, c2, c3, c4])"

lemma length_sync [simp]: "length P1_SYNC = 3"
  by (simp add: P1_SYNC_def)

lemma length_control_block [simp]: "length (control_block c i) = 8"
  by (simp add: control_block_def split: prod.split)

lemma fill_host:
  assumes "fill_host_subframe R offset (c, buf) = (c', buf')" "offset + 512 \<le> length buf"
    and "p1_control_idx c = of_nat i" "i < 13"
  shows "length buf' = length buf \<and> same_config c' c \<and> p1_control_idx c' = of_nat ((i + 1) mod 13) \<and>
    tx_seq c' = tx_seq c \<and> (tx_iq_buffer c', tx_iq_consumer c') = after_outgoing R c \<and>
    (\<forall>j < length buf. j < offset \<or> offset + 8 + 8 * length (outgoing R c) \<le> j \<longrightarrow> buf' ! j = buf ! j) \<and>
    take 8 (drop offset buf') = control_block c i \<and>
    (\<forall>k < length (outgoing R c). take 4 (drop (offset + 8 + 8 * k + 4) buf') = iq_word (outgoing R c ! k))"
proof -
  define c1 where "c1 = c\<lparr>p1_control_idx := of_nat ((i + 1) mod 13)\<rparr>"
  define buf1 where "buf1 = write_at offset (control_block c i) buf"
  obtain c00 c01 c02 c03 c04 where cmd: "rotation_command c i = (c00, c01, c02, c03, c04)" by (metis prod_cases5)
  have buf1: "write_at (offset + 3) [c00 OR mox_bit c, c01, c02, c03, c04] (write_at offset P1_SYNC buf) = buf1"
    by (simp only: buf1_def control_block_def cmd prod.case write_at_append length_sync)
  have b1: "length buf1 = length buf" "take 8 (drop offset buf1) = control_block c i"
    "\<forall>j < length buf. j < offset \<or> offset + 8 \<le> j \<longrightarrow> buf1 ! j = buf ! j"
    using assms(2) by (auto simp: buf1_def write_at_slice nth_append)
  let ?r = "refill_tx_buffer R c1"
  let ?n = "min (length (tx_iq_buffer ?r)) 63"
  have ptt: "ptt c1 = ptt c" "tx_iq_buffer c1 = tx_iq_buffer c" "tx_iq_consumer c1 = tx_iq_consumer c"
    "same_config c1 c" "tx_seq c1 = tx_seq c"
    by (simp_all add: c1_def)
  have fill: "fill_host_subframe R offset (c, buf) =
      (if ptt c
       then let (c2, buf2) =
              (if 0 < ?n
               then let (c2, buf2) = pack_tx_samples (offset + 8) (take ?n (tx_iq_buffer ?r)) (?r, buf1)
                    in (c2\<lparr>tx_iq_buffer := drop ?n (tx_iq_buffer c2),
                          tx_subframes_with_data := tx_subframes_with_data c2 + 1\<rparr>, buf2)
               else (?r\<lparr>tx_subframes_empty := tx_subframes_empty ?r + 1\<rparr>, buf1))
            in (c2\<lparr>tx_debug_log_counter := tx_debug_log_counter c2 + 1\<rparr>, buf2)
       else (c1, buf1))"
    unfolding fill_host_subframe_def Let_def prod.case next_command [OF assms(3,4)] cmd buf1
      c1_def [symmetric] ptt ..
  show ?thesis
  proof (cases "ptt c \<and> 0 < ?n")
    case True
    have out: "outgoing R c = take ?n (tx_iq_buffer ?r)" "length (outgoing R c) = ?n"
      using True by (simp_all add: outgoing_def c1_def min_def)
    obtain c2 buf2 where pk: "pack_tx_samples (offset + 8) (outgoing R c) (?r, buf1) = (c2, buf2)" by force
    have fit: "offset + 8 + 8 * length (outgoing R c) \<le> length buf1" using assms(2) b1(1) out by simp
    note P = pack_tx [OF pk fit]
    have res: "c' = c2\<lparr>tx_iq_buffer := drop ?n (tx_iq_buffer c2),
        tx_subframes_with_data := tx_subframes_with_data c2 + 1,
        tx_debug_log_counter := tx_debug_log_counter c2 + 1\<rparr>" "buf' = buf2"
      using assms(1) True pk unfolding fill out(1) by (simp_all add: Let_def)
    have "same_config c' c2" by (simp add: res)
    also have "same_config c2 ?r" using P by blast
    also have "same_config ?r c1" by simp
    also have "same_config c1 c" by (rule ptt)
    finally have "same_config c' c" .
    moreover have "take 8 (drop offset buf2) = take 8 (drop offset buf1)"
      using P b1(1) assms(2) by (intro nth_equalityI) auto
    ultimately show ?thesis
      using P b1 out True ptt by (auto simp: res after_outgoing_def c1_def min_def)
  next
    case False
    then have "(c', buf') = (if ptt c then ?r\<lparr>tx_subframes_empty := tx_subframes_empty ?r + 1,
        tx_debug_log_counter := tx_debug_log_counter ?r + 1\<rparr> else c1, buf1)"
      using assms(1) unfolding fill by (auto simp: Let_def)
    moreover have "outgoing R c = []" using False by (auto simp: outgoing_def c1_def)
    ultimately show ?thesis
      using b1 False ptt refill_keeps(1) [of R c1] by (auto simp: after_outgoing_def c1_def)
  qed
qed

text \<open>The \<open>k\<close>-th block of eight bytes of a sub-frame, its I and Q.\<close>

definition block_at :: "bytes \<Rightarrow> nat \<Rightarrow> nat \<Rightarrow> bytes" where
  "block_at pkt offset k = take 4 (drop (offset + 8 + 8 * k + 4) pkt)"

definition carries :: "bytes \<Rightarrow> nat \<Rightarrow> Cx list \<Rightarrow> bool" where
  "carries pkt offset samples \<longleftrightarrow>
     (\<forall>k < 63. block_at pkt offset k = (if k < length samples then iq_word (samples ! k) else [0, 0, 0, 0]))"

lemma carriesI:
  assumes "\<forall>j. offset + 8 + 8 * length samples \<le> j \<and> j < offset + 512 \<longrightarrow> pkt ! j = 0"
    and "\<forall>k < length samples. block_at pkt offset k = iq_word (samples ! k)" "offset + 512 \<le> length pkt"
  shows "carries pkt offset samples"
  unfolding carries_def
proof (intro allI impI)
  fix k :: nat
  assume k: "k < 63"
  have "pkt ! (offset + 8 + 8 * k + 4 + j) = 0" if "length samples \<le> k" "j < 4" for j
    using that k assms(1) by simp
  then have "block_at pkt offset k = [0, 0, 0, 0]" if "length samples \<le> k"
    using that k assms(3) by (intro nth_equalityI) (auto simp: block_at_def nth_Cons' less_Suc_eq)
  then show "block_at pkt offset k = (if k < length samples then iq_word (samples ! k) else [0, 0, 0, 0])"
    using assms(2) by auto
qed

lemma control_block_same: "same_config a b \<Longrightarrow> control_block a j = control_block b j"
  by (simp add: same_config_def control_block_def rotation_command_def next_control_command_def
      nddc_bits_def mox_bit_def Let_def)

lemma length_outgoing: "length (outgoing R c) \<le> 63"
  by (simp add: outgoing_def)

lemma host_packet:
  assumes "length (host_pkt_buf c) = 1032" "p1_control_idx c = of_nat i" "i < 13"
  shows "\<exists>pkt c' cA. send_host_data_packet R sent c = transport_send sent pkt c' \<and>
    length pkt = 1032 \<and> host_pkt_buf c' = pkt \<and> same_config c' c \<and>
    p1_control_idx c' = of_nat ((i + 2) mod 13) \<and> tx_seq c' = tx_seq c + 1 \<and>
    take 8 pkt = [0xEF, 0xFE, 0x01, 0x02] @ seq_bytes (tx_seq c) \<and>
    take 8 (drop 8 pkt) = control_block c i \<and> take 8 (drop 520 pkt) = control_block c ((i + 1) mod 13) \<and>
    ptt cA = ptt c \<and> (tx_iq_buffer cA, tx_iq_consumer cA) = after_outgoing R c \<and>
    (tx_iq_buffer c', tx_iq_consumer c') = after_outgoing R cA \<and>
    carries pkt 8 (outgoing R c) \<and> carries pkt 520 (outgoing R cA)"
proof -
  define c0 where "c0 = c\<lparr>tx_seq := tx_seq c + 1\<rparr>"
  define buf where "buf = write_at 0 ([0xEF, 0xFE, 0x01, 0x02] @ seq_bytes (tx_seq c)) (replicate 1032 0)"
  have seq4: "length (seq_bytes x) = 4" for x by (simp add: seq_bytes_def split: prod.split)
  obtain cA bufA where A: "fill_host_subframe R 8 (c0, buf) = (cA, bufA)" by force
  obtain cB pkt where B: "fill_host_subframe R 520 (cA, bufA) = (cB, pkt)" by force
  have len: "length buf = 1032" by (simp add: buf_def)
  have zero: "buf ! j = 0" if "8 \<le> j" "j < 1032" for j
    using that by (simp add: buf_def nth_write_at seq4)
  have c0: "same_config c0 c" "p1_control_idx c0 = of_nat i" "ptt c0 = ptt c" "tx_seq c0 = tx_seq c + 1"
    "outgoing R c0 = outgoing R c" "after_outgoing R c0 = after_outgoing R c"
    using assms(2)
    by (simp_all add: c0_def same_config_def outgoing_def after_outgoing_def refill_tx_buffer_def Let_def
        split: option.split prod.split)
  have "8 + 512 \<le> length buf" using len by simp
  note FA = fill_host [OF A this c0(2) assms(3)]
  have "520 + 512 \<le> length bufA" "p1_control_idx cA = of_nat ((i + 1) mod 13)" "(i + 1) mod 13 < 13"
    using FA len by simp_all
  note FB = fill_host [OF B this]
  have same: "same_config cA c" "same_config cB c"
    using FA FB c0(1) by (blast intro: same_config_trans)+
  define c' where "c' = cB\<lparr>host_pkt_buf := pkt\<rparr>"
  have "write_at 4 (seq_bytes (tx_seq c)) (write_at 0 [0xEF, 0xFE, 0x01, 0x02] (replicate 1032 0)) = buf"
    by (simp add: buf_def write_at_append eval_nat_numeral)
  then have send: "send_host_data_packet R sent c = transport_send sent pkt c'"
    using A B unfolding send_host_data_packet_def Let_def assms(1) c0_def c'_def
    by (simp del: write_at.simps)
  have c': "host_pkt_buf c' = pkt" "same_config c' cB" "p1_control_idx c' = p1_control_idx cB"
    "tx_seq c' = tx_seq cB" "tx_iq_buffer c' = tx_iq_buffer cB" "tx_iq_consumer c' = tx_iq_consumer cB"
    by (simp_all add: c'_def)
  have early: "pkt ! j = bufA ! j" if "j < 520" for j using FB FA len that by auto
  have late: "pkt ! j = 0" if "520 + 8 + 8 * length (outgoing R cA) \<le> j" "j < 1032" for j
    using FB FA len that zero [of j] length_outgoing [of R c0] by auto
  have "take 8 pkt = take 8 buf"
    using early FA FB len by (intro nth_equalityI) auto
  moreover have "take 8 buf = [0xEF, 0xFE, 0x01, 0x02] @ seq_bytes (tx_seq c)"
    by (simp add: buf_def write_at_slice seq4 del: write_at.simps)
  ultimately have head: "take 8 pkt = [0xEF, 0xFE, 0x01, 0x02] @ seq_bytes (tx_seq c)" by simp
  have lens: "length bufA = 1032" "length pkt = 1032" using FA FB len by simp_all
  have "take 8 (drop 8 pkt) = take 8 (drop 8 bufA)"
    using early lens by (intro nth_equalityI) auto
  moreover have "take 8 (drop 8 bufA) = control_block c0 i" using FA by blast
  moreover have "control_block c0 i = control_block c i" by (rule control_block_same [OF c0(1)])
  ultimately have blockA: "take 8 (drop 8 pkt) = control_block c i" by simp
  have "take 8 (drop 520 pkt) = control_block cA ((i + 1) mod 13)" using FB by blast
  moreover have "control_block cA ((i + 1) mod 13) = control_block c ((i + 1) mod 13)"
    by (rule control_block_same [OF same(1)])
  ultimately have blockB: "take 8 (drop 520 pkt) = control_block c ((i + 1) mod 13)" by simp
  have "block_at pkt 8 k = iq_word (outgoing R c ! k)" if "k < length (outgoing R c)" for k
  proof -
    have "block_at pkt 8 k = block_at bufA 8 k"
      using early lens that length_outgoing [of R c]
      by (intro nth_equalityI) (auto simp: block_at_def)
    then show ?thesis using FA that c0 by (simp add: block_at_def)
  qed
  moreover have "pkt ! j = 0" if "8 + 8 + 8 * length (outgoing R c) \<le> j" "j < 8 + 512" for j
    using early [of j] FA c0 len zero [of j] that by auto
  ultimately have carryA: "carries pkt 8 (outgoing R c)"
    using FA FB len by (intro carriesI) auto
  have carryB: "carries pkt 520 (outgoing R cA)"
    using FA FB len late by (intro carriesI) (auto simp: block_at_def)
  have "(((i + 1) mod 13) + 1) mod 13 = (i + 2) mod 13" by (simp add: mod_simps)
  then have idx: "p1_control_idx cB = of_nat ((i + 2) mod 13)" using FB by simp
  have "same_config c' c" using c'(2) same(2) by (rule same_config_trans)
  moreover have "ptt cA = ptt c" using same(1) by (simp add: same_config_def)
  moreover have "tx_seq cB = tx_seq c + 1" using FA FB c0 by simp
  moreover have "(tx_iq_buffer cA, tx_iq_consumer cA) = after_outgoing R c"
    "(tx_iq_buffer cB, tx_iq_consumer cB) = after_outgoing R cA"
    using FA FB c0 by simp_all
  moreover have "length pkt = 1032" using FA FB len by simp
  ultimately show ?thesis
    using send c' idx head blockA blockB carryA carryB by metis
qed

section \<open>Reachable states\<close>

text \<open>A client made ready before the start: settings and channels in any order.\<close>

inductive host_ready :: "DiscoveredDevice \<Rightarrow> 'c Protocol1Client \<Rightarrow> bool" for d where
  "host_ready d (connect d)"
| "host_ready d c \<Longrightarrow> host_ready d (set_rx_frequency ddc freq c)"
| "host_ready d c \<Longrightarrow> host_ready d (set_tx_frequency freq c)"
| "host_ready d c \<Longrightarrow> host_ready d (set_sample_rate rate c)"
| "host_ready d c \<Longrightarrow> host_ready d (set_nddc n c)"
| "host_ready d c \<Longrightarrow> host_ready d (set_tx_drive drive c)"
| "host_ready d c \<Longrightarrow> host_ready d (set_ptt on c)"
| "host_ready d c \<Longrightarrow> host_ready d (set_rx_attenuation db c)"
| "host_ready d c \<Longrightarrow> host_ready d (rx_iq_stream ddc c)"
| "host_ready d c \<Longrightarrow> host_ready d (tx_iq_sink consumer c)"
| "host_ready d c \<Longrightarrow> host_ready d (snd (status_stream c))"

text \<open>A running client: started, then one step of the loop after the other while it is running.\<close>

inductive host_running :: "'c ring_ops \<Rightarrow> DiscoveredDevice \<Rightarrow> 'c run_state \<Rightarrow> bool" for R d where
  begun: "host_ready d c \<Longrightarrow> start sent c = (acts, Inr c') \<Longrightarrow> run_init now now' c' = Some r \<Longrightarrow> host_running R d r"
| stepped: "host_running R d r \<Longrightarrow> running (rs_client r) \<Longrightarrow> run_step R sent ev r = (acts, Inr r') \<Longrightarrow> host_running R d r'"

definition client_ok :: "DiscoveredDevice \<Rightarrow> 'c Protocol1Client \<Rightarrow> bool" where
  "client_ok d c \<longleftrightarrow> device c = d \<and> length (host_pkt_buf c) = 1032 \<and> length (ctrl_pkt_buf c) = 1032 \<and>
     (\<exists>i < 13. p1_control_idx c = of_nat i) \<and> length (p1_rx_frequencies c) = 12 \<and> 1 \<le> nddc c"

lemma ready_ok: "host_ready d c \<Longrightarrow> client_ok d c"
proof (induction rule: host_ready.induct)
  case 1
  have "\<exists>i < 13. (0 :: u8) = of_nat i" by (rule exI [of _ 0]) simp
  then show ?case by (simp add: client_ok_def connect_def P1_PACKET_SIZE_def)
qed (auto simp: client_ok_def set_rx_frequency_def set_tx_frequency_def set_sample_rate_def set_nddc_def
    set_tx_drive_def set_ptt_def set_rx_attenuation_def rx_iq_stream_def tx_iq_sink_def status_stream_def
    max_def)

section \<open>The numbering of packets\<close>

text \<open>The data packets among the actions (a start or stop packet has type 4), and their sequence
  numbers.\<close>

fun data_packets :: "p1_action list \<Rightarrow> bytes list" where
  "data_packets [] = []"
| "data_packets (SendPacket p a # acts) = (if p ! 2 = 0x01 then p # data_packets acts else data_packets acts)"
| "data_packets (_ # acts) = data_packets acts"

definition seq_of :: "bytes \<Rightarrow> u32" where
  "seq_of p = u32_from_be (p ! 4) (p ! 5) (p ! 6) (p ! 7)"

definition numbered :: "u32 \<Rightarrow> p1_action list \<Rightarrow> bool" where
  "numbered s acts \<longleftrightarrow>
     map seq_of (data_packets acts) = map (\<lambda>k. s + of_nat k) [0..<length (data_packets acts)]"

lemma data_packets_append [simp]: "data_packets (a @ b) = data_packets a @ data_packets b"
  by (induction a rule: data_packets.induct) simp_all

lemma numbered_append:
  assumes "numbered s a" "numbered (s + of_nat (length (data_packets a))) b"
  shows "numbered s (a @ b)"
proof -
  have "[0..<m + n] = [0..<m] @ map (\<lambda>k. m + k) [0..<n]" for m n :: nat
    by (rule nth_equalityI) (auto simp: nth_append)
  then show ?thesis using assms by (simp add: numbered_def add.assoc)
qed

text \<open>What an operation of a client with sequence number \<open>s\<close> promises: its packets are numbered from
  \<open>s\<close> on, and unless it fails, the client's number has moved by as many.\<close>

definition sends_in_order :: "DiscoveredDevice \<Rightarrow> u32 \<Rightarrow> 'a sent \<Rightarrow> ('a \<Rightarrow> 'c Protocol1Client) \<Rightarrow> bool" where
  "sends_in_order d s m f \<longleftrightarrow> numbered s (fst m) \<and>
     (\<forall>r. snd m = Inr r \<longrightarrow> client_ok d (f r) \<and> tx_seq (f r) = s + of_nat (length (data_packets (fst m))))"

lemma in_order_then:
  assumes "sends_in_order d s m f"
    and "\<And>c. snd m = Inr c \<Longrightarrow> client_ok d (f c) \<Longrightarrow> sends_in_order d (tx_seq (f c)) (g c) h"
  shows "sends_in_order d s (and_then m g) h"
proof (cases m)
  case (Pair acts res)
  show ?thesis
  proof (cases res)
    case (Inl e)
    then show ?thesis using assms(1) by (simp add: Pair and_then_def sends_in_order_def)
  next
    case (Inr c)
    obtain acts' res' where g: "g c = (acts', res')" by force
    have "sends_in_order d (tx_seq (f c)) (g c) h"
      using assms by (simp add: Pair Inr sends_in_order_def)
    then show ?thesis
      using assms(1) numbered_append [of s acts acts']
      by (simp add: Pair Inr g and_then_def sends_in_order_def add.assoc)
  qed
qed

lemma in_order_return: "client_ok d (f c) \<Longrightarrow> sends_in_order d (tx_seq (f c)) ([], Inr c) f"
  by (simp add: sends_in_order_def numbered_def)

lemma seq_of_header: "take 8 p = h @ seq_bytes s \<Longrightarrow> length h = 4 \<Longrightarrow> seq_of p = s"
proof -
  assume p: "take 8 p = h @ seq_bytes s" and h: "length h = 4"
  obtain a b c e where s: "u32_to_be s = (a, b, c, e)" by (metis prod_cases4)
  have "p ! i = (h @ [a, b, c, e]) ! i" if "i < 8" for i
    using that arg_cong [OF p, of "\<lambda>xs. xs ! i"] s by (simp add: seq_bytes_def)
  then have "p ! 4 = a" "p ! 5 = b" "p ! 6 = c" "p ! 7 = e" using h by (simp_all add: nth_append)
  then show ?thesis using u32_be_roundtrip [of s] s by (simp add: seq_of_def)
qed

lemma in_order_transport:
  assumes "client_ok d c'" "take 8 pkt = [0xEF, 0xFE, 0x01, 0x02] @ seq_bytes s" "tx_seq c' = s + 1"
  shows "sends_in_order d s (transport_send sent pkt c') (\<lambda>c. c)"
proof -
  have "pkt ! 2 = 0x01" using arg_cong [OF assms(2), of "\<lambda>xs. xs ! 2"] by simp
  then show ?thesis
    using assms seq_of_header [OF assms(2)]
    by (simp add: transport_send_def sends_in_order_def numbered_def split: option.split)
qed

lemma in_order_other:
  assumes "client_ok d c" "pkt ! 2 \<noteq> 0x01"
  shows "sends_in_order d (tx_seq c) (transport_send sent pkt c) (\<lambda>c. c)"
  using assms by (simp add: transport_send_def sends_in_order_def numbered_def split: option.split)

text \<open>A control packet: the command in the first sub-frame, rate and receivers in the second.\<close>

lemma control_packet:
  assumes "length (ctrl_pkt_buf c) = 1032"
  shows "\<exists>pkt. send_control sent c0 c1 c2 c3 c4 c =
      transport_send sent pkt (c\<lparr>tx_seq := tx_seq c + 1, ctrl_pkt_buf := pkt\<rparr>) \<and>
    length pkt = 1032 \<and> take 8 pkt = [0xEF, 0xFE, 0x01, 0x02] @ seq_bytes (tx_seq c) \<and>
    take 8 (drop 8 pkt) = P1_SYNC @ [c0 OR mox_bit c, c1, c2, c3, c4] \<and>
    take 8 (drop 520 pkt) = P1_SYNC @ [mox_bit c, sample_rate_to_p1_code (sample_rate c), 0, 0, nddc_bits c OR 0x04]"
proof -
  have seq4: "length (seq_bytes x) = 4" for x by (simp add: seq_bytes_def split: prod.split)
  have mox: "mox_bit (c\<lparr>tx_seq := w\<rparr>) = mox_bit c" "nddc_bits (c\<lparr>tx_seq := w\<rparr>) = nddc_bits c" for w
    by (simp_all add: mox_bit_def nddc_bits_def)
  define pkt where "pkt = write_at 527 [nddc_bits c OR 0x04]
    (write_at 523 [mox_bit c, sample_rate_to_p1_code (sample_rate c)] (write_at 520 P1_SYNC
      (write_at 11 [c0 OR mox_bit c, c1, c2, c3, c4] (write_at 8 P1_SYNC (write_at 4 (seq_bytes (tx_seq c))
        (write_at 0 [0xEF, 0xFE, 0x01, 0x02] (replicate 1032 0)))))))"
  have two: "replicate 2 0 = [0, 0 :: u8]" by (simp add: eval_nat_numeral)
  have "pkt = [0xEF, 0xFE, 0x01, 0x02] @ seq_bytes (tx_seq c) @ P1_SYNC @ [c0 OR mox_bit c, c1, c2, c3, c4]
      @ replicate 504 0 @ P1_SYNC @ [mox_bit c, sample_rate_to_p1_code (sample_rate c), 0, 0, nddc_bits c OR 0x04]
      @ replicate 504 0"
    by (simp add: pkt_def write_at_slice seq4 P1_SYNC_def two del: write_at.simps)
  moreover have "send_control sent c0 c1 c2 c3 c4 c =
      transport_send sent pkt (c\<lparr>tx_seq := tx_seq c + 1, ctrl_pkt_buf := pkt\<rparr>)"
    unfolding send_control_def Let_def pkt_def mox assms by simp
  ultimately show ?thesis by (intro exI [of _ pkt]) (simp add: seq4)
qed

lemma ok_updates [simp]:
  "client_ok d (c\<lparr>tx_seq := w\<rparr>) = client_ok d c"
  "client_ok d (c\<lparr>running := b\<rparr>) = client_ok d c"
  "length pkt = 1032 \<Longrightarrow> client_ok d c \<Longrightarrow> client_ok d (c\<lparr>ctrl_pkt_buf := pkt\<rparr>)"
  by (simp_all add: client_ok_def)

lemma in_order_control:
  assumes "client_ok d c"
  shows "sends_in_order d (tx_seq c) (send_control sent c0 c1 c2 c3 c4 c) (\<lambda>c. c)"
proof -
  have "length (ctrl_pkt_buf c) = 1032" using assms by (simp add: client_ok_def)
  from control_packet [OF this, of sent c0 c1 c2 c3 c4] assms show ?thesis
    by (auto intro!: in_order_transport)
qed

lemma in_order_rx_config: "client_ok d c \<Longrightarrow> sends_in_order d (tx_seq c) (send_rx_config sent is c) (\<lambda>c. c)"
proof (induction "is" arbitrary: c)
  case Nil
  then show ?case using in_order_return [of d "\<lambda>c. c" c] by simp
next
  case (Cons i "is")
  obtain f1 f2 f3 f4 where f: "u32_to_be (p1_rx_frequencies c ! i) = (f1, f2, f3, f4)" by (metis prod_cases4)
  show ?case
    unfolding send_rx_config.simps f prod.case
    by (rule in_order_then [OF in_order_control [OF Cons.prems]]) (rule Cons.IH)
qed

lemma in_order_config: "client_ok d c \<Longrightarrow> sends_in_order d (tx_seq c) (send_config sent c) (\<lambda>c. c)"
  unfolding send_config_def Let_def
  by (intro in_order_then [where f = "\<lambda>c. c"])
    (auto intro: in_order_control in_order_rx_config split: prod.split)

lemma in_order_start:
  assumes "client_ok d c"
  shows "sends_in_order d (tx_seq c) (start sent c) (\<lambda>c. c)"
  unfolding start_def
proof (rule in_order_then [OF in_order_other [OF assms]])
  fix c' assume "client_ok d c'"
  then show "sends_in_order d (tx_seq c') (send_config sent (c'\<lparr>running := True\<rparr>)) (\<lambda>c. c)"
    using in_order_config [of d "c'\<lparr>running := True\<rparr>" sent] by simp
qed (simp add: start_stop_packet_def)

lemma in_order_stop:
  assumes "client_ok d c"
  shows "sends_in_order d (tx_seq c) (stop sent c) (\<lambda>c. c)"
  unfolding stop_def
proof (rule in_order_then [OF in_order_other [OF assms]])
  fix c' assume "client_ok d c'"
  then show "sends_in_order d (tx_seq c') ([], Inr (c'\<lparr>running := False\<rparr>)) (\<lambda>c. c)"
    using in_order_return [of d "\<lambda>c. c" "c'\<lparr>running := False\<rparr>"] by simp
qed (simp add: start_stop_packet_def)

lemma in_order_host:
  assumes "client_ok d c"
  shows "sends_in_order d (tx_seq c) (send_host_data_packet R sent c) (\<lambda>c. c)"
proof -
  obtain i where i: "p1_control_idx c = of_nat i" "i < 13" using assms by (auto simp: client_ok_def)
  have len: "length (host_pkt_buf c) = 1032" using assms by (simp add: client_ok_def)
  obtain pkt c' where p: "send_host_data_packet R sent c = transport_send sent pkt c'" "length pkt = 1032"
    "host_pkt_buf c' = pkt" "same_config c' c" "p1_control_idx c' = of_nat ((i + 2) mod 13)"
    "tx_seq c' = tx_seq c + 1" "take 8 pkt = [0xEF, 0xFE, 0x01, 0x02] @ seq_bytes (tx_seq c)"
    using host_packet [OF len i, of R sent] by blast
  have "(i + 2) mod 13 < 13" by simp
  then have "client_ok d c'"
    using assms p unfolding client_ok_def same_config_def by metis
  then show ?thesis unfolding p(1) using p by (intro in_order_transport) simp_all
qed

text \<open>Operations that send nothing.\<close>

definition quiet :: "DiscoveredDevice \<Rightarrow> 'c Protocol1Client \<Rightarrow> 'c Protocol1Client \<Rightarrow> bool" where
  "quiet d c c' \<longleftrightarrow> (client_ok d c \<longrightarrow> client_ok d c') \<and> tx_seq c' = tx_seq c"

lemma quiet_settings [simp]:
  "quiet d c (set_rx_frequency ddc freq c)" "quiet d c (set_tx_frequency freq c)"
  "quiet d c (set_sample_rate rate c)" "quiet d c (set_nddc n c)" "quiet d c (set_tx_drive drive c)"
  "quiet d c (set_ptt on c)" "quiet d c (set_rx_attenuation db c)" "quiet d c (c\<lparr>tx_cw_mode := cw\<rparr>)"
  by (auto simp: quiet_def client_ok_def set_rx_frequency_def set_tx_frequency_def set_sample_rate_def
      set_nddc_def set_tx_drive_def set_ptt_def set_rx_attenuation_def max_def)

lemma in_order_if:
  "(b \<Longrightarrow> sends_in_order d s x f) \<Longrightarrow> (\<not> b \<Longrightarrow> sends_in_order d s y f) \<Longrightarrow> sends_in_order d s (if b then x else y) f"
  by simp

lemma in_order_command:
  assumes "client_ok d c"
  shows "sends_in_order d (tx_seq c) (handle_command sent cmd c) (\<lambda>c. c)"
proof (cases "cmd = StopCommand")
  case True
  then show ?thesis using in_order_stop [OF assms] by (simp add: handle_command_def)
next
  case False
  have "quiet d c (set_ptt on c\<lparr>tx_fifo_estimate := a1, tx_last_send := a2, tx_fifo_log_counter := a3,
      tx_samples_total := a4, tx_samples_clipped_re := a5, tx_samples_clipped_im := a6, tx_max_excess := a7,
      tx_underrun_skips := a8\<rparr>)"
    "quiet d c (set_ptt on c\<lparr>tx_iq_buffer := b1, tx_subframes_with_data := b2, tx_subframes_empty := b3,
      tx_underrun_skips := b4, tx_debug_log_counter := b5\<rparr>)"
    for on a1 a2 a3 a4 a5 a6 a7 a8 b1 b2 b3 b4 b5
    by (simp_all add: quiet_def client_ok_def set_ptt_def)
  then obtain c' where "handle_command sent cmd c = ([], Inr c')" "quiet d c c'"
    using False by (cases cmd) (auto simp: handle_command_def Let_def)
  then show ?thesis using assms by (simp add: quiet_def sends_in_order_def numbered_def)
qed

lemma quiet_subframe: "data_packets (fst (parse_radio_subframe sf c)) = [] \<and> quiet d c (snd (parse_radio_subframe sf c))"
proof -
  have "data_packets (map (\<lambda>ddc. SendIq ddc (g ddc)) ds) = []" for g ds by (induction ds) simp_all
  then show ?thesis by (simp add: parse_radio_subframe_def quiet_def client_ok_def Let_def)
qed

lemma quiet_trans: "quiet d a b \<Longrightarrow> quiet d b c \<Longrightarrow> quiet d a c"
  by (simp add: quiet_def)

lemma quiet_received: "data_packets (fst (handle_radio_packet data c)) = [] \<and> quiet d c (snd (handle_radio_packet data c))"
proof -
  obtain a1 c1 where s1: "parse_radio_subframe (take 512 (drop 8 data)) (c\<lparr>rx_seq := s + 1\<rparr>) = (a1, c1)"
    if "s = u32_from_be (data ! 4) (data ! 5) (data ! 6) (data ! 7)" for s by force
  obtain a2 c2 where s2: "parse_radio_subframe (take 512 (drop 520 data)) c1 = (a2, c2)" by force
  have "quiet d c (c\<lparr>rx_seq := s\<rparr>)" for s by (simp add: quiet_def client_ok_def)
  moreover note quiet_subframe [of "take 512 (drop 8 data)" "c\<lparr>rx_seq := u32_from_be (data ! 4) (data ! 5) (data ! 6) (data ! 7) + 1\<rparr>" d]
    quiet_subframe [of "take 512 (drop 520 data)" c1 d]
  ultimately have "data_packets a1 = []" "data_packets a2 = []" "quiet d c c2"
    using s1 s2 by (auto intro: quiet_trans)
  then show ?thesis
    using s1 s2 by (simp add: handle_radio_packet_def Let_def quiet_def)
qed

lemma quiet_estimate [simp]: "quiet d c (drain_estimate now c)"
  by (simp add: drain_estimate_def quiet_def client_ok_def Let_def split: option.split)

lemma in_order_due:
  assumes "client_ok d (rs_client r)"
  shows "sends_in_order d (tx_seq (rs_client r)) (send_due R sent now r) rs_client"
proof -
  have est: "sends_in_order d (tx_seq (rs_client r)) (send_host_data_packet R sent (drain_estimate now (rs_client r))) (\<lambda>c. c)"
    using in_order_host [of d "drain_estimate now (rs_client r)" R sent] assms quiet_estimate [of d "rs_client r" now]
    by (simp add: quiet_def)
  have ok: "client_ok d c \<Longrightarrow> client_ok d (c\<lparr>tx_fifo_estimate := f\<rparr>)"
    "client_ok d c \<Longrightarrow> client_ok d (c\<lparr>tx_fifo_log_counter := w\<rparr>)"
    "client_ok d c \<Longrightarrow> client_ok d (c\<lparr>tx_underrun_skips := k\<rparr>)" for c :: "'a Protocol1Client" and f w k
    by (simp_all add: client_ok_def)
  show ?thesis
    unfolding send_due_def Let_def
    apply (rule in_order_then [where f = snd], rule in_order_if)
    subgoal using assms by (simp add: ok sends_in_order_def numbered_def)
    subgoal by (rule in_order_then [OF est]) (simp add: ok sends_in_order_def numbered_def)
    subgoal for c by (cases c) (simp add: ok sends_in_order_def numbered_def)
    done
qed

lemma in_order_step:
  assumes "client_ok d (rs_client r)"
  shows "sends_in_order d (tx_seq (rs_client r)) (run_step R sent ev r) rs_client"
proof (cases ev)
  case (SendDue now)
  then show ?thesis using in_order_due [OF assms] by (simp add: run_step_def)
next
  case (Received now data)
  obtain acts c where h: "handle_radio_packet data (rs_client r) = (acts, c)" by force
  then show ?thesis
    using Received quiet_received [of data "rs_client r" d] assms
    by (simp add: run_step_def quiet_def sends_in_order_def numbered_def)
next
  case ReceiveFailed
  then show ?thesis using in_order_return [of d rs_client r] assms by (simp add: run_step_def)
next
  case (CommandArrived cmd)
  have "sends_in_order d (tx_seq c) ([], Inr (r\<lparr>rs_client := c\<rparr>)) rs_client" if "client_ok d c" for c
    using in_order_return [of d rs_client "r\<lparr>rs_client := c\<rparr>"] that by simp
  then show ?thesis
    unfolding CommandArrived run_step_def run_event.case by (rule in_order_then [OF in_order_command [OF assms]])
next
  case TimedOut
  then show ?thesis by (simp add: run_step_def sends_in_order_def numbered_def)
qed

lemma in_order_loop:
  "client_ok d (rs_client r) \<Longrightarrow> sends_in_order d (tx_seq (rs_client r)) (run_loop R sent evs r) rs_client"
proof (induction evs arbitrary: r)
  case Nil
  then show ?case using in_order_return [of d rs_client r] by simp
next
  case (Cons ev evs)
  show ?case
  proof (cases "running (rs_client r)")
    case True
    have "sends_in_order d (tx_seq (rs_client r)) (and_then (run_step R sent ev r) (run_loop R sent evs)) rs_client"
      by (rule in_order_then [OF in_order_step [OF Cons.prems]]) (rule Cons.IH)
    then show ?thesis using True by simp
  next
    case False
    then show ?thesis using in_order_return [of d rs_client r] Cons.prems by simp
  qed
qed

lemma running_ok: "host_running R d r \<Longrightarrow> client_ok d (rs_client r)"
proof (induction rule: host_running.induct)
  case (begun c sent acts c' now now' r)
  have "client_ok d c'" using in_order_start [OF ready_ok [OF begun(1)], of sent] begun(2) by (simp add: sends_in_order_def)
  then show ?case using begun(3) by (auto simp: run_init_def Let_def split: option.splits)
next
  case (stepped r sent ev acts r')
  then show ?case using in_order_step [OF stepped.IH, of R sent ev] by (simp add: sends_in_order_def)
qed

text \<open>C25: The data packets a client sends, from the first of \<open>start\<close> on and through whatever happens in
  \<open>run\<close> (commands, received packets, skipped and failed sends), carry the consecutive sequence
  numbers 0, 1, 2 and so on: none is used twice or left out.\<close>

theorem packets_numbered:
  assumes "host_ready d c0" "start sent c0 = (acts0, Inr c)" "run_init now now' c = Some r"
    and "run_loop R sent evs r = (acts, result)"
  shows "map seq_of (data_packets (acts0 @ acts)) = map of_nat [0..<length (data_packets (acts0 @ acts))]"
proof -
  have "tx_seq c0 = 0" using assms(1)
    by (induction rule: host_ready.induct)
      (simp_all add: connect_def set_rx_frequency_def set_tx_frequency_def set_sample_rate_def set_nddc_def
        set_tx_drive_def set_ptt_def set_rx_attenuation_def rx_iq_stream_def tx_iq_sink_def status_stream_def)
  then have start: "numbered 0 acts0" "client_ok d c" "tx_seq c = of_nat (length (data_packets acts0))"
    using in_order_start [OF ready_ok [OF assms(1)], of sent] assms(2) by (simp_all add: sends_in_order_def)
  have "rs_client r = c" using assms(3) by (auto simp: run_init_def Let_def split: option.splits)
  then have "numbered (of_nat (length (data_packets acts0))) acts"
    using in_order_loop [of d r R sent evs] start assms(4) by (simp add: sends_in_order_def)
  then have "numbered 0 (acts0 @ acts)" using start numbered_append [of 0 acts0 acts] by simp
  then show ?thesis by (simp add: numbered_def)
qed

text \<open>On a transport that does not fail, the start succeeds; of the client only the running flag, the
  sequence number and the control packet's buffer change.\<close>

definition renumbered :: "'c Protocol1Client \<Rightarrow> 'c Protocol1Client \<Rightarrow> bool" where
  "renumbered c c' \<longleftrightarrow> c' = c\<lparr>tx_seq := tx_seq c', ctrl_pkt_buf := ctrl_pkt_buf c'\<rparr> \<and> length (ctrl_pkt_buf c') = 1032"

lemma renumbered_trans: "renumbered a b \<Longrightarrow> renumbered b c \<Longrightarrow> renumbered a c"
  by (cases a; cases b; cases c) (simp add: renumbered_def)

lemma renumbered_refl: "length (ctrl_pkt_buf c) = 1032 \<Longrightarrow> renumbered c c"
  by (simp add: renumbered_def)

lemma renumbered_fields:
  assumes "renumbered c c'"
  shows "length (ctrl_pkt_buf c') = 1032" "device c' = device c" "sample_rate c' = sample_rate c"
    "nddc c' = nddc c" "p1_rx_frequencies c' = p1_rx_frequencies c" "p1_tx_frequency c' = p1_tx_frequency c"
    "tx_drive c' = tx_drive c" "ptt c' = ptt c" "running c' = running c"
  using assms by (cases c; cases c'; simp add: renumbered_def)+

lemma sent_ok [simp]: "transport_send (\<lambda>_. None) pkt c = ([SendPacket pkt (addr (device c))], Inr c)"
  by (simp add: transport_send_def)

lemma control_sent:
  assumes "length (ctrl_pkt_buf c) = 1032"
  obtains pkt c' where "send_control (\<lambda>_. None) c0 c1 c2 c3 c4 c = ([SendPacket pkt (addr (device c))], Inr c')"
    "renumbered c c'" "length pkt = 1032" "take 8 pkt = [0xEF, 0xFE, 0x01, 0x02] @ seq_bytes (tx_seq c)"
    "take 8 (drop 8 pkt) = P1_SYNC @ [c0 OR mox_bit c, c1, c2, c3, c4]"
    "take 8 (drop 520 pkt) = P1_SYNC @ [mox_bit c, sample_rate_to_p1_code (sample_rate c), 0, 0, nddc_bits c OR 0x04]"
proof -
  obtain pkt where "send_control (\<lambda>_. None) c0 c1 c2 c3 c4 c =
      transport_send (\<lambda>_. None) pkt (c\<lparr>tx_seq := tx_seq c + 1, ctrl_pkt_buf := pkt\<rparr>)"
    "length pkt = 1032" "take 8 pkt = [0xEF, 0xFE, 0x01, 0x02] @ seq_bytes (tx_seq c)"
    "take 8 (drop 8 pkt) = P1_SYNC @ [c0 OR mox_bit c, c1, c2, c3, c4]"
    "take 8 (drop 520 pkt) = P1_SYNC @ [mox_bit c, sample_rate_to_p1_code (sample_rate c), 0, 0, nddc_bits c OR 0x04]"
    using control_packet [OF assms, of "\<lambda>_. None" c0 c1 c2 c3 c4] by blast
  then show ?thesis by (intro that) (auto simp: renumbered_def)
qed

lemma rx_config_sent:
  "length (ctrl_pkt_buf c) = 1032 \<Longrightarrow>
    \<exists>acts c'. send_rx_config (\<lambda>_. None) is c = (acts, Inr c') \<and> renumbered c c'"
proof (induction "is" arbitrary: c)
  case (Cons i "is")
  obtain f1 f2 f3 f4 where f: "u32_to_be (p1_rx_frequencies c ! i) = (f1, f2, f3, f4)" by (metis prod_cases4)
  obtain pkt c1 where c1: "send_control (\<lambda>_. None) (0x04 + of_nat i * 2) f1 f2 f3 f4 c =
      ([SendPacket pkt (addr (device c))], Inr c1)" "renumbered c c1"
    by (rule control_sent [OF Cons.prems]) blast
  obtain acts c2 where c2: "send_rx_config (\<lambda>_. None) is c1 = (acts, Inr c2)" "renumbered c1 c2"
    using Cons.IH [OF renumbered_fields(1) [OF c1(2)]] by blast
  show ?case
    using c1(1) c2(1) renumbered_trans [OF c1(2) c2(2)] by (auto simp: f and_then_def)
qed (simp add: renumbered_refl)

lemma start_succeeds:
  assumes "length (ctrl_pkt_buf c) = 1032"
  shows "\<exists>acts c'. start (\<lambda>_. None) c = (acts, Inr c') \<and> renumbered (c\<lparr>running := True\<rparr>) c'"
proof -
  let ?c = "c\<lparr>running := True\<rparr>"
  have len: "length (ctrl_pkt_buf ?c) = 1032" using assms by simp
  obtain t1 t2 t3 t4 where t: "u32_to_be (p1_tx_frequency c) = (t1, t2, t3, t4)" by (metis prod_cases4)
  obtain p1 c1 where c1: "send_control (\<lambda>_. None) 0x00 (sample_rate_to_p1_code (sample_rate ?c)) 0 0 (nddc_bits ?c OR 0x04) ?c =
      ([SendPacket p1 (addr (device ?c))], Inr c1)" "renumbered ?c c1"
    by (rule control_sent [OF len]) blast
  note f1 = renumbered_fields [OF c1(2)]
  obtain p2 c2 where c2: "send_control (\<lambda>_. None) 0x02 t1 t2 t3 t4 c1 = ([SendPacket p2 (addr (device c1))], Inr c2)"
    "renumbered c1 c2"
    by (rule control_sent [OF f1(1)]) blast
  note f2 = renumbered_fields [OF c2(2)]
  obtain acts c3 where c3: "send_rx_config (\<lambda>_. None) [0..<min (unat (nddc c2)) 8] c2 = (acts, Inr c3)" "renumbered c2 c3"
    using rx_config_sent [OF f2(1)] by blast
  note f3 = renumbered_fields [OF c3(2)]
  obtain p4 c4 where c4: "send_control (\<lambda>_. None) 0x12 (tx_drive c3)
      (case hw_type (device c3) of HermesLite \<Rightarrow> 0x08 | Hermes \<Rightarrow> 0x00) 0 0 c3 =
      ([SendPacket p4 (addr (device c3))], Inr c4)" "renumbered c3 c4"
    by (rule control_sent [OF f3(1)]) blast
  have "renumbered ?c c4"
    using c1(2) c2(2) c3(2) c4(2) by (blast intro: renumbered_trans)
  moreover have "u32_to_be (p1_tx_frequency c1) = (t1, t2, t3, t4)" using f1 t by simp
  ultimately show ?thesis
    using c1(1) c2(1) c3(1) c4(1)
    by (simp add: start_def send_config_def and_then_def Let_def)
qed

definition demo_device :: DiscoveredDevice where
  "demo_device = \<lparr>addr = (7, 1024), mac = [2, 0, 0, 0, 0, 1], hw_type = HermesLite, firmware_version = 25,
     num_rxs = 4, status_code = 2\<rparr>"

lemma ready_run:
  fixes c :: "'c Protocol1Client"
  assumes "host_ready d c" "sample_rate c = 48000"
  obtains acts0 c' r where "start (\<lambda>_. None) c = (acts0, Inr c')" "renumbered (c\<lparr>running := True\<rparr>) c'"
    "run_init 0 0 c' = Some r" "rs_client r = c'"
proof -
  have "length (ctrl_pkt_buf c) = 1032" using ready_ok [OF assms(1)] by (simp add: client_ok_def)
  from start_succeeds [OF this] obtain acts0 c' where c: "start (\<lambda>_. None) c = (acts0, Inr c')"
    "renumbered (c\<lparr>running := True\<rparr>) c'" by blast
  have f: "sample_rate c' = 48000" using renumbered_fields [OF c(2)] assms(2) by simp
  let ?n = "int (samples_per_subframe c' * 2)"
  have n: "?n \<le> 1008" by (simp add: samples_per_subframe_def Let_def order_trans [OF div_le_dividend])
  have "\<exists>y. f64_round (of_int ?n / 48000) = Fin y \<and> of_int 0 \<le> y \<and> y \<le> of_int 1"
  proof (rule f64_round_between_int)
    have "of_int ?n \<le> (1008 :: rat)" using n by linarith
    then show "of_int ?n / 48000 \<le> (of_int 1 :: rat)" by simp
  qed simp_all
  then have "duration_from_secs_f64 (f64_div (f64_of_int ?n) (f64_of_int 48000)) \<noteq> None"
    using n by (auto simp: duration_from_secs_f64_def f64_of_int_exact)
  then obtain r where r: "run_init 0 0 c' = Some r" "rs_client r = c'"
    using f by (auto simp: run_init_def Let_def)
  show ?thesis by (rule that [OF c r])
qed

lemma demo_run:
  obtains acts0 c r where "host_ready demo_device (connect demo_device :: Cx list Protocol1Client)"
    "start (\<lambda>_. None) (connect demo_device :: Cx list Protocol1Client) = (acts0, Inr c)"
    "renumbered ((connect demo_device)\<lparr>running := True\<rparr>) c" "run_init 0 0 c = Some r" "rs_client r = c"
proof -
  note ready = host_ready.intros(1) [of demo_device]
  have "sample_rate (connect demo_device :: Cx list Protocol1Client) = 48000" by (simp add: connect_def)
  from ready_run [OF ready this] show ?thesis using that ready by blast
qed

theorem packets_numbered_witness:
  "\<exists>acts0 c r. start (\<lambda>_. None) (connect demo_device :: Cx list Protocol1Client) = (acts0, Inr c) \<and>
    run_init 0 0 c = Some r \<and>
    (let acts = fst (run_loop list_ring (\<lambda>_. None) [SendDue 0, SendDue 0] r)
     in map seq_of (data_packets (acts0 @ acts)) = map of_nat [0..<length (data_packets (acts0 @ acts))])"
proof -
  obtain acts0 c r where demo: "host_ready demo_device (connect demo_device :: Cx list Protocol1Client)"
    "start (\<lambda>_. None) (connect demo_device :: Cx list Protocol1Client) = (acts0, Inr c)" "run_init 0 0 c = Some r"
    using demo_run by blast
  show ?thesis
    using packets_numbered [OF demo, of list_ring "[SendDue 0, SendDue 0]"] demo by (metis prod.collapse)
qed

text \<open>C26: Every state of a running client is well formed, whatever was set, sent, received or commanded: the
  device is the one connected to, both packet buffers have the size of a packet, the rotation is at
  one of its thirteen commands, there is a frequency for each of twelve receivers, at least one
  receiver is on and a sub-frame has room for at least ten samples: no index of the send and receive
  paths leaves its array.
\<close>

theorem client_well_formed:
  assumes "host_running R d r"
  shows "device (rs_client r) = d \<and> length (host_pkt_buf (rs_client r)) = P1_PACKET_SIZE \<and>
    length (ctrl_pkt_buf (rs_client r)) = P1_PACKET_SIZE \<and> unat (p1_control_idx (rs_client r)) < 13 \<and>
    length (p1_rx_frequencies (rs_client r)) = 12 \<and> 1 \<le> nddc (rs_client r) \<and>
    samples_per_subframe (rs_client r) \<in> {10..63}"
proof -
  have ok: "client_ok d (rs_client r)" by (rule running_ok [OF assms])
  then obtain i where i: "i < 13" "p1_control_idx (rs_client r) = of_nat i" by (auto simp: client_ok_def)
  have "unat (of_nat i :: u8) = i" using i(1) by (simp only: unsigned_of_nat) (simp add: take_bit_nat_eq_self)
  moreover have "504 div (6 * n + 2) \<in> {10..63}" if "1 \<le> n" "n \<le> 8" for n :: nat
    using that div_le_mono2 [of 8 "6 * n + 2" 504] div_le_mono2 [of "6 * n + 2" 50 504] by simp
  then have "samples_per_subframe (rs_client r) \<in> {10..63}" by (simp add: samples_per_subframe_def Let_def)
  ultimately show ?thesis using ok i by (simp add: client_ok_def P1_PACKET_SIZE_def)
qed

theorem client_well_formed_witness:
  "\<exists>r r' :: Cx list run_state. run_step list_ring (\<lambda>_. None) (CommandArrived (SetNddc 7)) r = ([], Inr r') \<and>
    host_running list_ring demo_device r' \<and> nddc (rs_client r') = 7 \<and> unat (p1_control_idx (rs_client r')) < 13"
proof -
  obtain acts0 c r where demo: "host_ready demo_device (connect demo_device :: Cx list Protocol1Client)"
    "start (\<lambda>_. None) (connect demo_device :: Cx list Protocol1Client) = (acts0, Inr c)"
    "renumbered ((connect demo_device)\<lparr>running := True\<rparr>) c" "run_init 0 0 c = Some r" "rs_client r = c"
    by (rule demo_run)
  have run: "host_running list_ring demo_device r" using demo(1,2,4) by (rule host_running.begun)
  have on: "running (rs_client r)" using renumbered_fields [OF demo(3)] demo(5) by simp
  have step: "run_step list_ring (\<lambda>_. None) (CommandArrived (SetNddc 7)) r =
      ([], Inr (r\<lparr>rs_client := (rs_client r)\<lparr>nddc := 7\<rparr>\<rparr>))"
    by (simp add: run_step_def handle_command_def and_then_def set_nddc_def)
  note run' = host_running.stepped [OF run on step]
  from client_well_formed [OF run'] step run' show ?thesis
    by (intro exI [of _ r] exI [of _ "r\<lparr>rs_client := (rs_client r)\<lparr>nddc := 7\<rparr>\<rparr>"]) simp
qed

end
