(* ===== verification/Host_Control.thy ===== *)
theory Host_Control
  imports Emu_Link Host_States
begin

text \<open>
  What the host's packets do to the radio. The rotation of control commands brings the radio's
  settings to the host's within seven packets (\<open>control_rotation_syncs\<close>); the configuration sent at
  the start does so at once (\<open>start_configures\<close>), but for an eighth receiver, whose frequency is
  sent to the address of the transmit drive (\<open>eighth_receiver_overwrites_drive\<close>).
\<close>

section \<open>Settings\<close>

text \<open>The fields of the emulator's client that control words set.\<close>

definition same_settings :: "'g ClientState \<Rightarrow> 'g ClientState \<Rightarrow> bool" where
  "same_settings a b \<longleftrightarrow>
     cs_ptt a = cs_ptt b \<and> cs_sample_rate a = cs_sample_rate b \<and> cs_nddc a = cs_nddc b \<and>
     oc_outputs a = oc_outputs b \<and> tx_frequency a = tx_frequency b \<and>
     rx_frequencies a = rx_frequencies b \<and> cs_tx_drive a = cs_tx_drive b \<and> pa_enabled a = pa_enabled b"

lemma same_settings_trans [trans]: "same_settings a b \<Longrightarrow> same_settings b c \<Longrightarrow> same_settings a c"
  by (simp add: same_settings_def)

lemma subframe_settings:
  assumes "take 3 sf = SYNC" "process_host_subframe E clk sf (cs, echo) = (cs', echo')"
  shows "same_settings cs' (snd (process_control cs (sf ! 3) (sf ! 4) (sf ! 5) (sf ! 6) (sf ! 7)))"
proof -
  obtain now now' stopped where clk: "clk = (now, now', stopped)" by (metis prod_cases3)
  obtain changed cs1 where pc: "process_control cs (sf ! 3) (sf ! 4) (sf ! 5) (sf ! 6) (sf ! 7) = (changed, cs1)"
    by force
  obtain n iq where u: "unpack_tx_iq_16bit_into (take (MAX_TX_IQ_SAMPLES * 8) (drop 8 sf)) (tx_iq_buf cs1) = (n, iq)"
    by force
  show ?thesis
    using assms
    by (cases echo; cases "cs_ptt cs1"; cases changed; cases "recording_freq cs1")
      (auto simp: process_host_subframe_def clk pc u Let_def same_settings_def)
qed

section \<open>The slots of the rotation\<close>

definition slot_ok :: "'c Protocol1Client \<Rightarrow> 'g ClientState \<Rightarrow> nat \<Rightarrow> bool" where
  "slot_ok c cs i \<longleftrightarrow>
     (i = 0 \<longrightarrow> cs_sample_rate cs = sample_rate c \<and> cs_nddc cs = nddc c \<and>
        oc_outputs cs = (if hw_type (device c) = HermesLite
          then n2adr_oc_for_freq (if ptt c then p1_tx_frequency c else p1_rx_frequencies c ! 0) else 0)) \<and>
     (i = 1 \<longrightarrow> tx_frequency cs = p1_tx_frequency c) \<and>
     (2 \<le> i \<and> i \<le> 8 \<longrightarrow> rx_frequencies cs ! (i - 2) =
        (if i - 2 < unat (nddc c) then p1_rx_frequencies c ! (i - 2) else 0)) \<and>
     (i = 9 \<longrightarrow> cs_tx_drive cs = tx_drive c \<and> pa_enabled cs = (hw_type (device c) = HermesLite))"

definition in_table :: "'c Protocol1Client \<Rightarrow> bool" where
  "in_table c \<longleftrightarrow> sample_rate c \<in> fst ` set SAMPLE_RATES_P1 \<and> 1 \<le> nddc c \<and> nddc c \<le> 8"

lemma rate_sent:
  assumes "in_table c"
  shows "p1_code_to_sample_rate (sample_rate_to_p1_code (sample_rate c) AND 3) = Some (sample_rate c)"
  using assms by (auto simp: in_table_def SAMPLE_RATES_P1_def sample_rate_to_p1_code_def p1_code_to_sample_rate_def)

lemma nddc_cases:
  assumes "1 \<le> (n :: u8)" "n \<le> 8"
  shows "n \<in> {1, 2, 3, 4, 5, 6, 7, 8}"
proof -
  have "unat n = 1 \<or> unat n = 2 \<or> unat n = 3 \<or> unat n = 4 \<or> unat n = 5 \<or> unat n = 6 \<or> unat n = 7 \<or> unat n = 8"
    using assms by (auto simp: word_le_nat_alt)
  then show ?thesis
    by (elim disjE) (drule arg_cong [where f = "of_nat :: nat \<Rightarrow> u8"], simp)+
qed

lemma nddc_sent:
  assumes "in_table c"
  shows "(drop_bit 3 (nddc_bits c OR 4) AND 7) + 1 = nddc c"
  using nddc_cases [of "nddc c"] assms by (auto simp: in_table_def nddc_bits_def max_def word_le_nat_alt)

lemma oc_sent:
  "drop_bit (Suc 0) (if b then push_bit 1 (n2adr_oc_for_freq f) else 0) = (if b then n2adr_oc_for_freq f else 0)"
  by (simp add: n2adr_oc_for_freq_def)

lemma mox_of_c0:
  assumes "c0 \<in> {0x00, 0x02, 0x04, 0x06, 0x08, 0x0A, 0x0C, 0x0E, 0x10, 0x12, 0x14, 0x16, 0x1C}"
  shows "(c0 OR mox_bit c) AND 0xFE = c0" "(c0 OR mox_bit c) AND 1 \<noteq> 0 \<longleftrightarrow> ptt c"
  using assms by (auto simp: mox_bit_def)

text \<open>A command at its address, with the PTT bit.\<close>

lemma set_fields:
  "(if f \<noteq> cs_ptt cs then cs\<lparr>cs_ptt := f\<rparr> else cs) = cs\<lparr>cs_ptt := f\<rparr>"
  "(if tx_frequency cs \<noteq> w then cs\<lparr>tx_frequency := w\<rparr> else cs) = cs\<lparr>tx_frequency := w\<rparr>"
  by (cases cs; simp)+

lemma general_settings [simp]:
  "cs_ptt (control_general c1 c2 c4 cs) = cs_ptt cs"
  "cs_sample_rate (control_general c1 c2 c4 cs) =
     (case p1_code_to_sample_rate (c1 AND 3) of Some r \<Rightarrow> r | None \<Rightarrow> cs_sample_rate cs)"
  "cs_nddc (control_general c1 c2 c4 cs) = (drop_bit 3 c4 AND 7) + 1"
  "oc_outputs (control_general c1 c2 c4 cs) = drop_bit 1 c2"
  "tx_frequency (control_general c1 c2 c4 cs) = tx_frequency cs"
  "rx_frequencies (control_general c1 c2 c4 cs) = rx_frequencies cs"
  "cs_tx_drive (control_general c1 c2 c4 cs) = cs_tx_drive cs"
  "pa_enabled (control_general c1 c2 c4 cs) = pa_enabled cs"
  by (simp_all add: control_general_def set_rate_def Let_def split: option.split)

lemma drive_settings [simp]:
  "cs_ptt (control_drive c1 c2 cs) = cs_ptt cs"
  "cs_sample_rate (control_drive c1 c2 cs) = cs_sample_rate cs"
  "cs_nddc (control_drive c1 c2 cs) = cs_nddc cs"
  "oc_outputs (control_drive c1 c2 cs) = oc_outputs cs"
  "tx_frequency (control_drive c1 c2 cs) = tx_frequency cs"
  "rx_frequencies (control_drive c1 c2 cs) = rx_frequencies cs"
  "cs_tx_drive (control_drive c1 c2 cs) = c1"
  "pa_enabled (control_drive c1 c2 cs) \<longleftrightarrow> c2 AND 8 \<noteq> 0"
  by (simp_all add: control_drive_def Let_def)

definition set_rx :: "nat \<Rightarrow> u32 \<Rightarrow> 'g ClientState \<Rightarrow> 'g ClientState" where
  "set_rx d f cs = (if d < length (rx_frequencies cs) \<and> rx_frequencies cs ! d \<noteq> f
     then cs\<lparr>rx_frequencies := (rx_frequencies cs)[d := f]\<rparr> else cs)"

lemma rx_settings [simp]:
  "cs_ptt (set_rx d f cs) = cs_ptt cs"
  "cs_sample_rate (set_rx d f cs) = cs_sample_rate cs"
  "cs_nddc (set_rx d f cs) = cs_nddc cs"
  "oc_outputs (set_rx d f cs) = oc_outputs cs"
  "tx_frequency (set_rx d f cs) = tx_frequency cs"
  "rx_frequencies (set_rx d f cs) = (rx_frequencies cs)[d := f]"
  "cs_tx_drive (set_rx d f cs) = cs_tx_drive cs"
  "pa_enabled (set_rx d f cs) = pa_enabled cs"
  by (auto simp: set_rx_def list_update_beyond)

definition command_effect :: "u8 \<Rightarrow> u8 \<Rightarrow> u8 \<Rightarrow> u8 \<Rightarrow> u8 \<Rightarrow> 'g ClientState \<Rightarrow> 'g ClientState" where
  "command_effect c0 c1 c2 c3 c4 cs =
     (if c0 = 0x00 then control_general c1 c2 c4 cs
      else if c0 = 0x02 then cs\<lparr>tx_frequency := u32_from_be c1 c2 c3 c4\<rparr>
      else if c0 = 0x12 then control_drive c1 c2 cs
      else if unat c0 < 0x12 then set_rx ((unat c0 - 4) div 2) (u32_from_be c1 c2 c3 c4) cs
      else cs)"

lemma process_command:
  fixes c0 :: u8
  assumes "c0 \<in> {0x00, 0x02, 0x04, 0x06, 0x08, 0x0A, 0x0C, 0x0E, 0x10, 0x12, 0x14, 0x16, 0x1C}"
  shows "snd (process_control cs (c0 OR mox_bit c) c1 c2 c3 c4) =
    command_effect c0 c1 c2 c3 c4 (cs\<lparr>cs_ptt := ptt c\<rparr>)"
proof -
  have m: "(c0 OR mox_bit c) AND 0xFE = c0" "((c0 OR mox_bit c) AND 0x01 \<noteq> 0) = ptt c"
    by (rule mox_of_c0 [OF assms])+
  show ?thesis
    unfolding process_control_def Let_def m set_fields set_rx_def snd_conv command_effect_def
    using assms by (elim insertE emptyE) (simp_all add: word_less_nat_alt word_le_nat_alt)
qed

lemma nddc_bits_idx [simp]: "nddc_bits (c\<lparr>p1_control_idx := k\<rparr>) = nddc_bits c"
  by (simp add: nddc_bits_def)

lemma rotation_commands:
  "rotation_command c 0 = (0x00, sample_rate_to_p1_code (sample_rate c),
     if hw_type (device c) = HermesLite
     then push_bit 1 (n2adr_oc_for_freq (if ptt c then p1_tx_frequency c else p1_rx_frequencies c ! 0)) else 0,
     0, nddc_bits c OR 0x04)"
  "rotation_command c (Suc 0) = (case u32_to_be (p1_tx_frequency c) of (f1, f2, f3, f4) \<Rightarrow> (0x02, f1, f2, f3, f4))"
  "d < 7 \<Longrightarrow> rotation_command c (d + 2) =
     (case u32_to_be (if d < unat (nddc c) then p1_rx_frequencies c ! d else 0) of (f1, f2, f3, f4) \<Rightarrow>
        (0x04 + of_nat d * 2, f1, f2, f3, f4))"
  "fst (rotation_command c 9) = 0x12" "fst (snd (rotation_command c 9)) = tx_drive c"
  "fst (snd (snd (rotation_command c 9))) = (if hw_type (device c) = HermesLite then 0x08 else 0)"
  "i \<in> {10, 11, 12} \<Longrightarrow> fst (rotation_command c i) \<in> {0x14, 0x16, 0x1C}"
proof -
  assume "d < 7"
  moreover from this have "unat (of_nat (d + 2) :: u8) = d + 2"
    by (simp only: unsigned_of_nat) (simp add: take_bit_nat_eq_self)
  ultimately show "rotation_command c (d + 2) =
     (case u32_to_be (if d < unat (nddc c) then p1_rx_frequencies c ! d else 0) of (f1, f2, f3, f4) \<Rightarrow>
        (0x04 + of_nat d * 2, f1, f2, f3, f4))"
    by (simp add: rotation_command_def next_control_command_def Let_def)
qed (auto simp: rotation_command_def next_control_command_def Let_def)

lemma rotation_cases:
  assumes "(i :: nat) < 13"
  obtains "i = 0" | "i = 1" | d where "d < 7" "i = d + 2" | "i = 9" | "i \<in> {10, 11, 12}"
proof -
  consider "i = 0" | "i = 1" | "2 \<le> i" "i \<le> 8" | "i = 9" | "10 \<le> i" by linarith
  then show ?thesis
  proof cases
    case 3
    then show ?thesis using that(3) [of "i - 2"] by simp
  next
    case 5
    then have "i = 10 \<or> i = 11 \<or> i = 12" using assms by linarith
    then show ?thesis using that(5) by blast
  qed (use that in blast)+
qed

lemma rx_address:
  assumes "d < 7"
  shows "(0x04 + of_nat d * 2 :: u8) \<in> {0x04, 0x06, 0x08, 0x0A, 0x0C, 0x0E, 0x10}"
    "unat (0x04 + of_nat d * 2 :: u8) = 4 + d * 2"
proof -
  have "d = 0 \<or> d = 1 \<or> d = 2 \<or> d = 3 \<or> d = 4 \<or> d = 5 \<or> d = 6" using assms by linarith
  then show "(0x04 + of_nat d * 2 :: u8) \<in> {0x04, 0x06, 0x08, 0x0A, 0x0C, 0x0E, 0x10}"
    "unat (0x04 + of_nat d * 2 :: u8) = 4 + d * 2" by (elim disjE; simp)+
qed

lemma from_be_parts: "u32_to_be f = (f1, f2, f3, f4) \<Longrightarrow> u32_from_be f1 f2 f3 f4 = f"
  using u32_be_roundtrip [of f] by simp

lemma rotation_address:
  assumes "i < 13"
  shows "fst (rotation_command c i) \<in> {0x00, 0x02, 0x04, 0x06, 0x08, 0x0A, 0x0C, 0x0E, 0x10, 0x12, 0x14, 0x16, 0x1C}"
  using assms
proof (cases rule: rotation_cases)
  case (3 d)
  have "fst (rotation_command c i) = 0x04 + of_nat d * 2"
    unfolding 3(2) rotation_commands(3) [OF 3(1)] by (simp split: prod.split)
  then have "fst (rotation_command c i) \<in> {0x04, 0x06, 0x08, 0x0A, 0x0C, 0x0E, 0x10}"
    using rx_address(1) [OF 3(1)] by (simp only:)
  then show ?thesis by blast
next
  case 5
  then show ?thesis using rotation_commands(7) [OF 5, of c] by blast
qed (simp_all add: rotation_commands split: prod.split)

text \<open>A command brings its slot in step and disturbs no other.\<close>

lemma command_applied:
  assumes i: "i < 13" and cmd: "rotation_command c i = (c0, c1, c2, c3, c4)"
    and ok: "in_table c" "length (rx_frequencies cs) = 12"
    and cs': "cs' = snd (process_control cs (c0 OR mox_bit c) c1 c2 c3 c4)"
  shows "slot_ok c cs' i \<and> cs_ptt cs' = ptt c \<and> length (rx_frequencies cs') = 12 \<and>
    (\<forall>j. slot_ok c cs j \<longrightarrow> slot_ok c cs' j)"
proof -
  have "c0 \<in> {0x00, 0x02, 0x04, 0x06, 0x08, 0x0A, 0x0C, 0x0E, 0x10, 0x12, 0x14, 0x16, 0x1C}"
    using rotation_address [OF i, of c] cmd by simp
  note p = process_command [OF this, of cs c c1 c2 c3 c4, folded cs', unfolded command_effect_def]
  show ?thesis
    using i
  proof (cases rule: rotation_cases)
    case 1
    then have v: "c0 = 0" "c1 = sample_rate_to_p1_code (sample_rate c)" "c4 = nddc_bits c OR 4"
      "c2 = (if hw_type (device c) = HermesLite
        then push_bit 1 (n2adr_oc_for_freq (if ptt c then p1_tx_frequency c else p1_rx_frequencies c ! 0)) else 0)"
      using cmd by (simp_all add: rotation_commands)
    have "cs' = control_general c1 c2 c4 (cs\<lparr>cs_ptt := ptt c\<rparr>)" using p v by simp
    then show ?thesis
      using 1 ok rate_sent [OF ok(1)] nddc_sent [OF ok(1)]
      by (simp add: v slot_ok_def oc_sent del: push_bit_of_1 push_bit_Suc split del: if_split)
  next
    case 2
    then have v: "c0 = 0x02" "u32_to_be (p1_tx_frequency c) = (c1, c2, c3, c4)"
      using cmd by (auto simp: rotation_commands split: prod.splits)
    then have "cs' = cs\<lparr>cs_ptt := ptt c, tx_frequency := p1_tx_frequency c\<rparr>"
      using p from_be_parts [OF v(2)] by simp
    then show ?thesis using 2 ok by (simp add: slot_ok_def)
  next
    case (3 d)
    then have v: "c0 = 0x04 + of_nat d * 2"
      "u32_to_be (if d < unat (nddc c) then p1_rx_frequencies c ! d else 0) = (c1, c2, c3, c4)"
      using cmd [unfolded 3(2) rotation_commands(3) [OF 3(1)]] by (auto split: prod.splits)
    then have "cs' = set_rx d (if d < unat (nddc c) then p1_rx_frequencies c ! d else 0) (cs\<lparr>cs_ptt := ptt c\<rparr>)"
      using p rx_address [OF 3(1)] 3(1) from_be_parts [OF v(2)] by auto
    then show ?thesis
      using 3 ok by (auto simp: slot_ok_def nth_list_update)
  next
    case 4
    then have "c0 = 0x12" "c1 = tx_drive c" "c2 = (if hw_type (device c) = HermesLite then 0x08 else 0)"
      using cmd rotation_commands(4-6) [of c] by auto
    then show ?thesis using 4 p ok by (simp add: slot_ok_def)
  next
    case 5
    then have "c0 \<in> {0x14, 0x16, 0x1C}" using cmd rotation_commands(7) [OF 5, of c] by auto
    then have "cs' = cs\<lparr>cs_ptt := ptt c\<rparr>" using p by auto
    then show ?thesis using 5 ok by (auto simp: slot_ok_def)
  qed
qed

section \<open>Packets delivered\<close>

text \<open>The emulator handles the data packets among the host's actions in order.\<close>

definition deliver ::
  "'g externals \<Rightarrow> clock \<Rightarrow> clock \<Rightarrow> p1_action list \<Rightarrow> 'g ClientState \<times> EchoBuffer option \<Rightarrow>
   'g ClientState \<times> EchoBuffer option" where
  "deliver E clk clk' acts st = fold (handle_host_data E clk clk') (data_packets acts) st"

lemma slot_settings: "same_settings a b \<Longrightarrow> slot_ok c a j = slot_ok c b j"
  by (simp add: same_settings_def slot_ok_def)

lemma subframe_block:
  assumes "take 8 sf = P1_SYNC @ [a0, a1, a2, a3, a4]" "handle_subframe E clk sf (cs, echo) = (cs', echo')"
  shows "same_settings cs' (snd (process_control cs a0 a1 a2 a3 a4))"
proof -
  have nth: "sf ! j = (P1_SYNC @ [a0, a1, a2, a3, a4]) ! j" if "j < 8" for j
    using assms(1) that by (metis nth_take)
  have "take 3 sf = take 3 (take 8 sf)" by simp
  then have "take 3 sf = SYNC" by (simp add: assms(1) P1_SYNC_def SYNC_def)
  from subframe_settings [OF this assms(2) [unfolded handle_subframe_eq]] show ?thesis
    using nth by (simp add: P1_SYNC_def)
qed

text \<open>What a sub-frame that starts with the \<open>i\<close>-th control block does.\<close>

lemma block_effect:
  assumes "take 8 sf = control_block c i" "i < 13" "in_table c" "length (rx_frequencies cs) = 12"
    and "handle_subframe E clk sf (cs, echo) = (cs', echo')"
  shows "slot_ok c cs' i \<and> cs_ptt cs' = ptt c \<and> length (rx_frequencies cs') = 12 \<and>
    (\<forall>j. slot_ok c cs j \<longrightarrow> slot_ok c cs' j)"
proof -
  obtain c0 c1 c2 c3 c4 where cmd: "rotation_command c i = (c0, c1, c2, c3, c4)" by (metis prod_cases5)
  define cs1 where "cs1 = snd (process_control cs (c0 OR mox_bit c) c1 c2 c3 c4)"
  have same: "same_settings cs' cs1"
    unfolding cs1_def by (rule subframe_block [OF _ assms(5)]) (simp add: assms(1) control_block_def cmd)
  have "cs_ptt cs' = cs_ptt cs1" "rx_frequencies cs' = rx_frequencies cs1"
    using same by (simp_all add: same_settings_def)
  then show ?thesis
    using command_applied [OF assms(2) cmd assms(3,4) cs1_def] by (simp add: slot_settings [OF same])
qed

lemma packet_effect:
  assumes "length pkt = 1032" "take 8 (drop 8 pkt) = control_block c i" "take 8 (drop 520 pkt) = control_block c i'"
    and "i < 13" "i' < 13" "in_table c" "length (rx_frequencies cs) = 12"
    and "handle_host_data E clk clk' pkt (cs, echo) = (cs', echo')"
  shows "slot_ok c cs' i \<and> slot_ok c cs' i' \<and> cs_ptt cs' = ptt c \<and> length (rx_frequencies cs') = 12 \<and>
    (\<forall>j. slot_ok c cs j \<longrightarrow> slot_ok c cs' j)"
proof -
  obtain cs1 echo1 where h1: "handle_subframe E clk (subframe_at pkt 8) (cs, echo) = (cs1, echo1)" by force
  have h2: "handle_subframe E clk' (subframe_at pkt 520) (cs1, echo1) = (cs', echo')"
    using assms(1,8) h1 by (simp add: handle_host_data_def PACKET_SIZE_def)
  have "take 8 (subframe_at pkt 8) = control_block c i" "take 8 (subframe_at pkt 520) = control_block c i'"
    using assms(2,3) by (simp_all add: subframe_at_def SUBFRAME_SIZE_def)
  then show ?thesis
    using block_effect [OF _ assms(4,6,7) h1] block_effect [OF _ assms(5,6) _ h2] by blast
qed

section \<open>The rotation brings the radio in step\<close>

text \<open>The host sends a data packet and the emulator handles it.\<close>

definition host_turn ::
  "'g externals \<Rightarrow> 'c ring_ops \<Rightarrow> clock \<times> clock \<Rightarrow> 'c Protocol1Client \<times> 'g ClientState \<times> EchoBuffer option \<Rightarrow>
   'c Protocol1Client \<times> 'g ClientState \<times> EchoBuffer option" where
  "host_turn E R clks st = (case st of (c, radio) \<Rightarrow>
     (case send_host_data_packet R (\<lambda>_. None) c of
        (acts, Inr c') \<Rightarrow> (c', deliver E (fst clks) (snd clks) acts radio)
      | (acts, Inl e) \<Rightarrow> (c, radio)))"

lemma slot_same: "same_config a b \<Longrightarrow> slot_ok a cs j = slot_ok b cs j"
  by (simp add: same_config_def slot_ok_def)

lemma turn_effect:
  assumes "host_turn E R clks (c, cs, echo) = (c', cs', echo')"
    and "length (host_pkt_buf c) = 1032" "p1_control_idx c = of_nat i" "i < 13"
    and "in_table c" "length (rx_frequencies cs) = 12"
  shows "length (host_pkt_buf c') = 1032 \<and> p1_control_idx c' = of_nat ((i + 2) mod 13) \<and> same_config c' c \<and>
    length (rx_frequencies cs') = 12 \<and> cs_ptt cs' = ptt c \<and>
    slot_ok c cs' i \<and> slot_ok c cs' ((i + 1) mod 13) \<and> (\<forall>j. slot_ok c cs j \<longrightarrow> slot_ok c cs' j)"
proof -
  obtain pkt c1 where p: "send_host_data_packet R (\<lambda>_. None) c = transport_send (\<lambda>_. None) pkt c1"
    "length pkt = 1032" "host_pkt_buf c1 = pkt" "same_config c1 c" "p1_control_idx c1 = of_nat ((i + 2) mod 13)"
    "take 8 pkt = [0xEF, 0xFE, 0x01, 0x02] @ seq_bytes (tx_seq c)"
    "take 8 (drop 8 pkt) = control_block c i" "take 8 (drop 520 pkt) = control_block c ((i + 1) mod 13)"
    using host_packet [OF assms(2-4), of R "\<lambda>_. None"] by blast
  have "pkt ! 2 = 0x01" using arg_cong [OF p(6), of "\<lambda>xs. xs ! 2"] by simp
  then have "c' = c1" "handle_host_data E (fst clks) (snd clks) pkt (cs, echo) = (cs', echo')"
    using assms(1) p(1) by (simp_all add: host_turn_def deliver_def)
  then show ?thesis
    using p packet_effect [OF p(2,7,8) assms(4) _ assms(5,6), of E "fst clks" "snd clks" echo cs' echo'] by simp
qed

lemma turns_effect:
  assumes "fold (host_turn E R) clocks (c, cs, echo) = (c', cs', echo')"
    and "length (host_pkt_buf c) = 1032" "p1_control_idx c = of_nat i" "i < 13"
    and "in_table c" "length (rx_frequencies cs) = 12"
  shows "same_config c' c \<and> (clocks \<noteq> [] \<longrightarrow> cs_ptt cs' = ptt c) \<and>
    (\<forall>k < 2 * length clocks. slot_ok c cs' ((i + k) mod 13)) \<and> (\<forall>j. slot_ok c cs j \<longrightarrow> slot_ok c cs' j)"
  using assms
proof (induction clocks arbitrary: c cs echo i)
  case (Cons clks clocks)
  obtain c1 cs1 echo1 where t: "host_turn E R clks (c, cs, echo) = (c1, cs1, echo1)" by (metis prod_cases3)
  note T = turn_effect [OF t Cons.prems(2-6)]
  have rest: "fold (host_turn E R) clocks (c1, cs1, echo1) = (c', cs', echo')" using Cons.prems(1) t by simp
  have "in_table c1" using T Cons.prems(5) by (simp add: same_config_def in_table_def)
  then have IH: "same_config c' c1" "clocks \<noteq> [] \<Longrightarrow> cs_ptt cs' = ptt c1"
    "\<forall>k < 2 * length clocks. slot_ok c1 cs' (((i + 2) mod 13 + k) mod 13)"
    "\<forall>j. slot_ok c1 cs1 j \<longrightarrow> slot_ok c1 cs' j"
    using Cons.IH [OF rest, of "(i + 2) mod 13"] T by simp_all
  have s: "slot_ok c1 cs1 j = slot_ok c cs1 j" "slot_ok c1 cs' j = slot_ok c cs' j" for j
    using T slot_same by blast+
  have later: "slot_ok c cs1 j \<Longrightarrow> slot_ok c cs' j" for j using IH(4) by (simp add: s)
  have "slot_ok c cs' ((i + k) mod 13)" if k: "k < 2 * Suc (length clocks)" for k
  proof -
    consider "k = 0" | "k = 1" | k' where "k = k' + 2" "k' < 2 * length clocks"
    proof (cases "k < 2")
      case False
      then show ?thesis using that(3) [of "k - 2"] k by simp
    qed (use that in linarith)
    then show ?thesis
    proof cases
      case 1
      then show ?thesis using T later Cons.prems(4) by simp
    next
      case 2
      then show ?thesis using T later by simp
    next
      case (3 k')
      then have "slot_ok c cs' (((i + 2) mod 13 + k') mod 13)" using IH(3) by (simp add: s)
      moreover have "((i + 2) mod 13 + k') mod 13 = (i + k) mod 13" using 3 by (simp add: mod_simps add_ac)
      ultimately show ?thesis by simp
    qed
  qed
  moreover have "cs_ptt cs' = ptt c"
    using T IH(2) rest by (cases clocks) (auto simp: same_config_def)
  ultimately show ?case using T IH(1) later by (auto intro: same_config_trans)
qed simp

text \<open>The radio's settings are those of the host.\<close>

definition tuned :: "'c Protocol1Client \<Rightarrow> 'g ClientState \<Rightarrow> bool" where
  "tuned c cs \<longleftrightarrow>
     cs_ptt cs = ptt c \<and> cs_sample_rate cs = sample_rate c \<and> cs_nddc cs = nddc c \<and>
     tx_frequency cs = p1_tx_frequency c \<and> cs_tx_drive cs = tx_drive c \<and>
     (\<forall>d < min (unat (nddc c)) 7. rx_frequencies cs ! d = p1_rx_frequencies c ! d) \<and>
     pa_enabled cs = (hw_type (device c) = HermesLite)"

definition in_step :: "'c Protocol1Client \<Rightarrow> 'g ClientState \<Rightarrow> bool" where
  "in_step c cs \<longleftrightarrow> tuned c cs \<and>
     oc_outputs cs = (if hw_type (device c) = HermesLite
       then n2adr_oc_for_freq (if ptt c then p1_tx_frequency c else p1_rx_frequencies c ! 0) else 0)"

lemma in_step_slots: "cs_ptt cs = ptt c \<Longrightarrow> \<forall>j < 13. slot_ok c cs j \<Longrightarrow> in_step c cs"
proof -
  assume ptt: "cs_ptt cs = ptt c" and slots: "\<forall>j < 13. slot_ok c cs j"
  have "rx_frequencies cs ! d = p1_rx_frequencies c ! d" if "d < min (unat (nddc c)) 7" for d
    using slots [rule_format, of "d + 2"] that by (simp add: slot_ok_def)
  then show ?thesis
    using slots [rule_format, of 0] slots [rule_format, of 1] slots [rule_format, of 9] ptt
    by (simp add: slot_ok_def in_step_def tuned_def)
qed

text \<open>C27: Whatever state the host's loop has reached (with a supported sample rate and at most eight
  receivers set) and whatever settings the radio has, once the radio has handled seven or more of
  the host's packets in a row, its settings are the host's: PTT, sample rate, number of receivers,
  the transmit frequency, the frequencies of the first seven receivers, drive, power amplifier and
  filter outputs. The rotation never sends the frequency of an eighth receiver.\<close>

theorem control_rotation_syncs:
  assumes "host_running R d r" "in_table (rs_client r)" "length (rx_frequencies cs) = 12"
    and "fold (host_turn E R) clocks (rs_client r, cs, echo) = (c', cs', echo')" "7 \<le> length clocks"
  shows "in_step (rs_client r) cs'"
proof -
  obtain i where i: "p1_control_idx (rs_client r) = of_nat i" "i < 13"
    using running_ok [OF assms(1)] by (auto simp: client_ok_def)
  have "length (host_pkt_buf (rs_client r)) = 1032" using running_ok [OF assms(1)] by (simp add: client_ok_def)
  note T = turns_effect [OF assms(4) this i assms(2,3)]
  have "slot_ok (rs_client r) cs' j" if "j < 13" for j
  proof -
    have "(i + (j + 13 - i) mod 13) mod 13 = j"
      using that i(2) by (simp add: mod_add_right_eq)
    moreover have "(j + 13 - i) mod 13 < 2 * length clocks"
      using assms(5) mod_less_divisor [of 13 "j + 13 - i"] by linarith
    ultimately show ?thesis using T by metis
  qed
  moreover have "cs_ptt cs' = ptt (rs_client r)" using T assms(5) by auto
  ultimately show ?thesis by (intro in_step_slots) auto
qed

theorem control_rotation_syncs_witness:
  "\<exists>(r :: Cx list run_state) c' cs' echo'. fold (host_turn plain_externals list_ring) (replicate 7 ((0, 0, 0), (0, 0, 0)))
      (rs_client r, new_client (1, 1) \<lparr>cfg_sample_rate = 192000, cfg_noise_level = Fin 0\<rparr> (), None) = (c', cs', echo') \<and>
    cs_sample_rate cs' = 48000 \<and> oc_outputs cs' = 68"
proof -
  obtain acts0 c r where demo: "host_ready demo_device (connect demo_device :: Cx list Protocol1Client)"
    "start (\<lambda>_. None) (connect demo_device :: Cx list Protocol1Client) = (acts0, Inr c)"
    "renumbered ((connect demo_device)\<lparr>running := True\<rparr>) c" "run_init 0 0 c = Some r" "rs_client r = c"
    by (rule demo_run)
  note f = renumbered_fields [OF demo(3)]
  have run: "host_running list_ring demo_device r" using demo(1,2,4) by (rule host_running.begun)
  have table: "in_table (rs_client r)" using f demo(5) by (simp add: in_table_def connect_def SAMPLE_RATES_P1_def)
  obtain c' cs' echo' where t: "fold (host_turn plain_externals list_ring) (replicate 7 ((0, 0, 0), (0, 0, 0)))
      (rs_client r, new_client (1, 1) \<lparr>cfg_sample_rate = 192000, cfg_noise_level = Fin 0\<rparr> (), None) = (c', cs', echo')"
    by (metis prod_cases3)
  have "in_step (rs_client r) cs'"
    by (rule control_rotation_syncs [OF run table _ t]) (simp_all add: new_client_def)
  then have "cs_sample_rate cs' = 48000" "oc_outputs cs' = 68"
    using f demo(5) by (simp_all add: in_step_def tuned_def connect_def demo_device_def n2adr_oc_for_freq_def)
  then show ?thesis using t by blast
qed

section \<open>The configuration sent at the start\<close>

text \<open>A control packet: the command of the first sub-frame, then rate and receivers.\<close>

lemma control_packet_effect:
  assumes "length pkt = 1032" "take 8 (drop 8 pkt) = P1_SYNC @ [c0 OR mox_bit c, c1, c2, c3, c4]"
    and "take 8 (drop 520 pkt) = P1_SYNC @ [mox_bit c, sample_rate_to_p1_code (sample_rate c), 0, 0, nddc_bits c OR 0x04]"
    and c0: "c0 \<in> {0x00, 0x02, 0x04, 0x06, 0x08, 0x0A, 0x0C, 0x0E, 0x10, 0x12, 0x14, 0x16, 0x1C}"
    and "in_table c" "handle_host_data E clk clk' pkt (cs, echo) = (cs', echo')"
  shows "cs_ptt cs' = ptt c \<and> cs_sample_rate cs' = sample_rate c \<and> cs_nddc cs' = nddc c \<and>
    tx_frequency cs' = (if c0 = 0x02 then u32_from_be c1 c2 c3 c4 else tx_frequency cs) \<and>
    rx_frequencies cs' = (if 0x04 \<le> c0 \<and> c0 < 0x12 then (rx_frequencies cs)[(unat c0 - 4) div 2 := u32_from_be c1 c2 c3 c4]
      else rx_frequencies cs) \<and>
    cs_tx_drive cs' = (if c0 = 0x12 then c1 else cs_tx_drive cs) \<and>
    pa_enabled cs' = (if c0 = 0x12 then c2 AND 8 \<noteq> 0 else pa_enabled cs)"
proof -
  obtain cs1 echo1 where h1: "handle_subframe E clk (subframe_at pkt 8) (cs, echo) = (cs1, echo1)" by force
  have h2: "handle_subframe E clk' (subframe_at pkt 520) (cs1, echo1) = (cs', echo')"
    using assms(1,6) h1 by (simp add: handle_host_data_def PACKET_SIZE_def)
  have t: "take 8 (subframe_at pkt 8) = P1_SYNC @ [c0 OR mox_bit c, c1, c2, c3, c4]"
    "take 8 (subframe_at pkt 520) = P1_SYNC @ [0x00 OR mox_bit c, sample_rate_to_p1_code (sample_rate c), 0, 0, nddc_bits c OR 0x04]"
    using assms(2,3) by (simp_all add: subframe_at_def SUBFRAME_SIZE_def)
  have s1: "same_settings cs1 (command_effect c0 c1 c2 c3 c4 (cs\<lparr>cs_ptt := ptt c\<rparr>))"
    using subframe_block [OF t(1) h1] unfolding process_command [OF c0] .
  have "same_settings cs' (command_effect 0x00 (sample_rate_to_p1_code (sample_rate c)) 0 0 (nddc_bits c OR 0x04) (cs1\<lparr>cs_ptt := ptt c\<rparr>))"
    using subframe_block [OF t(2) h2] process_command [of "0x00" cs1 c] by simp
  then have s2: "same_settings cs' (control_general (sample_rate_to_p1_code (sample_rate c)) 0 (nddc_bits c OR 0x04) (cs1\<lparr>cs_ptt := ptt c\<rparr>))"
    by (simp add: command_effect_def)
  have "tx_frequency cs1 = (if c0 = 0x02 then u32_from_be c1 c2 c3 c4 else tx_frequency cs)"
    "rx_frequencies cs1 = (if 0x04 \<le> c0 \<and> c0 < 0x12 then (rx_frequencies cs)[(unat c0 - 4) div 2 := u32_from_be c1 c2 c3 c4]
      else rx_frequencies cs)"
    "cs_tx_drive cs1 = (if c0 = 0x12 then c1 else cs_tx_drive cs)"
    "pa_enabled cs1 = (if c0 = 0x12 then c2 AND 8 \<noteq> 0 else pa_enabled cs)"
    using s1 c0 unfolding same_settings_def by (elim insertE emptyE; simp add: command_effect_def)+
  then show ?thesis
    using s2 rate_sent [OF assms(5)] nddc_sent [OF assms(5)] unfolding same_settings_def by simp
qed

lemma deliver_append: "deliver E clk clk' (a @ b) st = deliver E clk clk' b (deliver E clk clk' a st)"
  by (simp add: deliver_def)

lemma deliver_cons:
  assumes "take 8 pkt = [0xEF, 0xFE, 0x01, 0x02] @ bs"
  shows "deliver E clk clk' (SendPacket pkt a # acts) st = deliver E clk clk' acts (handle_host_data E clk clk' pkt st)"
proof -
  have "pkt ! 2 = 0x01" using arg_cong [OF assms, of "\<lambda>xs. xs ! 2"] by simp
  then show ?thesis by (simp add: deliver_def)
qed

lemma renumbered_config:
  assumes "renumbered c c'"
  shows "mox_bit c' = mox_bit c" "nddc_bits c' = nddc_bits c" "in_table c' = in_table c"
  using renumbered_fields [OF assms] by (simp_all add: mox_bit_def nddc_bits_def in_table_def)

text \<open>The frequencies of the receivers \<open>m\<close> to \<open>n - 1\<close>, at most seven.\<close>

lemma rx_config_effect:
  assumes "length (ctrl_pkt_buf c) = 1032" "in_table c" "m \<le> n" "n \<le> 7" "length (rx_frequencies cs) = 12"
    and "send_rx_config (\<lambda>_. None) [m..<n] c = (acts, Inr c')"
    and "deliver E clk clk' acts (cs, echo) = (cs', echo')"
    and "m = n \<longrightarrow> cs_ptt cs = ptt c \<and> cs_sample_rate cs = sample_rate c \<and> cs_nddc cs = nddc c"
  shows "cs_ptt cs' = ptt c \<and> cs_sample_rate cs' = sample_rate c \<and> cs_nddc cs' = nddc c \<and>
    tx_frequency cs' = tx_frequency cs \<and> cs_tx_drive cs' = cs_tx_drive cs \<and> pa_enabled cs' = pa_enabled cs \<and>
    length (rx_frequencies cs') = 12 \<and>
    (\<forall>d < 12. rx_frequencies cs' ! d = (if m \<le> d \<and> d < n then p1_rx_frequencies c ! d else rx_frequencies cs ! d))"
  using assms
proof (induction "n - m" arbitrary: m c cs echo acts)
  case 0
  then show ?case by (auto simp: deliver_def)
next
  case (Suc k)
  then have m: "m < n" "m < 7" "[m..<n] = m # [Suc m..<n]" by (simp_all add: upt_conv_Cons)
  obtain f1 f2 f3 f4 where f: "u32_to_be (p1_rx_frequencies c ! m) = (f1, f2, f3, f4)" by (metis prod_cases4)
  obtain pkt c1 where c1: "send_control (\<lambda>_. None) (0x04 + of_nat m * 2) f1 f2 f3 f4 c =
      ([SendPacket pkt (addr (device c))], Inr c1)" "renumbered c c1" "length pkt = 1032"
    "take 8 pkt = [0xEF, 0xFE, 0x01, 0x02] @ seq_bytes (tx_seq c)"
    "take 8 (drop 8 pkt) = P1_SYNC @ [(0x04 + of_nat m * 2) OR mox_bit c, f1, f2, f3, f4]"
    "take 8 (drop 520 pkt) = P1_SYNC @ [mox_bit c, sample_rate_to_p1_code (sample_rate c), 0, 0, nddc_bits c OR 0x04]"
    by (rule control_sent [OF Suc.prems(1)]) blast
  note r1 = renumbered_fields [OF c1(2)]
  obtain acts1 where a1: "send_rx_config (\<lambda>_. None) [Suc m..<n] c1 = (acts1, Inr c')"
    "acts = SendPacket pkt (addr (device c)) # acts1"
    using Suc.prems(6) c1(1) unfolding m(3) by (auto simp: f and_then_def split: prod.splits sum.splits)
  obtain cs1 echo1 where h1: "handle_host_data E clk clk' pkt (cs, echo) = (cs1, echo1)" by force
  have rest: "deliver E clk clk' acts1 (cs1, echo1) = (cs', echo')"
    using Suc.prems(7) h1 by (simp add: a1(2) deliver_cons [OF c1(4)])
  have a: "(0x04 + of_nat m * 2 :: u8) \<in> {0x00, 0x02, 0x04, 0x06, 0x08, 0x0A, 0x0C, 0x0E, 0x10, 0x12, 0x14, 0x16, 0x1C}"
    using rx_address(1) [OF m(2)] by blast
  have n: "(0x04 + of_nat m * 2 :: u8) \<noteq> 0x02" "(0x04 + of_nat m * 2 :: u8) \<noteq> 0x12"
    "(0x04 :: u8) \<le> 0x04 + of_nat m * 2" "(0x04 + of_nat m * 2 :: u8) < 0x12"
    using rx_address [OF m(2)] m(2) by (auto simp: word_le_nat_alt word_less_nat_alt)
  have e1: "cs_ptt cs1 = ptt c \<and> cs_sample_rate cs1 = sample_rate c \<and> cs_nddc cs1 = nddc c \<and>
      tx_frequency cs1 = tx_frequency cs \<and> rx_frequencies cs1 = (rx_frequencies cs)[m := p1_rx_frequencies c ! m] \<and>
      cs_tx_drive cs1 = cs_tx_drive cs \<and> pa_enabled cs1 = pa_enabled cs"
    using control_packet_effect [OF c1(3,5,6) a Suc.prems(2) h1] n rx_address(2) [OF m(2)] from_be_parts [OF f]
    by simp
  have "k = n - Suc m" "Suc m \<le> n" "in_table c1" "length (rx_frequencies cs1) = 12"
    using Suc.hyps(2) m(1) Suc.prems(2,5) renumbered_config(3) [OF c1(2)] e1 by simp_all
  note IH = Suc.hyps(1) [OF this(1) r1(1) this(3,2) Suc.prems(4) this(4) a1(1) rest]
  have "m \<le> d \<and> d < n \<longleftrightarrow> d = m \<or> Suc m \<le> d \<and> d < n" for d using m(1) by auto
  then show ?case using IH e1 r1 Suc.prems(5) by (auto simp: nth_list_update)
qed

text \<open>The packet with the eighth receiver's frequency goes to the address of the drive.\<close>

lemma eighth_effect:
  assumes "length (ctrl_pkt_buf c) = 1032" "in_table c"
    and "send_rx_config (\<lambda>_. None) [7] c = (acts, Inr c')"
    and "u32_to_be (p1_rx_frequencies c ! 7) = (f1, f2, f3, f4)"
    and "deliver E clk clk' acts (cs, echo) = (cs', echo')"
  shows "cs_tx_drive cs' = f1 \<and> pa_enabled cs' = (f2 AND 8 \<noteq> 0) \<and> rx_frequencies cs' = rx_frequencies cs \<and>
    tx_frequency cs' = tx_frequency cs \<and>
    cs_ptt cs' = ptt c \<and> cs_sample_rate cs' = sample_rate c \<and> cs_nddc cs' = nddc c"
proof -
  obtain pkt c1 where c1: "send_control (\<lambda>_. None) 0x12 f1 f2 f3 f4 c = ([SendPacket pkt (addr (device c))], Inr c1)"
    "renumbered c c1" "length pkt = 1032" "take 8 pkt = [0xEF, 0xFE, 0x01, 0x02] @ seq_bytes (tx_seq c)"
    "take 8 (drop 8 pkt) = P1_SYNC @ [0x12 OR mox_bit c, f1, f2, f3, f4]"
    "take 8 (drop 520 pkt) = P1_SYNC @ [mox_bit c, sample_rate_to_p1_code (sample_rate c), 0, 0, nddc_bits c OR 0x04]"
    by (rule control_sent [OF assms(1)]) blast
  have "acts = [SendPacket pkt (addr (device c))]"
    using assms(3) c1(1) by (simp add: assms(4) and_then_def)
  then have "handle_host_data E clk clk' pkt (cs, echo) = (cs', echo')"
    using assms(5) by (simp add: deliver_cons [OF c1(4)]) (simp add: deliver_def)
  from control_packet_effect [OF c1(3,5,6) _ assms(2) this] show ?thesis by simp
qed

lemma rx_config_append:
  assumes "send_rx_config (\<lambda>_. None) (is @ js) c = (acts, Inr c')"
  obtains acts1 c1 acts2 where "send_rx_config (\<lambda>_. None) is c = (acts1, Inr c1)"
    "send_rx_config (\<lambda>_. None) js c1 = (acts2, Inr c')" "acts = acts1 @ acts2"
  using assms
proof (induction "is" arbitrary: c acts thesis)
  case (Cons i "is")
  obtain f1 f2 f3 f4 where f: "u32_to_be (p1_rx_frequencies c ! i) = (f1, f2, f3, f4)" by (metis prod_cases4)
  obtain a b where s: "send_control (\<lambda>_. None) (0x04 + of_nat i * 2) f1 f2 f3 f4 c = (a, b)" by force
  then obtain c1 a1 where b: "b = Inr c1" "send_rx_config (\<lambda>_. None) (is @ js) c1 = (a1, Inr c')" "acts = a @ a1"
    using Cons.prems(2) by (auto simp: f and_then_def split: sum.splits prod.splits)
  show ?case
    by (rule Cons.IH [OF _ b(2)]) (use Cons.prems(1) s b in \<open>auto simp: f and_then_def\<close>)
qed auto

lemma rx_config_tuned:
  assumes "length (ctrl_pkt_buf c) = 1032" "in_table c" "length (rx_frequencies cs) = 12"
    and "send_rx_config (\<lambda>_. None) [0..<min (unat (nddc c)) 8] c = (acts, Inr c')"
    and "deliver E clk clk' acts (cs, echo) = (cs', echo')"
  shows "tx_frequency cs' = tx_frequency cs \<and>
    (\<forall>d < min (unat (nddc c)) 7. rx_frequencies cs' ! d = p1_rx_frequencies c ! d)"
proof (cases "unat (nddc c) \<le> 7")
  case True
  moreover have "0 < unat (nddc c)" using assms(2) by (simp add: in_table_def word_le_nat_alt)
  ultimately show ?thesis
    using rx_config_effect [OF assms(1,2) _ _ assms(3,4,5)] by simp
next
  case False
  moreover have "unat (nddc c) \<le> 8" using assms(2) by (simp add: in_table_def word_le_nat_alt)
  ultimately have n: "[0..<min (unat (nddc c)) 8] = [0..<7] @ [7]" by (simp add: upt_rec)
  obtain acts1 c1 acts2 where s: "send_rx_config (\<lambda>_. None) [0..<7] c = (acts1, Inr c1)"
    "send_rx_config (\<lambda>_. None) [7] c1 = (acts2, Inr c')" "acts = acts1 @ acts2"
    using rx_config_append [OF assms(4) [unfolded n]] by metis
  have "renumbered c c1" using rx_config_sent [OF assms(1), of "[0..<7]"] s(1) by auto
  note r = renumbered_fields [OF this] renumbered_config [OF this]
  obtain cs1 echo1 where d1: "deliver E clk clk' acts1 (cs, echo) = (cs1, echo1)" by force
  have d2: "deliver E clk clk' acts2 (cs1, echo1) = (cs', echo')"
    using assms(5) d1 by (simp add: s(3) deliver_append)
  obtain f1 f2 f3 f4 where f: "u32_to_be (p1_rx_frequencies c1 ! 7) = (f1, f2, f3, f4)" by (metis prod_cases4)
  show ?thesis
    using eighth_effect [OF r(1) _ s(2) f d2] rx_config_effect [OF assms(1,2) _ _ assms(3) s(1) d1] r assms(2)
    by simp
qed

text \<open>C40: A host set to eight receivers: after the frequencies sent by its configuration, the radio's
  drive is the top byte of the eighth receiver's frequency, its power amplifier is switched by
  another bit of it, and the eighth receiver's frequency has not arrived.\<close>

theorem eighth_receiver_overwrites_drive:
  assumes "host_ready d c" "sample_rate c \<in> fst ` set SAMPLE_RATES_P1" "length (rx_frequencies cs) = 12"
    and "nddc c = 8" "send_rx_config (\<lambda>_. None) [0..<min (unat (nddc c)) 8] c = (acts, Inr c')"
    and "u32_to_be (p1_rx_frequencies c ! 7) = (f1, f2, f3, f4)"
    and "deliver E clk clk' acts (cs, echo) = (cs', echo')"
  shows "cs_tx_drive cs' = f1 \<and> pa_enabled cs' = (f2 AND 8 \<noteq> 0) \<and>
    rx_frequencies cs' ! 7 = rx_frequencies cs ! 7 \<and> (\<forall>d < 7. rx_frequencies cs' ! d = p1_rx_frequencies c ! d)"
proof -
  have table: "in_table c" using assms(2,4) by (simp add: in_table_def)
  have len: "length (ctrl_pkt_buf c) = 1032" using ready_ok [OF assms(1)] by (simp add: client_ok_def)
  have "[0..<8] = [0..<7] @ [7 :: nat]" by (simp add: upt_rec)
  moreover have "send_rx_config (\<lambda>_. None) [0..<8] c = (acts, Inr c')" using assms(4,5) by simp
  ultimately obtain acts1 c1 acts2 where s: "send_rx_config (\<lambda>_. None) [0..<7] c = (acts1, Inr c1)"
    "send_rx_config (\<lambda>_. None) [7] c1 = (acts2, Inr c')" "acts = acts1 @ acts2"
    using rx_config_append [of "[0..<7]" "[7]" c acts c'] by metis
  have "renumbered c c1" using rx_config_sent [OF len, of "[0..<7]"] s(1) by auto
  note r = renumbered_fields [OF this] renumbered_config [OF this]
  obtain cs1 echo1 where d1: "deliver E clk clk' acts1 (cs, echo) = (cs1, echo1)" by force
  have d2: "deliver E clk clk' acts2 (cs1, echo1) = (cs', echo')"
    using assms(7) d1 by (simp add: s(3) deliver_append)
  have "u32_to_be (p1_rx_frequencies c1 ! 7) = (f1, f2, f3, f4)" using assms(6) r(5) by simp
  note e2 = eighth_effect [OF r(1) _ s(2) this d2]
  note e1 = rx_config_effect [OF len table _ _ assms(3) s(1) d1]
  show ?thesis using e1 e2 table r by simp
qed

theorem eighth_receiver_overwrites_drive_witness:
  "\<exists>acts c' cs' echo'. send_rx_config (\<lambda>_. None) [0..<8]
      (set_tx_drive 200 (set_nddc 8 (connect demo_device :: Cx list Protocol1Client))) = (acts, Inr c') \<and>
    deliver plain_externals (0, 0, 0) (0, 0, 0) acts
      (new_client (1, 1) \<lparr>cfg_sample_rate = 48000, cfg_noise_level = Fin 0\<rparr> (), None) = (cs', echo') \<and>
    cs_tx_drive cs' = 0 \<and> pa_enabled cs'"
proof -
  let ?c = "set_tx_drive 200 (set_nddc 8 (connect demo_device :: Cx list Protocol1Client))"
  let ?cs = "new_client (1, 1) \<lparr>cfg_sample_rate = 48000, cfg_noise_level = Fin 0\<rparr> ()"
  have ready: "host_ready demo_device ?c" by (intro host_ready.intros)
  then have "length (ctrl_pkt_buf ?c) = 1032" using ready_ok by (auto simp: client_ok_def)
  from rx_config_sent [OF this, of "[0..<8]"] obtain acts c' where s: "send_rx_config (\<lambda>_. None) [0..<8] ?c = (acts, Inr c')"
    by blast
  obtain cs' echo' where d: "deliver plain_externals (0, 0, 0) (0, 0, 0) acts (?cs, None) = (cs', echo')" by force
  have f: "nddc ?c = 8" "sample_rate ?c \<in> fst ` set SAMPLE_RATES_P1" "length (rx_frequencies ?cs) = 12"
    "u32_to_be (p1_rx_frequencies ?c ! 7) = (0x00, 0x6B, 0xF0, 0xD0)"
    by (simp_all add: set_tx_drive_def set_nddc_def connect_def SAMPLE_RATES_P1_def new_client_def max_def
        u32_to_be_def word_le_nat_alt)
  have "send_rx_config (\<lambda>_. None) [0..<min (unat (nddc ?c)) 8] ?c = (acts, Inr c')" using s f(1) by simp
  from eighth_receiver_overwrites_drive [OF ready f(2,3,1) this f(4) d] show ?thesis using s d by auto
qed

text \<open>The packets of the start, once the radio has handled them, leave it with the host's PTT, rate,
  number of receivers, frequencies (of seven receivers), drive and power amplifier.\<close>

theorem start_configures:
  assumes "host_ready d c" "in_table c" "length (rx_frequencies cs) = 12"
    and "start (\<lambda>_. None) c = (acts, Inr c')"
    and "deliver E clk clk' acts (cs, echo) = (cs', echo')"
  shows "tuned c cs'"
proof -
  let ?c = "c\<lparr>running := True\<rparr>"
  have len: "length (ctrl_pkt_buf ?c) = 1032" using ready_ok [OF assms(1)] by (simp add: client_ok_def)
  have table: "in_table ?c" using assms(2) by (simp add: in_table_def)
  obtain t1 t2 t3 t4 where t: "u32_to_be (p1_tx_frequency c) = (t1, t2, t3, t4)" by (metis prod_cases4)
  obtain p1 c1 where c1: "send_control (\<lambda>_. None) 0x00 (sample_rate_to_p1_code (sample_rate ?c)) 0 0 (nddc_bits ?c OR 0x04) ?c =
      ([SendPacket p1 (addr (device ?c))], Inr c1)" "renumbered ?c c1" "length p1 = 1032"
    "take 8 p1 = [0xEF, 0xFE, 0x01, 0x02] @ seq_bytes (tx_seq ?c)"
    "take 8 (drop 8 p1) = P1_SYNC @ [0x00 OR mox_bit ?c, sample_rate_to_p1_code (sample_rate ?c), 0, 0, nddc_bits ?c OR 0x04]"
    "take 8 (drop 520 p1) = P1_SYNC @ [mox_bit ?c, sample_rate_to_p1_code (sample_rate ?c), 0, 0, nddc_bits ?c OR 0x04]"
    by (rule control_sent [OF len]) blast
  note r1 = renumbered_fields [OF c1(2)] renumbered_config [OF c1(2)]
  obtain p2 c2 where c2: "send_control (\<lambda>_. None) 0x02 t1 t2 t3 t4 c1 = ([SendPacket p2 (addr (device c1))], Inr c2)"
    "renumbered c1 c2" "length p2 = 1032" "take 8 p2 = [0xEF, 0xFE, 0x01, 0x02] @ seq_bytes (tx_seq c1)"
    "take 8 (drop 8 p2) = P1_SYNC @ [0x02 OR mox_bit c1, t1, t2, t3, t4]"
    "take 8 (drop 520 p2) = P1_SYNC @ [mox_bit c1, sample_rate_to_p1_code (sample_rate c1), 0, 0, nddc_bits c1 OR 0x04]"
    by (rule control_sent [OF r1(1)]) blast
  note r2 = renumbered_fields [OF c2(2)] renumbered_config [OF c2(2)]
  obtain acts3 c3 where c3: "send_rx_config (\<lambda>_. None) [0..<min (unat (nddc c2)) 8] c2 = (acts3, Inr c3)" "renumbered c2 c3"
    using rx_config_sent [OF r2(1)] by blast
  note r3 = renumbered_fields [OF c3(2)] renumbered_config [OF c3(2)]
  let ?pa = "case hw_type (device c3) of HermesLite \<Rightarrow> 0x08 | Hermes \<Rightarrow> 0x00"
  obtain p4 c4 where c4: "send_control (\<lambda>_. None) 0x12 (tx_drive c3) ?pa 0 0 c3 =
      ([SendPacket p4 (addr (device c3))], Inr c4)" "renumbered c3 c4" "length p4 = 1032"
    "take 8 p4 = [0xEF, 0xFE, 0x01, 0x02] @ seq_bytes (tx_seq c3)"
    "take 8 (drop 8 p4) = P1_SYNC @ [0x12 OR mox_bit c3, tx_drive c3, ?pa, 0, 0]"
    "take 8 (drop 520 p4) = P1_SYNC @ [mox_bit c3, sample_rate_to_p1_code (sample_rate c3), 0, 0, nddc_bits c3 OR 0x04]"
    by (rule control_sent [OF r3(1)]) blast
  have "u32_to_be (p1_tx_frequency c1) = (t1, t2, t3, t4)" using r1 t by simp
  then have "start (\<lambda>_. None) c = (SendPacket (start_stop_packet 0x01) (addr (device c)) #
      SendPacket p1 (addr (device ?c)) # SendPacket p2 (addr (device c1)) # acts3 @ [SendPacket p4 (addr (device c3))], Inr c4)"
    using c1(1) c2(1) c3(1) c4(1)
    by (simp add: start_def send_config_def and_then_def Let_def)
  then have acts: "acts = SendPacket (start_stop_packet 0x01) (addr (device c)) #
      SendPacket p1 (addr (device ?c)) # SendPacket p2 (addr (device c1)) # acts3 @ [SendPacket p4 (addr (device c3))]"
    using assms(4) by simp
  obtain cs1 echo1 where h1: "handle_host_data E clk clk' p1 (cs, echo) = (cs1, echo1)" by force
  obtain cs2 echo2 where h2: "handle_host_data E clk clk' p2 (cs1, echo1) = (cs2, echo2)" by force
  obtain cs3 echo3 where d3: "deliver E clk clk' acts3 (cs2, echo2) = (cs3, echo3)" by force
  have "deliver E clk clk' acts (cs, echo) = handle_host_data E clk clk' p4 (deliver E clk clk' acts3 (cs2, echo2))"
  proof -
    have "deliver E clk clk' (SendPacket (start_stop_packet 0x01) a # xs) st = deliver E clk clk' xs st" for a xs st
      by (simp add: deliver_def start_stop_packet_def)
    moreover have "deliver E clk clk' [] st = st" for st by (simp add: deliver_def)
    ultimately show ?thesis
      using h1 h2 by (simp add: acts deliver_append deliver_cons [OF c1(4)] deliver_cons [OF c2(4)] deliver_cons [OF c4(4)])
  qed
  then have h4: "handle_host_data E clk clk' p4 (cs3, echo3) = (cs', echo')" using assms(5) d3 by simp
  note e1 = control_packet_effect [OF c1(3,5,6) _ table h1]
  have e2: "cs_ptt cs2 = ptt c" "cs_sample_rate cs2 = sample_rate c" "cs_nddc cs2 = nddc c"
    "tx_frequency cs2 = p1_tx_frequency c" "length (rx_frequencies cs2) = 12"
    using control_packet_effect [OF c2(3,5,6) _ _ h2] e1 r1 table assms(3) from_be_parts [OF t] by simp_all
  have e3: "tx_frequency cs3 = p1_tx_frequency c"
    "d < min (unat (nddc c)) 7 \<Longrightarrow> rx_frequencies cs3 ! d = p1_rx_frequencies c ! d" for d
    using rx_config_tuned [OF r2(1) _ e2(5) c3(1) d3] e2(4) r1 r2 table by simp_all
  show ?thesis
    using control_packet_effect [OF c4(3,5,6) _ _ h4] e3 r1 r2 r3 table
    by (simp add: tuned_def split: HpsdrHw.split)
qed

theorem start_configures_witness:
  "\<exists>acts c' cs' echo'. start (\<lambda>_. None) (set_tx_frequency 14074000 (connect demo_device :: Cx list Protocol1Client)) = (acts, Inr c') \<and>
    deliver plain_externals (0, 0, 0) (0, 0, 0) acts
      (new_client (1, 1) \<lparr>cfg_sample_rate = 192000, cfg_noise_level = Fin 0\<rparr> (), None) = (cs', echo') \<and>
    tx_frequency cs' = 14074000 \<and> cs_sample_rate cs' = 48000 \<and> cs_tx_drive cs' = 128"
proof -
  let ?c = "set_tx_frequency 14074000 (connect demo_device :: Cx list Protocol1Client)"
  let ?cs = "new_client (1, 1) \<lparr>cfg_sample_rate = 192000, cfg_noise_level = Fin 0\<rparr> ()"
  have ready: "host_ready demo_device ?c" by (intro host_ready.intros)
  then have "length (ctrl_pkt_buf ?c) = 1032" using ready_ok by (auto simp: client_ok_def)
  from start_succeeds [OF this] obtain acts c' where s: "start (\<lambda>_. None) ?c = (acts, Inr c')" by blast
  obtain cs' echo' where d: "deliver plain_externals (0, 0, 0) (0, 0, 0) acts (?cs, None) = (cs', echo')" by force
  have "in_table ?c" "length (rx_frequencies ?cs) = 12"
    by (simp_all add: in_table_def set_tx_frequency_def connect_def SAMPLE_RATES_P1_def new_client_def)
  from start_configures [OF ready this s d] show ?thesis
    using s d by (auto simp: tuned_def set_tx_frequency_def connect_def)
qed

end
