(* ===== verification/Host_Transmit.thy ===== *)
theory Host_Transmit
  imports Host_Control
begin

text \<open>
  The operator's samples on their way to the radio: from the ring buffer through the client's
  buffer into packets, and out of the emulator's unpacking. In voice transmission with one receiver
  the radio gets the samples queued, in order and without a gap (\<open>voice_stream_gapless\<close>). The guard
  that ensures it counts the samples of a receive packet, which are fewer with more receivers
  (\<open>voice_guard_too_small\<close>).
\<close>

section \<open>What the radio unpacks\<close>

definition wire_samples :: "bytes \<Rightarrow> nat \<Rightarrow> Cx list" where
  "wire_samples pkt offset =
     snd (unpack_tx_iq_16bit_into (take (MAX_TX_IQ_SAMPLES * 8) (drop 8 (subframe_at pkt offset)))
       (replicate MAX_TX_IQ_SAMPLES cx_zero))"

text \<open>A sample after its way over the wire: conjugated and rounded to 16 bits.\<close>

definition on_air :: "Cx \<Rightarrow> Cx" where
  "on_air s = Cx (f64_div (f64_of_int (quantize16 (re s))) (Fin 32768))
     (f64_div (f64_of_int (quantize16 (fl_neg (im s)))) (Fin 32768))"

lemma on_air_near: "unit_sample s \<Longrightarrow> near (3 / 32768) (conjugate s) (on_air s)"
proof -
  assume "unit_sample s"
  then obtain x y where s: "s = Cx (Fin x) (Fin y)" "\<bar>x\<bar> \<le> 1" "\<bar>y\<bar> \<le> 1" by (auto simp: unit_sample_def)
  then have "\<bar>- y\<bar> \<le> 1" by simp
  from dequantized16 [OF s(2)] dequantized16 [OF this] show ?thesis
    by (auto simp: near_def s(1) on_air_def conjugate_def)
qed

lemma quantize16_range: "- (2 ^ 15) \<le> quantize16 x" "quantize16 x < 2 ^ 15"
proof -
  have "- 32768 \<le> f64_as_i16 y \<and> f64_as_i16 y \<le> 32767" for y
    by (cases y) (auto simp: f64_as_i16_def)
  from this [of "f64_mul (fl_clamp (Fin (-1)) (Fin 1) x) (Fin 32767)"]
  show "- (2 ^ 15) \<le> quantize16 x" "quantize16 x < 2 ^ 15" by (simp_all add: quantize16_def)
qed

lemma be_i16_back: "i16_from_be (be_i16 (quantize16 x) ! 0) (be_i16 (quantize16 x) ! 1) = quantize16 x"
  using i16_roundtrip [OF quantize16_range, of x] by (simp add: be_i16_def split: prod.splits)

lemma wire_carries:
  assumes "carries pkt offset xs" "length xs \<le> 63" "offset + 512 \<le> length pkt"
  shows "wire_samples pkt offset = map on_air xs @ replicate (63 - length xs) cx_zero"
proof (rule nth_equalityI)
  let ?data = "take (MAX_TX_IQ_SAMPLES * 8) (drop 8 (subframe_at pkt offset))"
  have len: "length ?data = 504"
    using assms(3) by (simp add: MAX_TX_IQ_SAMPLES_def subframe_at_def SUBFRAME_SIZE_def)
  show "length (wire_samples pkt offset) = length (map on_air xs @ replicate (63 - length xs) cx_zero)"
    using assms(2) len by (simp add: wire_samples_def unpack_tx_iq_16bit_into_def MAX_TX_IQ_SAMPLES_def)
  fix k assume "k < length (wire_samples pkt offset)"
  then have k: "k < 63" using len by (simp add: wire_samples_def unpack_tx_iq_16bit_into_def MAX_TX_IQ_SAMPLES_def)
  have byte: "?data ! (k * 8 + 4 + j) = block_at pkt offset k ! j" if "j < 4" for j
  proof -
    have "k * 8 + 4 + j < 504" using k that by simp
    then show ?thesis
      using assms(3) k that
      by (simp add: MAX_TX_IQ_SAMPLES_def subframe_at_def SUBFRAME_SIZE_def block_at_def add_ac mult.commute)
  qed
  have w: "wire_samples pkt offset ! k =
      Cx (f64_div (f64_of_int (i16_from_be (block_at pkt offset k ! 0) (block_at pkt offset k ! 1))) (Fin 32768))
         (f64_div (f64_of_int (i16_from_be (block_at pkt offset k ! 2) (block_at pkt offset k ! 3))) (Fin 32768))"
    using len k byte [of 0] byte [of 1] byte [of 2] byte [of 3]
    by (simp add: wire_samples_def unpack_tx_iq_16bit_into_def MAX_TX_IQ_SAMPLES_def nth_append Let_def)
  show "wire_samples pkt offset ! k = (map on_air xs @ replicate (63 - length xs) cx_zero) ! k"
  proof (cases "k < length xs")
    case True
    then have "block_at pkt offset k = iq_word (xs ! k)" using assms(1) k by (simp add: carries_def)
    then show ?thesis
      using True be_i16_back [of "re (xs ! k)"] be_i16_back [of "fl_neg (im (xs ! k))"]
      by (simp add: w iq_word_def on_air_def nth_append)
  next
    case False
    then have "block_at pkt offset k = [0, 0, 0, 0]" using assms(1) k by (simp add: carries_def)
    moreover have "i16_from_be 0 0 = 0" using i16_roundtrip [of 0] by (simp add: i16_to_be_def u16_to_be_def)
    ultimately show ?thesis using False k by (simp add: w nth_append f64_of_int_exact f64_round_of_int [of 0, simplified])
  qed
qed

section \<open>The queue\<close>

definition queued :: "('c \<Rightarrow> Cx list) \<Rightarrow> 'c Protocol1Client \<Rightarrow> Cx list" where
  "queued items c = tx_iq_buffer c @ (case tx_iq_consumer c of Some k \<Rightarrow> items k | None \<Rightarrow> [])"

lemma outgoing_queue:
  assumes "ring_laws R items" "ptt c"
  shows "outgoing R c = take 63 (queued items c)"
    "(tx_iq_buffer c', tx_iq_consumer c') = after_outgoing R c \<Longrightarrow> queued items c' = drop 63 (queued items c)"
    "(tx_iq_buffer c', tx_iq_consumer c') = after_outgoing R c \<Longrightarrow> (tx_iq_consumer c' = None) = (tx_iq_consumer c = None)"
proof -
  have pop: "rb_occupied_len R k = length (items k)" "fst (rb_pop_slice R n k) = take n (items k)"
    "items (snd (rb_pop_slice R n k)) = drop n (items k)" for n k
    using assms(1) by (simp_all add: ring_laws_def)
  show "outgoing R c = take 63 (queued items c)"
    using pop assms(2)
    by (auto simp: outgoing_def queued_def refill_tx_buffer_def Let_def case_prod_beta split: option.split)
  assume "(tx_iq_buffer c', tx_iq_consumer c') = after_outgoing R c"
  then show "queued items c' = drop 63 (queued items c)" "(tx_iq_consumer c' = None) = (tx_iq_consumer c = None)"
    using pop assms(2)
    by (auto simp: after_outgoing_def queued_def refill_tx_buffer_def Let_def case_prod_beta split: option.splits if_splits)
qed

text \<open>A packet sent during transmission carries the next 126 samples of the queue, zeros after its
  end.\<close>

definition padded :: "Cx list \<Rightarrow> Cx list" where
  "padded xs = map on_air (take 63 xs) @ replicate (63 - length xs) cx_zero"

lemma transmit_packet:
  assumes "ring_laws R items" "client_ok d c" "ptt c"
  obtains pkt c' where "send_host_data_packet R (\<lambda>_. None) c = ([SendPacket pkt (addr d)], Inr c')"
    "pkt ! 2 = 0x01" "same_config c' c" "client_ok d c'"
    "wire_samples pkt 8 = padded (queued items c)" "wire_samples pkt 520 = padded (drop 63 (queued items c))"
    "queued items c' = drop 126 (queued items c)" "(tx_iq_consumer c' = None) = (tx_iq_consumer c = None)"
proof -
  obtain i where i: "p1_control_idx c = of_nat i" "i < 13" using assms(2) by (auto simp: client_ok_def)
  have len: "length (host_pkt_buf c) = 1032" using assms(2) by (simp add: client_ok_def)
  obtain pkt c' cA where p: "send_host_data_packet R (\<lambda>_. None) c = transport_send (\<lambda>_. None) pkt c'"
    "length pkt = 1032" "same_config c' c" "take 8 pkt = [0xEF, 0xFE, 0x01, 0x02] @ seq_bytes (tx_seq c)"
    "ptt cA = ptt c" "(tx_iq_buffer cA, tx_iq_consumer cA) = after_outgoing R c"
    "(tx_iq_buffer c', tx_iq_consumer c') = after_outgoing R cA"
    "carries pkt 8 (outgoing R c)" "carries pkt 520 (outgoing R cA)"
    using host_packet [OF len i, of R "\<lambda>_. None"] by blast
  have dev: "device c' = d" using p(3) assms(2) by (simp add: same_config_def client_ok_def)
  have ok: "client_ok d c'"
    using in_order_host [OF assms(2), of R "\<lambda>_. None"] p(1) by (simp add: sends_in_order_def)
  note A = outgoing_queue [OF assms(1,3)]
  have qA: "queued items cA = drop 63 (queued items c)" by (rule A(2) [OF p(6)])
  have "ptt cA" using p(5) assms(3) by simp
  note B = outgoing_queue [OF assms(1) this]
  have w8: "wire_samples pkt 8 = padded (queued items c)"
    using wire_carries [OF p(8) length_outgoing] p(2) A(1) by (simp add: padded_def)
  have w520: "wire_samples pkt 520 = padded (drop 63 (queued items c))"
    using wire_carries [OF p(9) length_outgoing] p(2) B(1) qA by (simp add: padded_def)
  have "pkt ! 2 = 0x01" using arg_cong [OF p(4), of "\<lambda>xs. xs ! 2"] by simp
  moreover have "queued items c' = drop 126 (queued items c)" using B(2) [OF p(7)] qA by simp
  moreover have "(tx_iq_consumer c' = None) = (tx_iq_consumer c = None)" using A(3) [OF p(6)] B(3) [OF p(7)] by simp
  ultimately show ?thesis using that p(1,3) dev ok w8 w520 by simp
qed

section \<open>Voice transmission\<close>

text \<open>The client's loop with the producer of samples interleaved; sends succeed.\<close>

datatype tx_op = Produce "Cx list" | Event run_event

fun tx_run ::
  "'c ring_ops \<Rightarrow> (Cx list \<Rightarrow> 'c \<Rightarrow> 'c) \<Rightarrow> tx_op list \<Rightarrow> 'c run_state \<Rightarrow> 'c run_state sent" where
  "tx_run R produce [] r = ([], Inr r)"
| "tx_run R produce (Produce xs # ops) r =
     tx_run R produce ops (r\<lparr>rs_client := (rs_client r)\<lparr>tx_iq_consumer := map_option (produce xs) (tx_iq_consumer (rs_client r))\<rparr>\<rparr>)"
| "tx_run R produce (Event ev # ops) r =
     (if running (rs_client r) then and_then (run_step R (\<lambda>_. None) ev r) (tx_run R produce ops) else ([], Inr r))"

fun produced :: "tx_op list \<Rightarrow> Cx list" where
  "produced [] = []"
| "produced (Produce xs # ops) = xs @ produced ops"
| "produced (Event ev # ops) = produced ops"

text \<open>No command arrives and the radio is heard in time.\<close>

fun undisturbed :: "tx_op \<Rightarrow> bool" where
  "undisturbed (Event (CommandArrived cmd)) = False"
| "undisturbed (Event TimedOut) = False"
| "undisturbed _ = True"

definition air_stream :: "p1_action list \<Rightarrow> Cx list" where
  "air_stream acts = concat (map (\<lambda>p. wire_samples p 8 @ wire_samples p 520) (data_packets acts))"

text \<open>A client in voice transmission with a connected ring buffer.\<close>

definition voice :: "DiscoveredDevice \<Rightarrow> 'c Protocol1Client \<Rightarrow> bool" where
  "voice d c \<longleftrightarrow> client_ok d c \<and> running c \<and> ptt c \<and> \<not> tx_cw_mode c \<and> tx_iq_consumer c \<noteq> None"

lemma voice_iq: "ring_laws R items \<Longrightarrow> voice_iq_avail R c = length (queued items c)"
  by (auto simp: voice_iq_avail_def queued_def ring_laws_def split: option.split)

lemma queued_updates [simp]:
  "queued items (c\<lparr>tx_underrun_skips := a\<rparr>) = queued items c"
  "queued items (c\<lparr>tx_fifo_estimate := b\<rparr>) = queued items c"
  "queued items (c\<lparr>tx_fifo_log_counter := w\<rparr>) = queued items c"
  "queued items (drain_estimate now c) = queued items c"
  by (simp_all add: queued_def drain_estimate_def Let_def split: option.split)

lemma voice_updates [simp]:
  "voice d (c\<lparr>tx_underrun_skips := a\<rparr>) = voice d c"
  "voice d (c\<lparr>tx_fifo_estimate := b\<rparr>) = voice d c"
  "voice d (c\<lparr>tx_fifo_log_counter := w\<rparr>) = voice d c"
  "voice d (drain_estimate now c) = voice d c"
  by (simp_all add: voice_def client_ok_def drain_estimate_def Let_def split: option.split)

text \<open>A send in voice transmission: skipped, or with the next 126 samples.\<close>

lemma voice_due:
  assumes "ring_laws R items" "voice d (rs_client r)" "send_due R (\<lambda>_. None) now r = (acts, res)"
  shows "\<exists>r'. res = Inr r' \<and> voice d (rs_client r') \<and> samples_per_packet r' = samples_per_packet r \<and>
    (if length (queued items (rs_client r)) < samples_per_packet r
     then data_packets acts = [] \<and> queued items (rs_client r') = queued items (rs_client r)
     else \<exists>pkt. data_packets acts = [pkt] \<and>
       wire_samples pkt 8 = padded (queued items (rs_client r)) \<and>
       wire_samples pkt 520 = padded (drop 63 (queued items (rs_client r))) \<and>
       queued items (rs_client r') = drop 126 (queued items (rs_client r)))"
proof -
  have v: "ptt (rs_client r)" "\<not> tx_cw_mode (rs_client r)" "client_ok d (rs_client r)"
    "tx_iq_consumer (rs_client r) \<noteq> None"
    using assms(2) by (simp_all add: voice_def)
  show ?thesis
  proof (cases "length (queued items (rs_client r)) < samples_per_packet r")
    case True
    then show ?thesis
      using assms(2,3) v by (auto simp: send_due_def voice_iq [OF assms(1)] and_then_def Let_def)
  next
    case False
    let ?c = "drain_estimate now (rs_client r)"
    have "voice d ?c" using assms(2) by simp
    then have "client_ok d ?c" "ptt ?c" "tx_iq_consumer ?c \<noteq> None" by (simp_all add: voice_def)
    from transmit_packet [OF assms(1) this(1,2)] obtain pkt c' where
      p: "send_host_data_packet R (\<lambda>_. None) ?c = ([SendPacket pkt (addr d)], Inr c')"
      "pkt ! 2 = 0x01" "same_config c' ?c" "client_ok d c'"
      "wire_samples pkt 8 = padded (queued items ?c)" "wire_samples pkt 520 = padded (drop 63 (queued items ?c))"
      "queued items c' = drop 126 (queued items ?c)" "(tx_iq_consumer c' = None) = (tx_iq_consumer ?c = None)"
      by blast
    have "voice d c'" using \<open>voice d ?c\<close> p(3,4,8) by (simp add: voice_def same_config_def)
    then show ?thesis
      using assms(3) v False p by (auto simp: send_due_def voice_iq [OF assms(1)] and_then_def Let_def)
  qed
qed

lemma subframe_keeps:
  "ptt (snd (parse_radio_subframe sf c)) = ptt c" "tx_cw_mode (snd (parse_radio_subframe sf c)) = tx_cw_mode c"
  "tx_iq_buffer (snd (parse_radio_subframe sf c)) = tx_iq_buffer c"
  "tx_iq_consumer (snd (parse_radio_subframe sf c)) = tx_iq_consumer c"
  "running (snd (parse_radio_subframe sf c)) = running c"
  by (simp_all add: parse_radio_subframe_def Let_def)

lemma received_keeps:
  "ptt (snd (handle_radio_packet data c)) = ptt c" "tx_cw_mode (snd (handle_radio_packet data c)) = tx_cw_mode c"
  "tx_iq_buffer (snd (handle_radio_packet data c)) = tx_iq_buffer c"
  "tx_iq_consumer (snd (handle_radio_packet data c)) = tx_iq_consumer c"
  "running (snd (handle_radio_packet data c)) = running c"
  by (simp_all add: handle_radio_packet_def Let_def case_prod_beta subframe_keeps)

lemma voice_received:
  assumes "voice d c"
  shows "voice d (snd (handle_radio_packet data c))" "queued items (snd (handle_radio_packet data c)) = queued items c"
  using assms quiet_received [of data c d] by (simp_all add: voice_def queued_def quiet_def received_keeps)

lemma air_stream_append: "air_stream (a @ b) = air_stream a @ air_stream b"
  by (simp add: air_stream_def data_packets_append)

text \<open>One turn of the loop that nothing disturbs: no packet and the queue as it was, or, when the guard
  lets it, the next 126 samples.\<close>

lemma voice_step:
  assumes "ring_laws R items" "voice d (rs_client r)" "undisturbed (Event ev)" "run_step R (\<lambda>_. None) ev r = (acts, res)"
  obtains r' where "res = Inr r'" "voice d (rs_client r')" "samples_per_packet r' = samples_per_packet r"
    "data_packets acts = []" "queued items (rs_client r') = queued items (rs_client r)"
  | r' pkt where "res = Inr r'" "voice d (rs_client r')" "samples_per_packet r' = samples_per_packet r"
    "samples_per_packet r \<le> length (queued items (rs_client r))" "data_packets acts = [pkt]"
    "wire_samples pkt 8 = padded (queued items (rs_client r))"
    "wire_samples pkt 520 = padded (drop 63 (queued items (rs_client r)))"
    "queued items (rs_client r') = drop 126 (queued items (rs_client r))"
proof (cases ev)
  case (SendDue now)
  with assms have "send_due R (\<lambda>_. None) now r = (acts, res)" by (simp add: run_step_def)
  from voice_due [OF assms(1,2) this] show ?thesis using that by (fastforce split: if_splits)
next
  case (Received now data)
  with assms(4) have "acts = fst (handle_radio_packet data (rs_client r))"
    "res = Inr (r\<lparr>last_recv := now, rs_client := snd (handle_radio_packet data (rs_client r))\<rparr>)"
    by (simp_all add: run_step_def case_prod_beta)
  then show ?thesis
    using that(1) voice_received(1) [OF assms(2), of data] voice_received(2) [OF assms(2), of items data] quiet_received [of data "rs_client r" d] by simp
next
  case ReceiveFailed
  with assms(4) have "acts = []" "res = Inr r" by (simp_all add: run_step_def)
  then show ?thesis using that(1) assms(2) by simp
qed (use assms in simp_all)

lemma full_packet:
  "126 \<le> length q \<Longrightarrow> padded q @ padded (drop 63 q) = map on_air (take 126 q)"
  using take_add [of 63 63 q] by (simp add: padded_def)

lemma short_packet:
  "length q \<le> 126 \<Longrightarrow> padded q @ padded (drop 63 q) = map on_air q @ replicate (126 - length q) cx_zero"
proof (cases "length q \<le> 63")
  case True
  then show ?thesis using replicate_add [of "63 - length q" 63 cx_zero] by (simp add: padded_def)
next
  case False
  assume "length q \<le> 126"
  with False show ?thesis by (simp add: padded_def) (metis append_assoc append_take_drop_id map_append)
qed

lemma gapless:
  assumes R: "ring_laws R items" "\<And>xs k. items (produce xs k) = items k @ xs"
  shows "\<lbrakk>voice d (rs_client r); samples_per_packet r = 126; list_all undisturbed ops;
    tx_run R produce ops r = (acts, res)\<rbrakk> \<Longrightarrow>
    \<exists>r'. res = Inr r' \<and> voice d (rs_client r') \<and>
      126 * length (data_packets acts) \<le> length (queued items (rs_client r) @ produced ops) \<and>
      air_stream acts = map on_air (take (126 * length (data_packets acts)) (queued items (rs_client r) @ produced ops)) \<and>
      queued items (rs_client r') = drop (126 * length (data_packets acts)) (queued items (rs_client r) @ produced ops)"
proof (induction ops arbitrary: r acts)
  case Nil
  then have "acts = []" "res = Inr r" by simp_all
  then show ?case using Nil by (simp add: air_stream_def)
next
  case (Cons op ops)
  show ?case
  proof (cases op)
    case (Produce xs)
    let ?r = "r\<lparr>rs_client := (rs_client r)\<lparr>tx_iq_consumer := map_option (produce xs) (tx_iq_consumer (rs_client r))\<rparr>\<rparr>"
    have "voice d (rs_client ?r)" using Cons.prems(1) by (auto simp: voice_def client_ok_def)
    moreover have "queued items (rs_client ?r) = queued items (rs_client r) @ xs"
      using Cons.prems(1) R(2) by (auto simp: voice_def queued_def)
    ultimately show ?thesis using Cons.IH [of ?r acts] Cons.prems Produce by simp
  next
    case (Event ev)
    obtain a m where st: "run_step R (\<lambda>_. None) ev r = (a, m)" by force
    have ev: "undisturbed (Event ev)" "running (rs_client r)"
      using Cons.prems Event by (simp_all add: voice_def)
    from R(1) Cons.prems(1) ev(1) st show ?thesis
    proof (cases rule: voice_step)
      case (1 r1)
      obtain a' m' where t: "tx_run R produce ops r1 = (a', m')" by force
      have "acts = a @ a'" "res = m'" using Cons.prems(4) Event st 1 t ev by (simp_all add: and_then_def)
      then show ?thesis
        using Cons.IH [of r1 a'] 1 Cons.prems(2,3) t Event by (simp add: air_stream_def)
    next
      case (2 r1 pkt)
      let ?q = "queued items (rs_client r)"
      obtain a' m' where t: "tx_run R produce ops r1 = (a', m')" by force
      have e: "acts = a @ a'" "res = m'" using Cons.prems(4) Event st 2 t ev by (simp_all add: and_then_def)
      have q: "126 \<le> length ?q" using 2 Cons.prems(2) by simp
      let ?all = "?q @ produced ops"
      have all: "take 126 ?q = take 126 ?all" "drop 126 ?q @ produced ops = drop 126 ?all" using q by simp_all
      have a: "air_stream a = map on_air (take 126 ?all)"
        unfolding all(1) [symmetric] full_packet [OF q, symmetric] using 2 by (simp add: air_stream_def)
      have q1: "queued items (rs_client r1) @ produced ops = drop 126 ?all" unfolding 2 by (rule all(2))
      have "samples_per_packet r1 = 126" "list_all undisturbed ops" "tx_run R produce ops r1 = (a', res)"
        using 2 Cons.prems(2,3) Event t e by simp_all
      from Cons.IH [OF 2(2) this] obtain r' where r': "res = Inr r'" "voice d (rs_client r')"
        "126 * length (data_packets a') \<le> length (drop 126 ?all)"
        "air_stream a' = map on_air (take (126 * length (data_packets a')) (drop 126 ?all))"
        "queued items (rs_client r') = drop (126 * length (data_packets a')) (drop 126 ?all)"
        unfolding q1 by blast
      have n: "126 * length (data_packets acts) = 126 + 126 * length (data_packets a')" using e 2 by simp
      have "air_stream acts = map on_air (take (126 + 126 * length (data_packets a')) ?all)"
        unfolding take_add using e(1) r'(4) a by (simp add: air_stream_append)
      moreover have "queued items (rs_client r') = drop (126 + 126 * length (data_packets a')) ?all"
        using r'(5) by (simp only: drop_drop add.commute)
      moreover have "126 + 126 * length (data_packets a') \<le> length ?all" using r'(3) q by simp
      ultimately show ?thesis unfolding n using r'(1,2) Event by simp
    qed
  qed
qed

text \<open>C28: In voice transmission with one receiver, whatever mixture of new samples, send timers, received
  packets and failed receptions: the loop does not fail, and the samples the radio unpacks from the
  packets sent are the samples queued, in order, none lost, none doubled and no gap between them; the
  rest stays in the queue.
\<close>

theorem voice_stream_gapless:
  assumes "ring_laws R items" "\<And>xs k. items (produce xs k) = items k @ xs"
    and "host_running R d r" "running (rs_client r)" "ptt (rs_client r)" "\<not> tx_cw_mode (rs_client r)"
    and "tx_iq_consumer (rs_client r) \<noteq> None" "samples_per_packet r = 126"
    and "list_all undisturbed ops" "tx_run R produce ops r = (acts, res)"
  shows "let q = queued items (rs_client r) @ produced ops; n = 126 * length (data_packets acts)
    in n \<le> length q \<and> air_stream acts = map on_air (take n q) \<and>
       (\<exists>r'. res = Inr r' \<and> queued items (rs_client r') = drop n q)"
proof -
  have "voice d (rs_client r)" using running_ok [OF assms(3)] assms(4-7) by (simp add: voice_def)
  then show ?thesis
    using gapless [of R items produce d r ops acts res] assms(1,2,8-10) unfolding Let_def by blast
qed

text \<open>C29: The guard that skips a voice packet counts the samples of a receive packet, but a packet takes 126:
  with more receivers a packet goes out although the queue is short of 126, and the radio gets zeros
  after the samples there are.
\<close>

theorem voice_guard_too_small:
  assumes "ring_laws R items" "host_running R d r" "running (rs_client r)" "ptt (rs_client r)"
    and "\<not> tx_cw_mode (rs_client r)" "tx_iq_consumer (rs_client r) \<noteq> None"
    and "samples_per_packet r \<le> length (queued items (rs_client r))" "length (queued items (rs_client r)) < 126"
    and "run_step R (\<lambda>_. None) (SendDue now) r = (acts, res)"
  shows "air_stream acts =
    map on_air (queued items (rs_client r)) @ replicate (126 - length (queued items (rs_client r))) cx_zero"
proof -
  let ?q = "queued items (rs_client r)"
  have v: "voice d (rs_client r)" using running_ok [OF assms(2)] assms(3-6) by (simp add: voice_def)
  have "send_due R (\<lambda>_. None) now r = (acts, res)" using assms(9) by (simp add: run_step_def)
  from voice_due [OF assms(1) v this] assms(7) obtain pkt where
    "data_packets acts = [pkt]" "wire_samples pkt 8 = padded ?q" "wire_samples pkt 520 = padded (drop 63 ?q)"
    by auto
  then show ?thesis using short_packet [of ?q] assms(8) by (simp add: air_stream_def)
qed

text \<open>Instances: a client in voice transmission from its start, with one receiver and with two.\<close>

lemma renumbered_queue:
  assumes "renumbered c c'"
  shows "tx_cw_mode c' = tx_cw_mode c" "tx_iq_consumer c' = tx_iq_consumer c" "tx_iq_buffer c' = tx_iq_buffer c"
  using assms by (cases c; cases c'; simp add: renumbered_def)+

lemma voice_run:
  fixes xs :: "Cx list" and n :: u8
  obtains r where "host_running list_ring demo_device r" "running (rs_client r)" "ptt (rs_client r)"
    "\<not> tx_cw_mode (rs_client r)" "tx_iq_consumer (rs_client r) = Some xs" "tx_iq_buffer (rs_client r) = []"
    "samples_per_packet r = 504 div (6 * min (max (unat (max n 1)) 1) 8 + 2) * 2"
proof -
  let ?c = "set_ptt True (set_nddc n (tx_iq_sink xs (connect demo_device)))"
  have ready: "host_ready demo_device ?c" by (intro host_ready.intros)
  have "sample_rate ?c = 48000" by (simp add: set_ptt_def set_nddc_def tx_iq_sink_def connect_def)
  from ready_run [OF ready this] obtain acts0 c r where
    r: "start (\<lambda>_. None) ?c = (acts0, Inr c)" "renumbered (?c\<lparr>running := True\<rparr>) c" "run_init 0 0 c = Some r" "rs_client r = c"
    by blast
  have f: "running c" "ptt c" "\<not> tx_cw_mode c" "tx_iq_consumer c = Some xs" "tx_iq_buffer c = []" "nddc c = max n 1"
    using renumbered_fields [OF r(2)] renumbered_queue [OF r(2)]
    by (simp_all add: set_ptt_def set_nddc_def tx_iq_sink_def connect_def)
  have "samples_per_packet r = samples_per_subframe c * 2"
    using r(3) by (auto simp: run_init_def Let_def split: option.splits)
  then show ?thesis
    using that [OF host_running.begun [OF ready r(1,3)]] f r(4) by (simp add: samples_per_subframe_def Let_def)
qed

theorem voice_stream_gapless_witness:
  "\<exists>r. tx_iq_consumer (rs_client r) = Some (replicate 100 cx_zero) \<and>
    (let xs = replicate 100 cx_zero @ replicate 50 cx_zero;
         (acts, res) = tx_run list_ring (\<lambda>xs k. k @ xs) [Event (SendDue 0), Produce (replicate 50 cx_zero), Event (SendDue 1)] r;
         n = 126 * length (data_packets acts)
     in n \<le> length xs \<and> air_stream acts = map on_air (take n xs) \<and>
        (\<exists>r'. res = Inr r' \<and> queued (\<lambda>k. k) (rs_client r') = drop n xs))"
proof -
  let ?ops = "[Event (SendDue 0), Produce (replicate 50 cx_zero), Event (SendDue 1)]"
  obtain r where r: "host_running list_ring demo_device r" "running (rs_client r)" "ptt (rs_client r)"
    "\<not> tx_cw_mode (rs_client r)" "tx_iq_consumer (rs_client r) = Some (replicate 100 cx_zero)"
    "tx_iq_buffer (rs_client r) = []"
    "samples_per_packet r = 504 div (6 * min (max (unat (max 1 1 :: u8)) 1) 8 + 2) * 2"
    by (rule voice_run [where n = 1])
  then have "samples_per_packet r = 126" "tx_iq_consumer (rs_client r) \<noteq> None" by simp_all
  note t = voice_stream_gapless [OF list_ring_laws _ r(1-4) this(2,1), of "\<lambda>xs k. k @ xs" ?ops]
  obtain acts res where run: "tx_run list_ring (\<lambda>xs k. k @ xs) ?ops r = (acts, res)" by force
  have "queued (\<lambda>k. k) (rs_client r) @ produced ?ops = replicate 100 cx_zero @ replicate 50 cx_zero"
    using r(5,6) by (simp add: queued_def)
  with t [OF _ _ run] r(5) run show ?thesis by (intro exI [of _ r]) (simp add: Let_def)
qed

theorem voice_guard_too_small_witness:
  "\<exists>r. tx_iq_consumer (rs_client r) = Some (replicate 100 cx_zero) \<and>
    air_stream (fst (run_step list_ring (\<lambda>_. None) (SendDue 0) r)) =
      map on_air (replicate 100 cx_zero) @ replicate 26 cx_zero"
proof -
  obtain r where r: "host_running list_ring demo_device r" "running (rs_client r)" "ptt (rs_client r)"
    "\<not> tx_cw_mode (rs_client r)" "tx_iq_consumer (rs_client r) = Some (replicate 100 cx_zero)"
    "tx_iq_buffer (rs_client r) = []"
    "samples_per_packet r = 504 div (6 * min (max (unat (max 2 1 :: u8)) 1) 8 + 2) * 2"
    by (rule voice_run [where n = 2])
  then have q: "queued (\<lambda>k. k) (rs_client r) = replicate 100 cx_zero" "samples_per_packet r = 72"
    "tx_iq_consumer (rs_client r) \<noteq> None" by (simp_all add: queued_def)
  obtain acts res where run: "run_step list_ring (\<lambda>_. None) (SendDue 0) r = (acts, res)" by force
  show ?thesis
    using voice_guard_too_small [OF list_ring_laws r(1-4) q(3) _ _ run] r(5) q run by (intro exI [of _ r]) simp
qed

end
