(* ===== verification/Emu_Main.thy ===== *)
theory Emu_Main
  imports Emu_Server
begin

text \<open>
  \<^verbatim>\<open>crates/radio-utils-emu/src/main.rs\<close>: what the emulator makes of its command line. \<open>Cli\<close> is
  what \<^verbatim>\<open>clap\<close> has parsed (with \<open>parse_radio\<close> for the radio); an \<open>Inl\<close> is a message printed
  before exiting with status 1. Logging (the only use of \<open>cli_verbose\<close>) and Ctrl-C are left out.
\<close>

record Cli =
  cli_radio :: HpsdrHw
  cli_mac :: "string option"
  cli_noise :: fval
  cli_echo :: bool
  cli_echo_live :: bool
  cli_bind :: string
  cli_max_clients :: nat
  cli_verbose :: bool

definition parse_radio :: "string \<Rightarrow> string + HpsdrHw" where
  "parse_radio s =
     (case from_name s of
        None \<Rightarrow> Inl (''unknown radio '' @ [CHR 0x27] @ s @ [CHR 0x27] @ ''. Valid: '' @ intercalate '', '' all_names)
      | Some h \<Rightarrow> Inr h)"

section \<open>The MAC address\<close>

text \<open>\<^verbatim>\<open>char::to_digit(16)\<close> and \<^verbatim>\<open>is_ascii_hexdigit\<close>.\<close>

definition to_digit16 :: "char \<Rightarrow> nat option" where
  "to_digit16 c =
     (let n = of_char c in
      if 48 \<le> n \<and> n \<le> 57 then Some (n - 48)
      else if 65 \<le> n \<and> n \<le> 70 then Some (n - 55)
      else if 97 \<le> n \<and> n \<le> 102 then Some (n - 87)
      else None)"

definition is_ascii_hexdigit :: "char \<Rightarrow> bool" where
  "is_ascii_hexdigit c \<longleftrightarrow> to_digit16 c \<noteq> None"

text \<open>\<^verbatim>\<open>u8::from_str_radix(s, 16)\<close>: a leading plus is accepted, an empty number, another
  character and a value above 255 are not.\<close>

fun radix16_digits :: "nat \<Rightarrow> string \<Rightarrow> u8 option" where
  "radix16_digits acc [] = Some (of_nat acc)"
| "radix16_digits acc (c # cs) =
     (case to_digit16 c of
        None \<Rightarrow> None
      | Some d \<Rightarrow> if acc * 16 + d < 256 then radix16_digits (acc * 16 + d) cs else None)"

definition u8_from_str_radix16 :: "string \<Rightarrow> u8 option" where
  "u8_from_str_radix16 s =
     (let digits = (if s \<noteq> [] \<and> hd s = CHR ''+'' then tl s else s)
      in if digits = [] then None else radix16_digits 0 digits)"

fun parse_bytes :: "nat list \<Rightarrow> string \<Rightarrow> u8 list option" where
  "parse_bytes [] hex = Some []"
| "parse_bytes (i # is) hex =
     (case u8_from_str_radix16 (take 2 (drop (i * 2) hex)) of
        None \<Rightarrow> None
      | Some b \<Rightarrow> map_option ((#) b) (parse_bytes is hex))"

definition parse_mac :: "string \<Rightarrow> string + u8 list" where
  "parse_mac mac_str =
     (let hex = filter is_ascii_hexdigit mac_str
      in if length hex \<noteq> 12 then Inl ''MAC address must be 6 bytes (12 hex digits)''
         else case parse_bytes [0..<6] hex of
                None \<Rightarrow> Inl ''Invalid hex in MAC address''
              | Some bytes \<Rightarrow> Inr bytes)"

text \<open>Two hexadecimal digits are always a byte, so the second error cannot occur.\<close>

lemma to_digit16_less: "to_digit16 c = Some d \<Longrightarrow> d < 16"
  by (auto simp: to_digit16_def Let_def split: if_splits)

lemma from_str_radix16_pair:
  assumes "to_digit16 c = Some x" "to_digit16 d = Some y"
  shows "u8_from_str_radix16 [c, d] = Some (of_nat (x * 16 + y))"
proof -
  have "c \<noteq> CHR ''+''" using assms(1) by (auto simp: to_digit16_def)
  moreover have "x < 16" "y < 16" using assms by (auto dest: to_digit16_less)
  ultimately show ?thesis using assms by (simp add: u8_from_str_radix16_def)
qed

lemma hexdigits_pair:
  assumes "list_all is_ascii_hexdigit hex" "i * 2 + 2 \<le> length hex"
  shows "\<exists>b. u8_from_str_radix16 (take 2 (drop (i * 2) hex)) = Some b"
proof -
  have "take 2 (drop (i * 2) hex) = [hex ! (i * 2), hex ! Suc (i * 2)]"
    using assms(2) by (simp add: eval_nat_numeral take_Suc_conv_app_nth)
  moreover have "is_ascii_hexdigit (hex ! (i * 2))" "is_ascii_hexdigit (hex ! Suc (i * 2))"
    using assms by (simp_all add: list_all_length)
  ultimately show ?thesis using from_str_radix16_pair by (auto simp: is_ascii_hexdigit_def)
qed

lemma parse_bytes_defined:
  assumes "list_all is_ascii_hexdigit hex" "\<forall>i \<in> set is. i * 2 + 2 \<le> length hex"
  shows "\<exists>bs. parse_bytes is hex = Some bs \<and> length bs = length is"
  using assms by (induction "is") (auto dest!: hexdigits_pair)

lemma parse_mac_result:
  "case parse_mac s of
     Inl msg \<Rightarrow> length (filter is_ascii_hexdigit s) \<noteq> 12
       \<and> msg = ''MAC address must be 6 bytes (12 hex digits)''
   | Inr bs \<Rightarrow> length (filter is_ascii_hexdigit s) = 12 \<and> length bs = 6"
proof (cases "length (filter is_ascii_hexdigit s) = 12")
  case True
  then have "\<exists>bs. parse_bytes [0..<6] (filter is_ascii_hexdigit s) = Some bs \<and> length bs = length [0..<6::nat]"
    by (intro parse_bytes_defined) (auto simp: list_all_iff)
  with True show ?thesis by (auto simp: parse_mac_def)
qed (simp add: parse_mac_def)

text \<open>A printed address is read back, whatever separates its bytes: the digits alone count.\<close>

lemma to_digit16_hex_digit: "n < 16 \<Longrightarrow> to_digit16 (hex_digit n) = Some n"
  by (auto simp: to_digit16_def hex_digit_def)

lemma hex_byte_digits: "filter is_ascii_hexdigit (hex_byte b) = hex_byte b"
proof -
  have "unat b div 16 < 16" using unsigned_less [of b, where 'a = nat] by simp
  then show ?thesis by (simp add: hex_byte_def is_ascii_hexdigit_def to_digit16_hex_digit)
qed

lemma radix16_hex_byte: "u8_from_str_radix16 (hex_byte b) = Some b"
proof -
  have "unat b div 16 < 16" using unsigned_less [of b, where 'a = nat] by simp
  then show ?thesis
    using from_str_radix16_pair [OF to_digit16_hex_digit to_digit16_hex_digit, of "unat b div 16" "unat b mod 16"]
    by (simp add: hex_byte_def)
qed

lemma parse_bytes_hex:
  "parse_bytes [length pre..<length pre + length bs] (concat (map hex_byte (pre @ bs))) = Some bs"
proof (induction bs arbitrary: pre)
  case (Cons b bs)
  have len: "length (concat (map hex_byte xs)) = length xs * 2" for xs :: "u8 list"
    by (induction xs) (simp_all add: hex_byte_def)
  have h: "take 2 (drop (length pre * 2) (concat (map hex_byte (pre @ b # bs)))) = hex_byte b"
    by (simp add: len) (simp add: hex_byte_def)
  have u: "[length pre..<length pre + length (b # bs)]
      = length pre # [length (pre @ [b])..<length (pre @ [b]) + length bs]"
    by (simp add: upt_conv_Cons del: upt_Suc)
  have "(pre @ [b]) @ bs = pre @ b # bs" by simp
  with Cons.IH [of "pre @ [b]"] show ?case
    unfolding u by (simp only: parse_bytes.simps h radix16_hex_byte option.simps)
qed simp

lemma filter_intercalate:
  "filter P sep = [] \<Longrightarrow> filter P (intercalate sep xs) = concat (map (filter P) xs)"
  by (induction sep xs rule: intercalate.induct) simp_all

lemma parse_mac_roundtrip:
  assumes "length m = 6" "list_all (\<lambda>c. \<not> is_ascii_hexdigit c) sep"
  shows "parse_mac (intercalate sep (map hex_byte m)) = Inr m"
proof -
  have "filter is_ascii_hexdigit sep = []" using assms(2) by (simp add: list_all_iff filter_empty_conv)
  then have f: "filter is_ascii_hexdigit (intercalate sep (map hex_byte m)) = concat (map hex_byte m)"
    by (simp add: filter_intercalate o_def hex_byte_digits)
  have "length (concat (map hex_byte m)) = 12"
    using assms(1) by (simp add: length_concat o_def hex_byte_def sum_list_triv)
  then show ?thesis
    using parse_bytes_hex [of "[]" m] assms(1) by (simp add: parse_mac_def f)
qed

definition DEFAULT_MAC :: "u8 list" where
  "DEFAULT_MAC = [0x02, 0xAA, 0xBB, 0xCC, 0xDD, 0xEE]"

section \<open>Starting the server\<close>

text \<open>What \<open>run_protocol1\<close> hands to the receive loop.\<close>

record Setup =
  su_hw :: HwInfo
  su_cfg :: SiggenConfig
  su_echo :: "EchoBuffer option"
  su_bind :: string
  su_max_clients :: nat

text \<open>\<open>sock_open\<close> is \<^verbatim>\<open>UdpSocket::bind\<close>: the error for an address, or none. The port is that of the
  protocol.\<close>

definition run_protocol1 :: "(string \<Rightarrow> string option) \<Rightarrow> Setup \<Rightarrow> string + Setup" where
  "run_protocol1 sock_open su =
     (let address = su_bind su @ '':'' @ dec_digits (unat PORT)
      in case sock_open address of Some e \<Rightarrow> Inl e | None \<Rightarrow> Inr (su\<lparr>su_bind := address\<rparr>))"

definition emu_main :: "'g externals \<Rightarrow> (string \<Rightarrow> string option) \<Rightarrow> Cli \<Rightarrow> string + Setup" where
  "emu_main E sock_open cli =
     (case (case cli_mac cli of Some mac_str \<Rightarrow> parse_mac mac_str | None \<Rightarrow> Inr DEFAULT_MAC) of
        Inl msg \<Rightarrow> Inl msg
      | Inr mac_bytes \<Rightarrow>
          let sample_rate = 48000;
              radio = new_hw_info (cli_radio cli) mac_bytes;
              sg_cfg = \<lparr>cfg_sample_rate = sample_rate, cfg_noise_level = cli_noise cli\<rparr>;
              echo_mode = (if cli_echo_live cli then Some Live
                           else if cli_echo cli then Some Loop else None);
              echo_buffer = map_option (new_echo_buffer E) echo_mode
          in case run_protocol1 sock_open \<lparr>su_hw = radio, su_cfg = sg_cfg, su_echo = echo_buffer,
                    su_bind = cli_bind cli, su_max_clients = cli_max_clients cli\<rparr> of
               Inl e \<Rightarrow> Inl (''Fatal: failed to start Protocol 1: '' @ e)
             | Inr su \<Rightarrow> Inr su)"

end
