(* ===== verification/Proto_Transport.thy ===== *)
theory Proto_Transport
  imports Proto_Types Proto_Discovery
begin

text \<open>
  \<^verbatim>\<open>crates/radio-utils-protocol/src/transport.rs\<close>: the UDP socket of a client. The socket operations of
  \<^verbatim>\<open>tokio\<close> are the parameter \<open>U\<close>; \<open>'k\<close> is a socket, \<open>'w\<close> the state of the operating system. A
  reception is given the room of the buffer and answers the bytes put there.
\<close>

record ('k, 'w) udp_calls =
  udp_bind :: "string \<Rightarrow> 'w \<Rightarrow> (string + 'k) \<times> 'w"
  udp_set_broadcast :: "'k \<Rightarrow> bool \<Rightarrow> 'w \<Rightarrow> (string + unit) \<times> 'w"
  udp_send_to :: "'k \<Rightarrow> bytes \<Rightarrow> SocketAddr \<Rightarrow> 'w \<Rightarrow> (string + nat) \<times> 'w"
  udp_recv_from :: "'k \<Rightarrow> nat \<Rightarrow> 'w \<Rightarrow> (string + bytes \<times> SocketAddr) \<times> 'w"
  udp_try_recv_from :: "'k \<Rightarrow> nat \<Rightarrow> 'w \<Rightarrow> (string + bytes \<times> SocketAddr) \<times> 'w"
  udp_local_addr :: "'k \<Rightarrow> 'w \<Rightarrow> string + SocketAddr"
  udp_close :: "'k \<Rightarrow> 'w \<Rightarrow> 'w"

section \<open>The transport\<close>

record 'k UdpTransport =
  udp_socket :: 'k

text \<open>\<open>?\<close> on an \<^verbatim>\<open>io::Result\<close>.\<close>

definition io_error :: "string + 'a \<Rightarrow> ProtocolError + 'a" where
  "io_error r = (case r of Inl e \<Rightarrow> Inl (Io e) | Inr x \<Rightarrow> Inr x)"

text \<open>A socket whose broadcast option cannot be set is dropped, hence closed.\<close>

definition bind_transport :: "('k, 'w) udp_calls \<Rightarrow> string \<Rightarrow> 'w \<Rightarrow> (ProtocolError + 'k UdpTransport) \<times> 'w" where
  "bind_transport U dst w =
     (case udp_bind U dst w of
        (Inl e, w) \<Rightarrow> (Inl (Io e), w)
      | (Inr k, w) \<Rightarrow>
          (case udp_set_broadcast U k True w of
             (Inl e, w) \<Rightarrow> (Inl (Io e), udp_close U k w)
           | (Inr _, w) \<Rightarrow> (Inr \<lparr>udp_socket = k\<rparr>, w)))"

definition bind_any :: "('k, 'w) udp_calls \<Rightarrow> 'w \<Rightarrow> (ProtocolError + 'k UdpTransport) \<times> 'w" where
  "bind_any U = bind_transport U ''0.0.0.0:0''"

text \<open>The number of bytes sent is not looked at.\<close>

definition send_to :: "('k, 'w) udp_calls \<Rightarrow> 'k UdpTransport \<Rightarrow> bytes \<Rightarrow> SocketAddr \<Rightarrow> 'w \<Rightarrow> (ProtocolError + unit) \<times> 'w" where
  "send_to U t buf dst w =
     (case udp_send_to U (udp_socket t) buf dst w of (r, w) \<Rightarrow> (map_sum id (\<lambda>_. ()) (io_error r), w))"

text \<open>A datagram fills the front of the buffer and leaves the rest.\<close>

definition received :: "bytes \<Rightarrow> 'e + bytes \<times> SocketAddr \<Rightarrow> ('e + nat \<times> SocketAddr) \<times> bytes" where
  "received buf r =
     (case r of
        Inl e \<Rightarrow> (Inl e, buf)
      | Inr (bs, peer) \<Rightarrow> (Inr (length bs, peer), bs @ drop (length bs) buf))"

definition recv_from :: "('k, 'w) udp_calls \<Rightarrow> 'k UdpTransport \<Rightarrow> bytes \<Rightarrow> 'w \<Rightarrow> ((ProtocolError + nat \<times> SocketAddr) \<times> bytes) \<times> 'w" where
  "recv_from U t buf w =
     (case udp_recv_from U (udp_socket t) (length buf) w of (r, w) \<Rightarrow> (received buf (io_error r), w))"

definition try_recv_from :: "('k, 'w) udp_calls \<Rightarrow> 'k UdpTransport \<Rightarrow> bytes \<Rightarrow> 'w \<Rightarrow> ((string + nat \<times> SocketAddr) \<times> bytes) \<times> 'w" where
  "try_recv_from U t buf w =
     (case udp_try_recv_from U (udp_socket t) (length buf) w of (r, w) \<Rightarrow> (received buf r, w))"

definition local_addr :: "('k, 'w) udp_calls \<Rightarrow> 'k UdpTransport \<Rightarrow> 'w \<Rightarrow> ProtocolError + SocketAddr" where
  "local_addr U t w = io_error (udp_local_addr U (udp_socket t) w)"

section \<open>Sockets and buffers\<close>

text \<open>What the operating system promises, with \<open>S\<close> the open sockets: a bind opens a fresh socket or
  nothing, an option opens and closes none, a close closes one.\<close>

definition udp_laws :: "('k, 'w) udp_calls \<Rightarrow> ('w \<Rightarrow> 'k set) \<Rightarrow> bool" where
  "udp_laws U S \<longleftrightarrow>
     (\<forall>a w. case udp_bind U a w of
        (Inl _, w') \<Rightarrow> S w' = S w
      | (Inr k, w') \<Rightarrow> k \<notin> S w \<and> S w' = insert k (S w)) \<and>
     (\<forall>k b w. S (snd (udp_set_broadcast U k b w)) = S w) \<and>
     (\<forall>k w. S (udp_close U k w) = S w - {k})"

text \<open>A failed bind leaves no socket open; a successful one exactly the transport's.\<close>

lemma bind_transport_sockets:
  assumes "udp_laws U S"
  shows "case bind_transport U dst w of
      (Inl e, w') \<Rightarrow> (\<exists>m. e = Io m) \<and> S w' = S w
    | (Inr t, w') \<Rightarrow> udp_socket t \<notin> S w \<and> S w' = insert (udp_socket t) (S w)"
proof (cases "udp_bind U dst w")
  case (Pair r w1)
  have b: "case r of Inl _ \<Rightarrow> S w1 = S w | Inr k \<Rightarrow> k \<notin> S w \<and> S w1 = insert k (S w)"
    using assms Pair unfolding udp_laws_def by (auto split: sum.split prod.splits dest!: spec [of _ dst] spec [of _ w])
  show ?thesis
  proof (cases r)
    case (Inr k)
    obtain r2 w2 where o: "udp_set_broadcast U k True w1 = (r2, w2)" by fastforce
    then have "S w2 = S w1" "S (udp_close U k w2) = S w2 - {k}"
      using assms by (auto simp: udp_laws_def dest: spec [of _ k] dest!: spec [of _ True] spec [of _ w1])
    then show ?thesis
      using Pair o Inr b by (cases r2) (auto simp: bind_transport_def)
  qed (use Pair b in \<open>simp add: bind_transport_def\<close>)
qed

lemma received_prefix:
  assumes "received buf r = (Inr (n, peer), buf')" "\<And>bs a. r = Inr (bs, a) \<Longrightarrow> length bs \<le> length buf"
  shows "r = Inr (take n buf', peer) \<and> length buf' = length buf \<and> drop n buf' = drop n buf"
  using assms by (auto simp: received_def split: sum.splits)

text \<open>Numbered sockets with no faults satisfy the laws.\<close>

definition plain_udp :: "(nat, nat \<times> nat set) udp_calls" where
  "plain_udp = \<lparr>
     udp_bind = \<lambda>_ (n, S). (Inr n, (n + 1, S \<union> {n})),
     udp_set_broadcast = \<lambda>_ _ w. (Inr (), w),
     udp_send_to = \<lambda>_ bs _ w. (Inr (length bs), w),
     udp_recv_from = \<lambda>_ _ w. (Inl ''timeout'', w),
     udp_try_recv_from = \<lambda>_ _ w. (Inl ''would block'', w),
     udp_local_addr = \<lambda>_ _. Inl ''unknown'',
     udp_close = \<lambda>k (n, S). (n, S - {k})\<rparr>"

lemma plain_udp_sockets: "udp_laws plain_udp (\<lambda>(n, S). {k \<in> S. k < n})"
  by (auto simp: udp_laws_def plain_udp_def)

end
