(* ===== verification/Build_Script.thy ===== *)
theory Build_Script
  imports Radio_Prelude "HOL-Library.Product_Lexorder" "HOL-Library.List_Lexorder" "HOL-Library.Char_ord"
begin

text \<open>
  \<^verbatim>\<open>crates/radio-utils-keyer/build.rs\<close>: how the build finds the Android tools and what it asks of
  them. A path is the list of its components, the first being the text of an environment variable.
  The file system is what the calls of \<^verbatim>\<open>std::fs\<close> answer; the tools and the creation of a directory
  change it (\<open>H\<close>). Names that are not Unicode are left out.
\<close>

section \<open>Paths and the file system\<close>

type_synonym path = "string list"

text \<open>\<open>listing\<close> is \<open>None\<close> for a directory that cannot be read and has \<open>None\<close> for an entry that cannot.\<close>

record fs =
  listing :: "path \<Rightarrow> string option list option"
  is_dir :: "path \<Rightarrow> bool"
  path_exists :: "path \<Rightarrow> bool"

definition readable :: "path \<Rightarrow> string option list \<Rightarrow> path list" where
  "readable dir es = List.map_filter (map_option (\<lambda>n. dir @ [n])) es"

text \<open>\<^verbatim>\<open>Path::extension\<close> of a name: what follows its last dot, unless nothing comes before that dot.\<close>

definition extension :: "string \<Rightarrow> string option" where
  "extension n =
     (let after = takeWhile (\<lambda>c. c \<noteq> CHR ''.'') (rev n); before = drop (length after + 1) (rev n)
      in if after = rev n \<or> before = [] then None else Some (rev after))"

definition has_extension :: "string \<Rightarrow> path \<Rightarrow> bool" where
  "has_extension x p \<longleftrightarrow> p \<noteq> [] \<and> extension (last p) = Some x"

fun contains :: "string \<Rightarrow> string \<Rightarrow> bool" where
  "contains t s \<longleftrightarrow> take (length t) s = t \<or> (case s of [] \<Rightarrow> False | _ # s' \<Rightarrow> contains t s')"

definition show_two_digits :: "nat \<Rightarrow> string" where
  "show_two_digits n = [char_of (n div 10 mod 10 + 48), char_of (n mod 10 + 48)]"

section \<open>Versions\<close>

text \<open>\<^verbatim>\<open>str::parse::<u32>\<close>: an optional plus and at least one decimal digit, in range.\<close>

fun decimal :: "nat \<Rightarrow> string \<Rightarrow> nat option" where
  "decimal acc [] = Some acc"
| "decimal acc (c # cs) =
     (let n = of_char c :: nat in
      if 48 \<le> n \<and> n \<le> 57 \<and> acc * 10 + (n - 48) \<le> u32_max then decimal (acc * 10 + (n - 48)) cs else None)"

definition parse_u32 :: "string \<Rightarrow> nat option" where
  "parse_u32 s =
     (let digits = (if s \<noteq> [] \<and> hd s = CHR ''+'' then tl s else s)
      in if digits = [] then None else decimal 0 digits)"

text \<open>\<^verbatim>\<open>splitn(n, '.')\<close>: the last piece keeps its dots.\<close>

fun splitn :: "nat \<Rightarrow> string \<Rightarrow> string list" where
  "splitn 0 s = []"
| "splitn (Suc 0) s = [s]"
| "splitn (Suc (Suc n)) s =
     (let piece = takeWhile (\<lambda>c. c \<noteq> CHR ''.'') s
      in if piece = s then [s] else piece # splitn (Suc n) (drop (length piece + 1) s))"

definition version_key :: "string \<Rightarrow> nat \<times> nat \<times> nat" where
  "version_key v =
     (let parts = map (\<lambda>p. case parse_u32 p of Some n \<Rightarrow> n | None \<Rightarrow> 0) (splitn 3 v);
          part = (\<lambda>i. if i < length parts then parts ! i else 0)
      in (part 0, part 1, part 2))"

section \<open>The tools\<close>

text \<open>The compiler: a stable sort, newest first, and the first version that has an executable.\<close>

definition sort_newest :: "string list \<Rightarrow> string list" where
  "sort_newest vs = rev (sort_key version_key (rev vs))"

definition d8_names :: "string list" where
  "d8_names = [''d8'', ''d8.bat'', ''d8.cmd'']"

definition versions_in :: "fs \<Rightarrow> path \<Rightarrow> string list" where
  "versions_in F dir =
     (case listing F dir of
        None \<Rightarrow> []
      | Some es \<Rightarrow> map last (filter (is_dir F) (readable dir es)))"

definition find_d8 :: "fs \<Rightarrow> string \<Rightarrow> path option" where
  "find_d8 F android_home =
     (let dir = [android_home, ''build-tools'']
      in find (path_exists F)
           (concat (map (\<lambda>v. map (\<lambda>n. dir @ [v, n]) d8_names) (sort_newest (versions_in F dir)))))"

definition find_android_jar :: "fs \<Rightarrow> string \<Rightarrow> path option" where
  "find_android_jar F android_home =
     find (path_exists F)
       (map (\<lambda>api. [android_home, ''platforms'', ''android-'' @ show_two_digits api, ''android.jar'']) (rev [26..<36]))"

text \<open>The NDK of the environment, else the last directory under \<^verbatim>\<open>ndk\<close> in the order of names; the
  first directory among its host tools; the lowest API level that has the library.\<close>

definition newest_ndk :: "fs \<Rightarrow> string \<Rightarrow> path option" where
  "newest_ndk F android_home =
     (case listing F [android_home, ''ndk''] of
        None \<Rightarrow> None
      | Some es \<Rightarrow>
          (case rev (sort (filter (is_dir F) (readable [android_home, ''ndk''] es))) of
             [] \<Rightarrow> None
           | v # _ \<Rightarrow> Some v))"

definition arch_dir :: "string \<Rightarrow> string option" where
  "arch_dir target =
     (if contains ''aarch64'' target then Some ''aarch64-linux-android''
      else if contains ''armv7'' target \<or> contains ''arm-linux'' target then Some ''arm-linux-androideabi''
      else if contains ''x86_64'' target then Some ''x86_64-linux-android''
      else if contains ''i686'' target then Some ''i686-linux-android''
      else None)"

definition find_ndk_amidi_lib_dir :: "fs \<Rightarrow> string option \<Rightarrow> string \<Rightarrow> string \<Rightarrow> path option" where
  "find_ndk_amidi_lib_dir F ndk_home android_home target =
     Option.bind (case ndk_home of Some h \<Rightarrow> Some [h] | None \<Rightarrow> newest_ndk F android_home) (\<lambda>ndk.
     Option.bind (arch_dir target) (\<lambda>arch.
     (let prebuilt = ndk @ [''toolchains'', ''llvm'', ''prebuilt'']
      in Option.bind (listing F prebuilt) (\<lambda>es.
         Option.bind (find (is_dir F) (readable prebuilt es)) (\<lambda>host.
         find (\<lambda>dir. path_exists F (dir @ [''libamidi.so'']))
           (map (\<lambda>api. host @ [''sysroot'', ''usr'', ''lib'', arch, show_two_digits api]) [29..<36]))))))"

section \<open>Class files\<close>

text \<open>The recursion over the directories with its stack written out: \<open>work\<close> are the entries still to
  be looked at. The option is undefined where the recursion would not end (a directory inside
  itself).\<close>

definition entries :: "fs \<Rightarrow> path \<Rightarrow> path list" where
  "entries F dir = (case listing F dir of None \<Rightarrow> [] | Some es \<Rightarrow> readable dir es)"

partial_function (option) collect :: "fs \<Rightarrow> path list \<Rightarrow> path list option" where
  "collect F work =
     (case work of
        [] \<Rightarrow> Some []
      | p # ps \<Rightarrow>
          if is_dir F p then collect F (entries F p @ ps)
          else if has_extension ''class'' p then Option.bind (collect F ps) (\<lambda>files. Some (p # files))
          else collect F ps)"

definition collect_class_files :: "fs \<Rightarrow> path \<Rightarrow> path list option" where
  "collect_class_files F dir = collect F (entries F dir)"

section \<open>The build\<close>

text \<open>Every panic of \<open>main\<close>. A tool that runs answers whether it succeeded.\<close>

datatype build_error = NoAndroidHome | NoOutDir | NoManifestDir | UnreadableSources | UnreadableEntry
  | NoSources | NoAndroidJar | NoD8 | NoClassesDir | JavacNotRun | JavacFailed | NoClassFiles
  | D8NotRun | D8Failed | NoDex

record host =
  env_var :: "string \<Rightarrow> string option"
  make_dirs :: "path \<Rightarrow> fs \<Rightarrow> fs option"
  run_javac :: "path \<Rightarrow> path \<Rightarrow> path list \<Rightarrow> fs \<Rightarrow> bool option \<times> fs"
  run_d8 :: "path \<Rightarrow> path \<Rightarrow> path list \<Rightarrow> fs \<Rightarrow> bool option \<times> fs"

text \<open>The directives printed for the build system.\<close>

datatype directive = RerunIfChanged path | RustcEnvDex path | LinkSearchNative path | LinkLibAmidi

definition java_sources :: "fs \<Rightarrow> path \<Rightarrow> build_error + path list" where
  "java_sources F dir =
     (case listing F dir of
        None \<Rightarrow> Inl UnreadableSources
      | Some es \<Rightarrow>
          if None \<in> set es then Inl UnreadableEntry
          else let srcs = filter (has_extension ''java'') (readable dir es)
               in if srcs = [] then Inl NoSources else Inr srcs)"

text \<open>From the sources to the DEX file: compile, collect, convert.\<close>

definition build_dex :: "host \<Rightarrow> path \<Rightarrow> path \<Rightarrow> string \<Rightarrow> path list \<Rightarrow> fs \<Rightarrow> (build_error + path \<times> fs) option" where
  "build_dex H jar d8 out srcs F =
     (case make_dirs H [out, ''java_classes''] F of
        None \<Rightarrow> Some (Inl NoClassesDir)
      | Some F \<Rightarrow>
          (case run_javac H jar [out, ''java_classes''] srcs F of
             (None, _) \<Rightarrow> Some (Inl JavacNotRun)
           | (Some False, _) \<Rightarrow> Some (Inl JavacFailed)
           | (Some True, F) \<Rightarrow>
               Option.bind (collect_class_files F [out, ''java_classes'']) (\<lambda>files.
               if files = [] then Some (Inl NoClassFiles)
               else case run_d8 H d8 [out] (sort files) F of
                      (None, _) \<Rightarrow> Some (Inl D8NotRun)
                    | (Some False, _) \<Rightarrow> Some (Inl D8Failed)
                    | (Some True, F) \<Rightarrow>
                        if path_exists F [out, ''classes.dex''] then Some (Inr ([out, ''classes.dex''], F))
                        else Some (Inl NoDex))))"

definition build_main :: "host \<Rightarrow> fs \<Rightarrow> (build_error + directive list) option" where
  "build_main H F =
     (let target = (case env_var H ''TARGET'' of Some t \<Rightarrow> t | None \<Rightarrow> [])
      in if \<not> contains ''android'' target then Some (Inr [])
      else case env_var H ''ANDROID_HOME'' of None \<Rightarrow> Some (Inl NoAndroidHome) | Some home \<Rightarrow>
      (case env_var H ''OUT_DIR'' of None \<Rightarrow> Some (Inl NoOutDir) | Some out \<Rightarrow>
      (case env_var H ''CARGO_MANIFEST_DIR'' of None \<Rightarrow> Some (Inl NoManifestDir) | Some mdir \<Rightarrow>
      (case java_sources F [mdir, ''java''] of Inl e \<Rightarrow> Some (Inl e) | Inr srcs \<Rightarrow>
      (case find_android_jar F home of None \<Rightarrow> Some (Inl NoAndroidJar) | Some jar \<Rightarrow>
      (case find_d8 F home of None \<Rightarrow> Some (Inl NoD8) | Some d8 \<Rightarrow>
       Option.bind (build_dex H jar d8 out srcs F) (\<lambda>r.
         case r of
           Inl e \<Rightarrow> Some (Inl e)
         | Inr (dex, F) \<Rightarrow>
             Some (Inr (map RerunIfChanged srcs @ [RustcEnvDex dex] @
               (case find_ndk_amidi_lib_dir F (env_var H ''ANDROID_NDK_HOME'') home target of
                  None \<Rightarrow> []
                | Some dir \<Rightarrow> [LinkSearchNative dir]) @
               [LinkLibAmidi])))))))))"

section \<open>Which tools are found\<close>

lemma versions_listed [simp]: "set (sort_newest vs) = set vs"
  by (simp add: sort_newest_def)

lemma sort_newest_order: "sorted_wrt (\<lambda>v w. version_key w \<le> version_key v) (sort_newest vs)"
  using sorted_sort_key [of version_key "rev vs"] by (simp add: sort_newest_def sorted_wrt_rev sorted_map)

text \<open>Versions that compare equal stay in the order of the directory.\<close>

lemma sort_newest_stable: "filter (\<lambda>v. version_key v = k) (sort_newest vs) = filter (\<lambda>v. version_key v = k) vs"
  by (simp add: sort_newest_def sort_key_stable flip: rev_filter)

lemma find_append: "find P (xs @ ys) = (case find P xs of None \<Rightarrow> find P ys | Some x \<Rightarrow> Some x)"
  by (induction xs) auto

text \<open>The first of a list found in blocks that are sorted: no earlier block has one.\<close>

lemma find_in_blocks:
  assumes "sorted_wrt R bs" "find P (concat (map f bs)) = Some x"
  shows "\<exists>b \<in> set bs. x \<in> set (f b) \<and> P x \<and> (\<forall>b' \<in> set bs. (\<exists>y \<in> set (f b'). P y) \<longrightarrow> b' = b \<or> R b b')"
  using assms
proof (induction bs)
  case (Cons b bs)
  show ?case
  proof (cases "find P (f b)")
    case None
    then have "find P (concat (map f (b # bs))) = find P (concat (map f bs))"
      by (simp add: find_append)
    then obtain c where c: "c \<in> set bs" "x \<in> set (f c) \<and> P x" "\<forall>b' \<in> set bs. (\<exists>y \<in> set (f b'). P y) \<longrightarrow> b' = c \<or> R c b'"
      using Cons.IH Cons.prems by auto
    moreover have "\<not> (\<exists>y \<in> set (f b). P y)" using None by (auto simp: find_None_iff)
    ultimately show ?thesis by (intro bexI [of _ c]) auto
  next
    case (Some y)
    then have "y = x" using Cons.prems by (simp add: find_append)
    with Some have "x \<in> set (f b) \<and> P x" by (metis find_Some_iff nth_mem)
    then show ?thesis using Cons.prems by auto
  qed
qed simp

text \<open>The executable found is one of a newest version that has any; none is found only when no
  version has one. Versions are compared as numbers, a part that is not a number counting as 0.\<close>

lemma find_d8_newest:
  fixes home :: string
  defines "dir \<equiv> [home, ''build-tools'']"
  shows "case find_d8 F home of
      None \<Rightarrow> \<forall>v \<in> set (versions_in F dir). \<forall>n \<in> set d8_names. \<not> path_exists F (dir @ [v, n])
    | Some p \<Rightarrow> \<exists>v \<in> set (versions_in F dir). \<exists>n \<in> set d8_names. p = dir @ [v, n] \<and> path_exists F p \<and>
        (\<forall>w \<in> set (versions_in F dir). (\<exists>m \<in> set d8_names. path_exists F (dir @ [w, m])) \<longrightarrow>
           version_key w \<le> version_key v)"
proof (cases "find_d8 F home")
  case None
  then have "find (path_exists F) (concat (map (\<lambda>v. map (\<lambda>n. dir @ [v, n]) d8_names) (sort_newest (versions_in F dir)))) = None"
    by (simp add: find_d8_def Let_def dir_def)
  then have none: "\<not> path_exists F x" if "x \<in> set (concat (map (\<lambda>v. map (\<lambda>n. dir @ [v, n]) d8_names)
      (sort_newest (versions_in F dir))))" for x
    using that unfolding find_None_iff by blast
  show ?thesis unfolding None option.case by (intro ballI, rule none) auto
next
  case (Some p)
  then have "find (path_exists F) (concat (map (\<lambda>v. map (\<lambda>n. dir @ [v, n]) d8_names) (sort_newest (versions_in F dir)))) = Some p"
    by (simp add: find_d8_def Let_def dir_def)
  from find_in_blocks [OF sort_newest_order this] obtain v where v: "v \<in> set (versions_in F dir)"
    "p \<in> (\<lambda>n. dir @ [v, n]) ` set d8_names" "path_exists F p"
    "\<forall>w \<in> set (versions_in F dir). (\<exists>y \<in> (\<lambda>n. dir @ [w, n]) ` set d8_names. path_exists F y) \<longrightarrow>
       w = v \<or> version_key w \<le> version_key v"
    unfolding set_map versions_listed by blast
  then obtain n where n: "n \<in> set d8_names" "p = dir @ [v, n]" by blast
  have "version_key w \<le> version_key v"
    if "w \<in> set (versions_in F dir)" "\<exists>m \<in> set d8_names. path_exists F (dir @ [w, m])" for w
    using v(4) that by (metis imageI order_refl)
  then show ?thesis unfolding Some option.case using v(1,3) n by blast
qed

lemma find_android_jar_newest:
  "find_android_jar F home = Some p \<Longrightarrow> \<exists>api. 26 \<le> api \<and> api < 36 \<and>
     p = [home, ''platforms'', ''android-'' @ show_two_digits api, ''android.jar''] \<and> path_exists F p \<and>
     (\<forall>api'. api < api' \<and> api' < 36 \<longrightarrow>
        \<not> path_exists F [home, ''platforms'', ''android-'' @ show_two_digits api', ''android.jar''])"
proof -
  define apis where "apis = rev [26..<36 :: nat]"
  let ?p = "\<lambda>api. [home, ''platforms'', ''android-'' @ show_two_digits api, ''android.jar'']"
  assume "find_android_jar F home = Some p"
  then have "find (path_exists F) (concat (map (\<lambda>api. [?p api]) apis)) = Some p"
    unfolding find_android_jar_def apis_def by (simp only: concat_map_singleton)
  moreover have "sorted_wrt (\<lambda>a b. b \<le> a) apis" unfolding apis_def sorted_wrt_rev by (rule sorted_upt)
  moreover have "set apis = {26..<36}" by (simp only: apis_def set_rev set_upt)
  ultimately obtain api where "api \<in> {26..<36}" "p = ?p api" "path_exists F p"
    "\<forall>b \<in> {26..<36}. path_exists F (?p b) \<longrightarrow> b = api \<or> b \<le> api"
    using find_in_blocks [of "\<lambda>a b. b \<le> a" apis "path_exists F" "\<lambda>api. [?p api]" p]
    unfolding list.set bex_simps by (metis singletonD singletonI)
  then show ?thesis by (intro exI [of _ api]) force
qed

text \<open>Numbers, not names, decide between two versions of the compiler; a release candidate is as new as
  its release. The NDK is taken by its name, where 9 comes after 27.\<close>

lemma version_examples:
  "version_key ''9.0.0'' < version_key ''33.0.1''"
  "version_key ''34.0.0-rc1'' = version_key ''34.0.0''"
  by (simp_all add: version_key_def parse_u32_def Let_def numeral_3_eq_3 u32_max_def)

lemma ndk_example:
  "rev (sort [[''home'', ''ndk'', ''27.0.1''], [''home'', ''ndk'', ''9.2.0'']]) =
     [[''home'', ''ndk'', ''9.2.0''], [''home'', ''ndk'', ''27.0.1'']]"
  by (simp add: less_char_def less_eq_char_def)

section \<open>The class files found\<close>

text \<open>Where directories have a finite depth (\<open>rank\<close>), the recursion ends with the class files below
  them, each as often as it is listed.\<close>

inductive below :: "fs \<Rightarrow> path \<Rightarrow> path \<Rightarrow> bool" for F where
  below_refl: "below F p p"
| below_step: "is_dir F p \<Longrightarrow> c \<in> set (entries F p) \<Longrightarrow> below F c f \<Longrightarrow> below F p f"

lemma below_cases: "below F p f \<longleftrightarrow> p = f \<or> is_dir F p \<and> (\<exists>c \<in> set (entries F p). below F c f)"
  by (metis below.simps)

definition class_file :: "fs \<Rightarrow> path \<Rightarrow> bool" where
  "class_file F f \<longleftrightarrow> \<not> is_dir F f \<and> has_extension ''class'' f"

lemma collect_below:
  assumes "\<And>p c. is_dir F p \<Longrightarrow> c \<in> set (entries F p) \<Longrightarrow> rank c < (rank p :: nat)"
    and "list_all (\<lambda>p. rank p < n) ps" "collect F qs = Some r"
  shows "\<exists>r'. collect F (ps @ qs) = Some (r' @ r) \<and> set r' = {f. class_file F f \<and> (\<exists>p \<in> set ps. below F p f)}"
  using assms(2,3)
proof (induction n arbitrary: ps qs r)
  case (Suc n)
  from Suc.prems show ?case
  proof (induction ps)
    case (Cons p ps)
    then obtain r1 where r1: "collect F (ps @ qs) = Some (r1 @ r)"
      "set r1 = {f. class_file F f \<and> (\<exists>p \<in> set ps. below F p f)}" by auto
    show ?case
    proof (cases "is_dir F p")
      case True
      have "list_all (\<lambda>c. rank c < n) (entries F p)"
        using assms(1) [OF True] Cons.prems(1) by (fastforce simp: list_all_iff)
      from Suc.IH [OF this r1(1)] obtain r2 where
        "collect F (entries F p @ ps @ qs) = Some (r2 @ r1 @ r)"
        "set r2 = {f. class_file F f \<and> (\<exists>c \<in> set (entries F p). below F c f)}" by auto
      moreover from True have "class_file F f \<Longrightarrow> below F p f \<longleftrightarrow> (\<exists>c \<in> set (entries F p). below F c f)" for f
        using below_cases [of F p f] by (auto simp: class_file_def)
      ultimately show ?thesis
        using True r1(2) by (intro exI [of _ "r2 @ r1"]) (auto simp: collect.simps [of F "p # ps @ qs"])
    next
      case False
      then have "below F p f \<longleftrightarrow> p = f" for f using below_cases [of F p f] by auto
      then show ?thesis
        using False r1
        by (intro exI [of _ "if has_extension ''class'' p then p # r1 else r1"])
          (auto simp: collect.simps [of F "p # ps @ qs"] class_file_def)
    qed
  qed simp
qed (simp_all add: list_all_iff)

lemma collect_class_files_finite:
  assumes "\<And>p c. is_dir F p \<Longrightarrow> c \<in> set (entries F p) \<Longrightarrow> rank c < (rank p :: nat)" "is_dir F dir"
  shows "\<exists>files. collect_class_files F dir = Some files \<and> set files = {f. class_file F f \<and> below F dir f}"
proof -
  have "list_all (\<lambda>p. rank p < rank dir) (entries F dir)" using assms by (simp add: list_all_iff)
  from collect_below [of F rank, OF assms(1) this, where qs = "[]" and r = "[]"] obtain files where
    "collect_class_files F dir = Some files" "set files = {f. class_file F f \<and> (\<exists>c \<in> set (entries F dir). below F c f)}"
    by (auto simp: collect_class_files_def collect.simps [of F "[]"])
  moreover have "class_file F f \<Longrightarrow> below F dir f \<longleftrightarrow> (\<exists>c \<in> set (entries F dir). below F c f)" for f
    using assms(2) below_cases [of F dir f] by (auto simp: class_file_def)
  ultimately show ?thesis by auto
qed

text \<open>A target that is not Android asks nothing of the machine.\<close>

lemma other_targets: "env_var H ''TARGET'' = Some t \<Longrightarrow> \<not> contains ''android'' t \<Longrightarrow> build_main H F = Some (Inr [])"
  by (simp add: build_main_def)

end
