(* ===== verification/Spec2Isabelle.thy ===== *)
theory Spec2Isabelle
  imports Keyer_Decoder Engine_Paddles Keyer_Thread Serial_Android Sidetone Iq_Accumulator Host_Transmit Emu_Main
    Proto_Transport Build_Script
begin

text \<open>
  Verification development of the radio-utils workspace: a CW keyer, a CW decoder, the host side of
  OpenHPSDR Protocol 1 and a radio emulator, four Rust crates under \<^verbatim>\<open>crates/\<close>.

  The program. Paddle sources (keyboard, serial pins, MIDI, several merged) report two contacts; the
  keyer's thread waits on them, feeds them to the keyer engine, ticks it every millisecond and hands its
  outputs (key down, key up, PTT) to the application. The engine also keys queued texts. The decoder
  turns key transitions back into characters. On the host, a Protocol 1 client discovers radios, sends
  numbered packets with control words and transmit samples, and parses the radio's packets into
  samples and status. The emulator is a radio: it answers discovery, takes control words and samples,
  records and mixes transmissions, and streams receiver samples to its clients.

  Theories and files (paths under \<^verbatim>\<open>crates/\<close>; every definition that translates code keeps the name of
  the code unless it would clash).

  \<^item> \<open>Radio_Prelude\<close>, \<open>Radio_Interfaces\<close>, \<open>Radio_Float\<close>, \<open>Hash_Map\<close>: byte codecs, saturating
    arithmetic, buffers written by index; the interfaces \<open>evicting_log\<close> (a bounded log that drops its
    oldest entries) and \<open>roundtrip_codec\<close>; \<^verbatim>\<open>f64\<close> and \<^verbatim>\<open>f32\<close> with their rounding; \<^verbatim>\<open>HashMap\<close>.
  \<^item> \<open>Keyer_Config\<close>, \<open>Keyer_Morse\<close>, \<open>Keyer_Engine\<close>: \<^verbatim>\<open>radio-utils-keyer/src/config.rs\<close>, \<^verbatim>\<open>morse.rs\<close>,
    \<^verbatim>\<open>engine.rs\<close>. The engine's properties are in \<open>Engine_Safety\<close> (the key-line protocol, an instance of
    the interface \<open>keyed_line\<close>), \<open>Engine_Ring\<close> (recorded transitions, an instance of \<open>evicting_log\<close>;
    deadline; the mode change that sticks the key), \<open>Engine_Timing\<close> (when texts and a held dit are keyed,
    to the tick; the interface \<open>rhythm\<close> of keys that follow a grid) and \<open>Engine_Paddles\<close> (the squeeze of
    the iambic modes and its release).
  \<^item> \<open>Keyer_Thread\<close>: \<^verbatim>\<open>handle.rs\<close>, the thread, its channels and its clock. \<open>Paddle_Inputs\<close>: \<^verbatim>\<open>input/\<close>,
    the waits of the sources under every interleaving (interface \<open>change_source\<close>). \<open>Midi_Learn\<close>:
    \<^verbatim>\<open>input/midi.rs\<close>. \<open>Sidetone\<close>: \<^verbatim>\<open>sidetone.rs\<close>.
  \<^item> \<open>Input_Backends\<close>: opening and reading on the desktop and in the browser (\<^verbatim>\<open>input/midi_native.rs\<close>,
    \<^verbatim>\<open>serial.rs\<close>, \<^verbatim>\<open>midi_web.rs\<close>, \<^verbatim>\<open>web_serial.rs\<close>). \<open>Jni_Calls\<close>: the calls of the Android sources on
    the Java machine and on AMidi, the handles they hold, and triples for actions that can fail.
    \<open>Midi_Android\<close>, \<open>Serial_Android\<close>: \<^verbatim>\<open>input/midi_android.rs\<close>, \<^verbatim>\<open>serial_android.rs\<close>, from loading
    the helper class to the destructor: which handles are open after every outcome, and what the
    polling threads do with a device that fails. \<open>Build_Script\<close>: \<^verbatim>\<open>radio-utils-keyer/build.rs\<close>, which
    finds the tools that make the bytes of the helper classes.
  \<^item> \<open>Cw_Decoder\<close>: \<^verbatim>\<open>radio-utils-cw-decoder/src/lib.rs\<close> and its refinement of an abstract decoder.
    \<open>Keyer_Decoder\<close> puts keyer and decoder together.
  \<^item> \<open>Proto_Types\<close>, \<open>Proto_Packets\<close>, \<open>Iq_Accumulator\<close>, \<open>Proto_Client\<close>, \<open>Proto_Discovery\<close>,
    \<open>Proto_Transport\<close>:
    \<^verbatim>\<open>radio-utils-protocol/src/types.rs\<close>, \<^verbatim>\<open>packets.rs\<close>, \<^verbatim>\<open>iq_accumulator.rs\<close>, \<^verbatim>\<open>protocol1.rs\<close>,
    \<^verbatim>\<open>discovery.rs\<close>, \<^verbatim>\<open>transport.rs\<close>.
  \<^item> \<open>Emu_Radio\<close>, \<open>Emu_Protocol1\<close>, \<open>Emu_Server\<close>: \<^verbatim>\<open>radio-utils-emu/src/radio.rs\<close> and \<^verbatim>\<open>protocol1.rs\<close>.
    \<open>Emu_Main\<close>: \<^verbatim>\<open>main.rs\<close>. Properties in \<open>Echo_Playback\<close> (recordings), \<open>Live_Mixing\<close> (the live buffer as a window on a
    timeline), \<open>Emu_Clients\<close> (several clients, the receive loop).
  \<^item> \<open>Emu_Link\<close>, \<open>Host_States\<close>, \<open>Host_Control\<close>, \<open>Host_Transmit\<close>: host and emulator together, packet by
    packet: what the emulator sends parses to what it generated; the states a client can reach and the
    numbering of its packets; what its control words do to the radio; the samples that reach the air.

  How code became definitions. A method that changes its object takes and returns the record. A panic is
  \<open>None\<close>, an error \<open>Inl\<close>, an early return the branch it is. What a task asks of the socket, a channel or
  the scheduler is a list of actions in order; what they give it (datagrams, timer ticks, commands, which
  sends fail, the clock) is an argument or an event, so a theorem about all event lists is about every
  schedule. Threads that share a mutex are step functions, one step per critical section. Words keep
  their width wherever bits are packed or arithmetic may wrap; counters that cannot wrap in practice
  (times in \<^verbatim>\<open>u64\<close>, statistics, generations of the merged source) are \<open>nat\<close>. Floating-point operations
  round after every operation; the sign of zero is the one thing not represented.

  Parameters, each with its documented laws as a named hypothesis: \<^verbatim>\<open>heapless::Deque\<close> (\<open>D\<close>,
  \<open>deque_laws\<close>), the consumer of \<^verbatim>\<open>ringbuf\<close> (\<open>R\<close>, \<open>ring_laws\<close>), \<^verbatim>\<open>libm\<close>'s sine and cosine
  (\<open>trig_laws\<close>), the answers of the Java machine, AMidi and the thread library (\<open>J\<close>, any function of
  the call and a state of its own), the socket operations of \<^verbatim>\<open>tokio\<close> (\<open>U\<close>, \<open>udp_laws\<close>), complex
  arithmetic, noise and the remaining numeric functions (\<open>externals\<close>), the iteration order of hash
  maps (\<open>order\<close>), the file system and the tools of the build (\<open>H\<close>). Lists and plain functions
  satisfy the laws, and the witnesses run the model with them.

  Bounds and termination. No definition uses fuel. The three loops whose end is not evident are partial
  functions into \<open>option\<close>: draining a deque (\<open>deque_drain\<close>), copying a recording that wraps
  (\<open>copy_wrapped\<close>) and the walk through the class directories (\<open>collect\<close>); \<open>drain_all\<close>,
  \<open>echo_playback_total\<close> and \<open>collect_class_files_finite\<close> show that they end. All durations of the
  keyer fit \<^verbatim>\<open>u32\<close> (\<open>durations_fit_u32\<close>), and a phase ends at most 22.4 s ahead of the clock.

  What modelling showed about the code: a change to the straight-key mode in the middle of an element
  leaves the key down (\<open>mode_change_sticks_key\<close>); in mode A with automatic letter spacing a remembered
  paddle is keyed after the release (\<open>mode_a_memory_refires\<close>); with eight receivers the configuration sent at start
  overwrites the drive level (\<open>eighth_receiver_overwrites_drive\<close>); with two or more receivers the guard
  against short voice packets is too small (\<open>voice_guard_too_small\<close>); the MIDI and USB-serial sources
  can miss a press that falls between two waits (\<open>midi_press_lost\<close>), the merged source cannot; on
  Android a MIDI message that is not data, also a flush, ends the polling (\<open>midi_poll_frozen\<close>), and a
  paddle that is down when its device goes away stays down (\<open>unplugged_paddle_stays_down\<close>); when the
  polling thread cannot be started the native handles stay open (\<open>midi_android_handles\<close>); with
  debug logging a datagram shorter than three bytes panics the emulator's receive loop
  (\<open>server_client_table\<close>).

  Not modelled: the Java classes behind the bridges, the sleeps of the polling threads and the timer
  resolution; the dialogue of the browser in which the user chooses a port; the argument parser and
  the logging of the emulator; the serialisation attributes of the configuration; constant
  \<open>describe\<close> strings; library roots and tests.
\<close>

end
